(* ===== verification/Chronos_Prelude.thy ===== *)
theory Chronos_Prelude
  imports Main "HOL-Library.Word" "HOL-Library.Sublist" "HOL-Library.List_Lexorder"
    "HOL-Library.Char_ord"
begin

text \<open>
  Shared material of the development: the collections its proofs use, decimal printing
  (\<^verbatim>\<open>fmt\<close>'s percent-d), the string helpers of Go's \<^verbatim>\<open>strings\<close> package that the code calls, and the
  row operations by which SQL tables are modelled (a table is the list of its rows in
  insertion order; an UPDATE maps over the rows that match its WHERE clause).
\<close>

named_theorems store_simps \<open>projections and frame facts of the delivery tables\<close>
named_theorems row_simps \<open>facts about looking up, updating and inserting table rows\<close>

text \<open>
  An instant (\<^verbatim>\<open>time.Time\<close>, in UTC) is the number of nanoseconds since Go's zero time, so
  \<^verbatim>\<open>IsZero\<close> is being 0, \<^verbatim>\<open>Before\<close> is less-than and \<^verbatim>\<open>Add\<close> is addition.
\<close>

type_synonym time = int

section \<open>Decimal numbers\<close>

definition digit_char :: "nat \<Rightarrow> char" where
  "digit_char d = char_of (48 + d)"

fun dec_text :: "nat \<Rightarrow> string" where
  "dec_text n = (if n < 10 then [digit_char n] else dec_text (n div 10) @ [digit_char (n mod 10)])"

declare dec_text.simps [simp del]

definition int_text :: "int \<Rightarrow> string" where
  "int_text i = (if i < 0 then CHR ''-'' # dec_text (nat (- i)) else dec_text (nat i))"

definition char_digit :: "char \<Rightarrow> nat" where
  "char_digit c = of_char c - 48"

definition dec_value :: "string \<Rightarrow> nat" where
  "dec_value s = foldl (\<lambda>a c. 10 * a + char_digit c) 0 s"

lemma char_digit_digit_char: "d < 10 \<Longrightarrow> char_digit (digit_char d) = d"
  by (simp add: char_digit_def digit_char_def of_char_of)

lemma dec_value_dec_text [simp]: "dec_value (dec_text n) = n"
proof (induction n rule: dec_text.induct)
  case (1 n)
  then show ?case
    by (cases "n < 10")
      (simp_all add: dec_text.simps [of n] dec_value_def char_digit_digit_char)
qed

lemma dec_text_inject [simp]: "dec_text m = dec_text n \<longleftrightarrow> m = n"
  by (metis dec_value_dec_text)

lemma of_char_digit_char: "d < 10 \<Longrightarrow> of_char (digit_char d) = (48 + d :: nat)"
  by (simp add: digit_char_def of_char_of)

lemma set_dec_text: "c \<in> set (dec_text n) \<Longrightarrow> 48 \<le> (of_char c :: nat) \<and> (of_char c :: nat) < 58"
proof (induction n rule: dec_text.induct)
  case (1 n)
  then show ?case
    by (cases "n < 10") (auto simp: dec_text.simps [of n] of_char_digit_char)
qed

lemma colon_notin_dec_text: "CHR '':'' \<notin> set (dec_text n)"
  using set_dec_text [of "CHR '':''" n] by auto

lemma int_text_inject: "0 \<le> i \<Longrightarrow> 0 \<le> j \<Longrightarrow> int_text i = int_text j \<longleftrightarrow> i = j"
  by (auto simp: int_text_def)

lemma colon_notin_int_text: "CHR '':'' \<notin> set (int_text i)"
  by (simp add: int_text_def colon_notin_dec_text)

text \<open>
  A key \<open>x : n\<close> built from any text and a number without colons determines both parts:
  the last colon separates them.
\<close>

lemma append_last_sep:
  assumes "x @ c # a = y @ c # b" and "c \<notin> set a" and "c \<notin> set b"
  shows "x = y \<and> a = b"
proof -
  have "rev a @ c # rev x = rev b @ c # rev y"
    using assms(1) by (metis append.assoc append_Cons append_Nil rev.simps(2) rev_append)
  moreover have "takeWhile (\<lambda>d. d \<noteq> c) (rev a @ c # rev x) = rev a"
    and "takeWhile (\<lambda>d. d \<noteq> c) (rev b @ c # rev y) = rev b"
    using assms(2,3) by (subst takeWhile_append2, auto)+
  ultimately have "rev a = rev b" by metis
  with assms(1) show ?thesis by simp
qed

section \<open>Go string helpers\<close>

definition has_prefix :: "string \<Rightarrow> string \<Rightarrow> bool" where
  "has_prefix s p = (take (length p) s = p)"

definition has_suffix :: "string \<Rightarrow> string \<Rightarrow> bool" where
  "has_suffix s p = has_prefix (rev s) (rev p)"

definition trim_prefix :: "string \<Rightarrow> string \<Rightarrow> string" where
  "trim_prefix s p = (if has_prefix s p then drop (length p) s else s)"

definition trim_suffix :: "string \<Rightarrow> string \<Rightarrow> string" where
  "trim_suffix s p = (if has_suffix s p then take (length s - length p) s else s)"

lemma has_prefix_iff: "has_prefix s p \<longleftrightarrow> prefix p s"
  by (auto simp: has_prefix_def prefix_def) (metis append_take_drop_id)

lemma has_prefix_refl [simp]: "has_prefix s s"
  by (simp add: has_prefix_def)

lemma has_prefix_append [simp]: "has_prefix (p @ s) p"
  by (simp add: has_prefix_def)

lemma not_isl_Inr: "\<not> isl r \<Longrightarrow> \<exists>s. r = Inr s"
  by (cases r) auto

section \<open>Table rows\<close>

definition row_find :: "('r \<Rightarrow> bool) \<Rightarrow> 'r list \<Rightarrow> 'r option" where
  "row_find p rows = find p rows"

definition row_update :: "('r \<Rightarrow> bool) \<Rightarrow> ('r \<Rightarrow> 'r) \<Rightarrow> 'r list \<Rightarrow> 'r list" where
  "row_update p f rows = map (\<lambda>r. if p r then f r else r) rows"

definition row_count :: "('r \<Rightarrow> bool) \<Rightarrow> 'r list \<Rightarrow> nat" where
  "row_count p rows = length (filter p rows)"

lemma row_find_None [row_simps]: "row_find p rows = None \<longleftrightarrow> (\<forall>r \<in> set rows. \<not> p r)"
  by (auto simp: row_find_def find_None_iff)

lemma row_find_SomeD: "row_find p rows = Some r \<Longrightarrow> r \<in> set rows \<and> p r"
  by (auto simp: row_find_def find_Some_iff)

lemma row_find_append [row_simps]:
  "row_find p (xs @ ys) = (case row_find p xs of None \<Rightarrow> row_find p ys | Some r \<Rightarrow> Some r)"
  by (induction xs) (auto simp: row_find_def)

lemma row_find_Nil [simp]: "row_find p [] = None"
  by (simp add: row_find_def)

lemma row_find_Cons [row_simps]:
  "row_find p (r # rows) = (if p r then Some r else row_find p rows)"
  by (simp add: row_find_def)

lemma row_find_cong: "(\<And>r. r \<in> set rows \<Longrightarrow> p r = q r) \<Longrightarrow> row_find p rows = row_find q rows"
  unfolding row_find_def by (induction rows) auto

lemma row_count_0 [row_simps]: "row_count p rows = 0 \<longleftrightarrow> row_find p rows = None"
  by (auto simp: row_count_def row_find_None filter_empty_conv)

lemma row_count_append [row_simps]: "row_count p (xs @ ys) = row_count p xs + row_count p ys"
  by (simp add: row_count_def)

lemma length_row_update [simp]: "length (row_update p f rows) = length rows"
  by (simp add: row_update_def)

lemma row_update_append [row_simps]: "row_update p f (xs @ ys) = row_update p f xs @ row_update p f ys"
  by (simp add: row_update_def)

lemma row_update_none: "row_find p rows = None \<Longrightarrow> row_update p f rows = rows"
  by (induction rows) (auto simp: row_update_def row_find_def split: if_splits)

lemma set_row_update: "set (row_update p f rows) = (\<lambda>r. if p r then f r else r) ` set rows"
  by (auto simp: row_update_def)

text \<open>
  Tables with a primary key. The laws: an update that keeps the key keeps the keys, and so
  their distinctness; inserting a row under a fresh key keeps distinctness; a key selects at
  most one row. They are proved once for any key function and used for every table.
\<close>

locale keyed_rows =
  fixes key :: "'r \<Rightarrow> 'k" and keeps :: "('r \<Rightarrow> 'r) \<Rightarrow> bool"
  assumes keeps_key: "keeps f \<Longrightarrow> key (f r) = key r"
begin

definition at :: "'k \<Rightarrow> 'r list \<Rightarrow> 'r option" where
  "at k rows = row_find (\<lambda>r. key r = k) rows"

lemma keys_update: "keeps f \<Longrightarrow> map key (row_update p f rows) = map key rows"
  by (simp add: row_update_def keeps_key)

lemma rows_update:
  "keeps f \<Longrightarrow> filter (\<lambda>r. key r = k) (row_update p f rows) = row_update p f (filter (\<lambda>r. key r = k) rows)"
  by (induction rows) (auto simp: row_update_def keeps_key)

lemma rows_update_other:
  assumes "keeps f" and "\<And>r. p r \<Longrightarrow> key r \<noteq> k"
  shows "filter (\<lambda>r. key r = k) (row_update p f rows) = filter (\<lambda>r. key r = k) rows"
proof -
  have "row_update p f (filter (\<lambda>r. key r = k) rows) = filter (\<lambda>r. key r = k) rows"
    using assms(2) by (intro row_update_none) (auto simp: row_find_None)
  with assms(1) show ?thesis by (simp add: rows_update)
qed

lemma distinct_update: "keeps f \<Longrightarrow> distinct (map key rows) \<Longrightarrow> distinct (map key (row_update p f rows))"
  by (simp add: keys_update)

lemma distinct_insert:
  "row_find (\<lambda>r. key r = key x) rows = None \<Longrightarrow> distinct (map key rows) \<Longrightarrow> distinct (map key (rows @ [x]))"
  by (auto simp: row_find_None)

lemma find_unique:
  "distinct (map key rows) \<Longrightarrow> r \<in> set rows \<Longrightarrow> row_find (\<lambda>x. key x = key r) rows = Some r"
  by (induction rows) (auto simp: row_find_Cons)

lemma count_le_1: "distinct (map key rows) \<Longrightarrow> row_count (\<lambda>r. key r = k \<and> q r) rows \<le> 1"
proof (induction rows)
  case Nil
  then show ?case by (simp add: row_count_def)
next
  case (Cons r rows)
  have "key r = k \<Longrightarrow> filter (\<lambda>r. key r = k \<and> q r) rows = []"
    using Cons.prems by (auto simp: filter_empty_conv) (metis image_eqI)
  with Cons show ?case by (auto simp: row_count_def)
qed

lemma find_update_same:
  assumes "keeps f"
  shows "row_find (\<lambda>r. key r = k) (row_update (\<lambda>r. key r = k) f rows) =
     map_option f (row_find (\<lambda>r. key r = k) rows)"
  using assms by (induction rows) (auto simp: row_find_Cons row_update_def keeps_key)

lemma find_update_where:
  assumes "keeps f" and "distinct (map key rows)" and "row_find (\<lambda>r. key r = k) rows = Some r"
  shows "row_find (\<lambda>r. key r = k) (row_update (\<lambda>r. key r = k \<and> q r) f rows) =
     Some (if q r then f r else r)"
  using assms by (induction rows) (auto simp: row_find_Cons row_update_def keeps_key split: if_splits)

lemma find_update_other:
  assumes "keeps f" and "k \<noteq> k'"
  shows "row_find (\<lambda>r. key r = k') (row_update (\<lambda>r. key r = k \<and> q r) f rows) =
     row_find (\<lambda>r. key r = k') rows"
  using assms by (induction rows) (auto simp: row_find_Cons row_update_def keeps_key)

end

section \<open>Machines and their runs\<close>

text \<open>
  Several components are machines driven by a sequence of calls. The interface is a step
  function on states and an invariant that every step keeps; what a client gets is that the
  invariant holds after any run.
\<close>

locale machine =
  fixes step :: "'op \<Rightarrow> 's \<Rightarrow> 's" and inv :: "'s \<Rightarrow> bool"
  assumes step_inv: "inv s \<Longrightarrow> inv (step x s)"
begin

lemma run_inv: "inv s \<Longrightarrow> inv (fold step xs s)"
  by (induction xs arbitrary: s) (auto intro: step_inv)

end

text \<open>A machine whose states are ordered, every step going up.\<close>

locale monotone_machine = machine +
  fixes le :: "'b \<Rightarrow> 'b \<Rightarrow> bool"
  assumes le_refl: "le s s"
    and le_trans: "le s t \<Longrightarrow> le t u \<Longrightarrow> le s u"
    and step_le: "inv s \<Longrightarrow> le s (step x s)"
begin

lemma run_le: "inv s \<Longrightarrow> le s (fold step xs s)"
proof (induction xs arbitrary: s)
  case Nil
  show ?case by (simp add: le_refl)
next
  case (Cons x xs)
  from Cons.prems have "inv (step x s)" by (rule step_inv)
  with Cons.IH have "le (step x s) (fold step xs (step x s))" by blast
  with Cons.prems show ?case by (auto intro: le_trans step_le)
qed

end

end
