(* ===== verification/Go_Paths.thy ===== *)
theory Go_Paths
  imports Chronos_Prelude
begin

text \<open>
  The lexical functions of Go's \<^verbatim>\<open>path/filepath\<close> package (Unix separators) that the modelled
  code calls: \<^verbatim>\<open>Clean\<close>, \<^verbatim>\<open>Join\<close>, \<^verbatim>\<open>Dir\<close>, \<^verbatim>\<open>Ext\<close>, \<^verbatim>\<open>IsAbs\<close>. They are standard library functions,
  described here by components: a path is split at slashes, empty and dot components are
  dropped, and a dot-dot removes the component before it.
\<close>

fun split_slash_acc :: "string \<Rightarrow> string \<Rightarrow> string list" where
  "split_slash_acc acc [] = [rev acc]"
| "split_slash_acc acc (c # cs) =
     (if c = CHR ''/'' then rev acc # split_slash_acc [] cs else split_slash_acc (c # acc) cs)"

definition split_slash :: "string \<Rightarrow> string list" where
  "split_slash s = split_slash_acc [] s"

fun join_slash :: "string list \<Rightarrow> string" where
  "join_slash [] = []"
| "join_slash [x] = x"
| "join_slash (x # y # xs) = x @ CHR ''/'' # join_slash (y # xs)"

definition is_abs :: "string \<Rightarrow> bool" where
  "is_abs s = has_prefix s ''/''"

text \<open>The stack holds the components kept so far, last first.\<close>

fun clean_components :: "bool \<Rightarrow> string list \<Rightarrow> string list \<Rightarrow> string list" where
  "clean_components rooted stack [] = rev stack"
| "clean_components rooted stack (x # xs) =
     (if x = '''' \<or> x = ''.'' then clean_components rooted stack xs
      else if x = ''..'' then
        (case stack of
           [] \<Rightarrow> if rooted then clean_components rooted [] xs else clean_components rooted [''..''] xs
         | y # ys \<Rightarrow> if y = ''..'' then clean_components rooted (''..'' # stack) xs
                     else clean_components rooted ys xs)
      else clean_components rooted (x # stack) xs)"

definition clean_path :: "string \<Rightarrow> string" where
  "clean_path s =
     (let comps = clean_components (is_abs s) [] (split_slash s)
      in if is_abs s then ''/'' @ join_slash comps
         else if comps = [] then ''.'' else join_slash comps)"

definition join_path :: "string \<Rightarrow> string \<Rightarrow> string" where
  "join_path a b =
     (if a = '''' \<and> b = '''' then ''''
      else if a = '''' then clean_path b
      else if b = '''' then clean_path a
      else clean_path (a @ ''/'' @ b))"

text \<open>\<^verbatim>\<open>Dir\<close> cleans everything up to and including the last slash.\<close>

definition upto_last_slash :: "string \<Rightarrow> string" where
  "upto_last_slash s = rev (dropWhile (\<lambda>c. c \<noteq> CHR ''/'') (rev s))"

definition dir_path :: "string \<Rightarrow> string" where
  "dir_path s = clean_path (upto_last_slash s)"

text \<open>\<^verbatim>\<open>Ext\<close> is the text from the last dot of the last component, empty when there is none.\<close>

definition ext_path :: "string \<Rightarrow> string" where
  "ext_path s =
     (let base = takeWhile (\<lambda>c. c \<noteq> CHR ''/'') (rev s)
      in if CHR ''.'' \<in> set base then rev (takeWhile (\<lambda>c. c \<noteq> CHR ''.'') base @ ''.'') else '''')"

lemma clean_path_examples:
  "clean_path ''pkg/../pkg/./a.go'' = ''pkg/a.go''"
  "clean_path '''' = ''.''"
  "clean_path ''/../a//b/'' = ''/a/b''"
  "dir_path ''a/b.go'' = ''a''"
  "dir_path ''b.go'' = ''.''"
  "ext_path ''a.d/b'' = ''''"
  "ext_path ''a.d/b.go'' = ''.go''"
  "join_path '''' ''go.mod'' = ''go.mod''"
  "join_path ''.'' ''go.sum'' = ''go.sum''"
  by code_simp+

end
