(* ===== verification/Ledger.thy ===== *)
theory Ledger
  imports Go_Paths
begin

text \<open>
  The append-only evidence ledger of one task (\<^verbatim>\<open>internal/execution/ledger.go\<close> and
  \<^verbatim>\<open>verification_inputs.go\<close>): events, their validation, the reduction of an event sequence to
  the current state of a task, and the ledger's two ways in, \<^verbatim>\<open>Append\<close> for replay and \<^verbatim>\<open>Record\<close>
  for the runtime. Sequence numbers and mutation revisions are \<^verbatim>\<open>uint64\<close> and kept at 64 bits.
  Instants are nanoseconds since Go's zero time, so \<^verbatim>\<open>IsZero\<close> is being 0. The deep copies
  of \<^verbatim>\<open>cloneEvent\<close> are the identity on values; locks are not modelled, each method being one
  atomic step.
\<close>

section \<open>Events\<close>

type_synonym u64 = "64 word"

datatype scope_kind = ScopeExact | ScopeDirectory | ScopeWorkspace | ScopeKindOther string

record scope =
  sc_kind :: scope_kind
  sc_path :: string

datatype event_type =
  EventRequirement | EventAssumption | EventWrite | EventModelCall | EventToolCall
  | EventVerification | EventUncertainty | EventClaim | EventTypeOther string

datatype command_class =
  CommandNone | CommandUnknown | CommandBuild | CommandDiagnostics | CommandTest | CommandDiff
  | CommandRead | CommandMutation | CommandClassOther string

datatype terminal_state =
  TerminalNone | TerminalExited | TerminalTimedOut | TerminalCancelled | TerminalSpawnFailed
  | TerminalStateOther string

datatype provenance =
  ProvenanceNone | ProvenanceRuntime | ProvenanceTrustedAdapter | ProvenanceOther string

record event =
  ev_id :: string
  ev_task :: string
  ev_seq :: u64
  ev_type :: event_type
  ev_call :: string
  ev_evidence :: string
  ev_paths :: "string list"
  ev_scopes :: "scope list"
  ev_dirs :: "string list"
  ev_passed :: bool
  ev_detail :: string
  ev_hash :: string
  ev_size :: int
  ev_rev :: u64
  ev_command :: string
  ev_class :: command_class
  ev_family :: string
  ev_root :: string
  ev_exit :: "int option"
  ev_terminal :: terminal_state
  ev_prov :: provenance
  ev_started :: time
  ev_completed :: time

text \<open>The zero value of the struct, from which concrete events are built.\<close>

definition zero_event :: event where
  "zero_event = \<lparr>ev_id = '''', ev_task = '''', ev_seq = 0, ev_type = EventTypeOther '''',
     ev_call = '''', ev_evidence = '''', ev_paths = [], ev_scopes = [], ev_dirs = [],
     ev_passed = False, ev_detail = '''', ev_hash = '''', ev_size = 0, ev_rev = 0,
     ev_command = '''', ev_class = CommandNone, ev_family = '''', ev_root = '''',
     ev_exit = None, ev_terminal = TerminalNone, ev_prov = ProvenanceNone,
     ev_started = 0, ev_completed = 0\<rparr>"

datatype ledger_error =
  ErrDuplicateEventID | ErrDuplicateEvidenceID | ErrDuplicateCallID | ErrOutOfOrderEvent
  | ErrTaskMismatch | ErrInvalidEvent | ErrSink

section \<open>Validation\<close>

fun validCommandClass :: "command_class \<Rightarrow> bool" where
  "validCommandClass (CommandClassOther s) = False"
| "validCommandClass c = True"

fun validTerminalState :: "terminal_state \<Rightarrow> bool" where
  "validTerminalState (TerminalStateOther s) = False"
| "validTerminalState t = True"

fun validProvenance :: "provenance \<Rightarrow> bool" where
  "validProvenance (ProvenanceOther s) = False"
| "validProvenance p = True"

definition validScope :: "scope \<Rightarrow> bool" where
  "validScope s =
     (if sc_kind s = ScopeWorkspace then sc_path s = ''''
      else (sc_kind s = ScopeExact \<or> sc_kind s = ScopeDirectory) \<and> sc_path s \<noteq> '''')"

definition validateEvent :: "event \<Rightarrow> ledger_error option" where
  "validateEvent e =
     (if ev_id e = '''' \<or> ev_task e = '''' \<or> ev_seq e = 0 then Some ErrInvalidEvent
      else if ev_size e < 0 \<or>
        (ev_started e \<noteq> 0 \<and> ev_completed e \<noteq> 0 \<and> ev_completed e < ev_started e)
        then Some ErrInvalidEvent
      else if \<not> validCommandClass (ev_class e) \<or> \<not> validTerminalState (ev_terminal e) \<or>
        \<not> validProvenance (ev_prov e) then Some ErrInvalidEvent
      else if \<not> list_all validScope (ev_scopes e) then Some ErrInvalidEvent
      else (case ev_type e of
          EventRequirement \<Rightarrow> None
        | EventAssumption \<Rightarrow> None
        | EventUncertainty \<Rightarrow> None
        | EventClaim \<Rightarrow> None
        | EventWrite \<Rightarrow>
            (if ev_paths e = [] \<and> ev_scopes e = [] then Some ErrInvalidEvent else None)
        | EventModelCall \<Rightarrow> (if ev_call e = '''' then Some ErrInvalidEvent else None)
        | EventToolCall \<Rightarrow> (if ev_call e = '''' then Some ErrInvalidEvent else None)
        | EventVerification \<Rightarrow>
            (if ev_evidence e = '''' \<or> (ev_paths e = [] \<and> ev_scopes e = [])
             then Some ErrInvalidEvent else None)
        | EventTypeOther s \<Rightarrow> Some ErrInvalidEvent))"

section \<open>Which writes touch which checks\<close>

definition pathWithin :: "string \<Rightarrow> string \<Rightarrow> bool" where
  "pathWithin path directory =
     (directory = ''.'' \<or> has_prefix path (trim_suffix directory ''/'' @ ''/''))"

definition scopeOverlaps :: "scope \<Rightarrow> scope \<Rightarrow> bool" where
  "scopeOverlaps l r =
     (if sc_kind l = ScopeWorkspace \<or> sc_kind r = ScopeWorkspace then True
      else if sc_path l = sc_path r then True
      else sc_kind l = ScopeDirectory \<and> pathWithin (sc_path r) (sc_path l) \<or>
           sc_kind r = ScopeDirectory \<and> pathWithin (sc_path l) (sc_path r))"

definition ScopesOverlap :: "scope list \<Rightarrow> scope list \<Rightarrow> bool" where
  "ScopesOverlap ls rs = list_ex (\<lambda>l. list_ex (\<lambda>r. scopeOverlaps l r) rs) ls"

definition scopesForEvent :: "event \<Rightarrow> scope list" where
  "scopesForEvent e =
     (if ev_scopes e \<noteq> [] then ev_scopes e
      else map (\<lambda>p. \<lparr>sc_kind = ScopeExact, sc_path = p\<rparr>) (ev_paths e))"

definition pathsOverlap :: "string list \<Rightarrow> string list \<Rightarrow> bool" where
  "pathsOverlap ls rs = list_ex (\<lambda>r. r \<in> set ls) rs"

definition eventScopesOverlap :: "event \<Rightarrow> event \<Rightarrow> bool" where
  "eventScopesOverlap l r =
     (if ev_scopes l \<noteq> [] \<or> ev_scopes r \<noteq> [] then ScopesOverlap (scopesForEvent l) (scopesForEvent r)
      else pathsOverlap (ev_paths l) (ev_paths r))"

definition VerificationInputsOverlap :: "event \<Rightarrow> event \<Rightarrow> bool" where
  "VerificationInputsOverlap check write =
     (if eventScopesOverlap check write then True
      else if \<not> has_prefix (ev_family check) ''go-'' then False
      else list_ex (\<lambda>changed.
          list_ex (\<lambda>d. dir_path changed = d) (ev_dirs check)
          \<or> changed = join_path (ev_root check) ''go.mod''
          \<or> changed = join_path (ev_root check) ''go.sum''
          \<or> (ext_path changed = ''.go'' \<and>
             list_ex (\<lambda>s. sc_kind s = ScopeExact \<and> ext_path (sc_path s) = ''.go'' \<and>
                dir_path (sc_path s) = dir_path changed) (ev_scopes check)))
        (ev_paths write))"

section \<open>Reduction\<close>

record verification =
  vf_event :: event
  vf_current :: bool

record state =
  st_task :: string
  st_events :: "event list"
  st_requirements :: "event list"
  st_assumptions :: "event list"
  st_writes :: "event list"
  st_calls :: "string \<rightharpoonup> event"
  st_verification :: "string \<rightharpoonup> verification"
  st_uncertainties :: "event list"

definition empty_state :: state where
  "empty_state = \<lparr>st_task = '''', st_events = [], st_requirements = [], st_assumptions = [],
     st_writes = [], st_calls = Map.empty, st_verification = Map.empty, st_uncertainties = []\<rparr>"

definition invalidateVerification ::
  "(string \<rightharpoonup> verification) \<Rightarrow> event \<Rightarrow> (string \<rightharpoonup> verification)" where
  "invalidateVerification vs write = (\<lambda>id. case vs id of
       None \<Rightarrow> None
     | Some v \<Rightarrow>
         if \<not> vf_current v \<or> \<not> VerificationInputsOverlap (vf_event v) write then Some v
         else Some (v\<lparr>vf_current := False\<rparr>))"

definition verificationRevisionCurrent :: "event list \<Rightarrow> event \<Rightarrow> bool" where
  "verificationRevisionCurrent writes v =
     (if ev_rev v = 0 then True
      else \<not> list_ex (\<lambda>w. ev_rev v < ev_rev w \<and> VerificationInputsOverlap v w) writes)"

text \<open>One turn of the loop's \<^verbatim>\<open>switch\<close>, on a state that already holds the event.\<close>

definition reduce_event :: "state \<Rightarrow> event \<Rightarrow> ledger_error + state" where
  "reduce_event s e = (case ev_type e of
       EventRequirement \<Rightarrow> Inr (s\<lparr>st_requirements := st_requirements s @ [e]\<rparr>)
     | EventAssumption \<Rightarrow> Inr (s\<lparr>st_assumptions := st_assumptions s @ [e]\<rparr>)
     | EventWrite \<Rightarrow> Inr (s\<lparr>st_writes := st_writes s @ [e],
           st_verification := invalidateVerification (st_verification s) e\<rparr>)
     | EventModelCall \<Rightarrow>
         (case st_calls s (ev_call e) of
            Some _ \<Rightarrow> Inl ErrDuplicateCallID
          | None \<Rightarrow> Inr (s\<lparr>st_calls := (st_calls s)(ev_call e \<mapsto> e)\<rparr>))
     | EventToolCall \<Rightarrow>
         (case st_calls s (ev_call e) of
            Some _ \<Rightarrow> Inl ErrDuplicateCallID
          | None \<Rightarrow> Inr (s\<lparr>st_calls := (st_calls s)(ev_call e \<mapsto> e)\<rparr>))
     | EventVerification \<Rightarrow>
         (case st_verification s (ev_evidence e) of
            Some _ \<Rightarrow> Inl ErrDuplicateEvidenceID
          | None \<Rightarrow> Inr (s\<lparr>st_verification := (st_verification s)(ev_evidence e \<mapsto>
              \<lparr>vf_event = e, vf_current = (ev_passed e \<and> verificationRevisionCurrent (st_writes s) e)\<rparr>)\<rparr>))
     | EventUncertainty \<Rightarrow> Inr (s\<lparr>st_uncertainties := st_uncertainties s @ [e]\<rparr>)
     | EventClaim \<Rightarrow> Inr s
     | EventTypeOther t \<Rightarrow> Inr s)"

text \<open>
  The loop of \<^verbatim>\<open>Reduce\<close>. The accumulator is the state reduced so far; \<^verbatim>\<open>seenEvents\<close> is the set of
  the identifiers of its events and \<^verbatim>\<open>previous\<close> the sequence of the last one.
\<close>

definition reduce_step :: "state \<Rightarrow> event \<Rightarrow> ledger_error + state" where
  "reduce_step s e = (case validateEvent e of
       Some err \<Rightarrow> Inl err
     | None \<Rightarrow>
         if ev_id e \<in> set (map ev_id (st_events s)) then Inl ErrDuplicateEventID
         else if st_events s \<noteq> [] \<and> ev_seq e \<le> ev_seq (last (st_events s)) then Inl ErrOutOfOrderEvent
         else if st_task s \<noteq> '''' \<and> ev_task e \<noteq> st_task s then Inl ErrTaskMismatch
         else reduce_event (s\<lparr>st_task := (if st_task s = '''' then ev_task e else st_task s),
                st_events := st_events s @ [e]\<rparr>) e)"

fun reduce_from :: "state \<Rightarrow> event list \<Rightarrow> ledger_error + state" where
  "reduce_from s [] = Inr s"
| "reduce_from s (e # es) = (case reduce_step s e of Inl err \<Rightarrow> Inl err | Inr s' \<Rightarrow> reduce_from s' es)"

definition Reduce :: "event list \<Rightarrow> ledger_error + state" where
  "Reduce es = reduce_from empty_state es"

section \<open>The ledger\<close>

text \<open>
  What became of handing one event to the sink: it was persisted; it was refused with nothing
  written; or an error came back after the record had reached the file (\<^verbatim>\<open>fileLedgerSink\<close> returns
  the error of \<^verbatim>\<open>Sync\<close> or \<^verbatim>\<open>Close\<close> after a complete \<^verbatim>\<open>Write\<close>). The sink keeps the records it holds.
\<close>

datatype sink_outcome = SinkOk | SinkRefused | SinkErrorAfterWrite

record ledger =
  l_task :: string
  l_events :: "event list"
  l_next :: u64
  l_rev :: u64
  l_sink :: "event list option"

definition NewLedger :: "string \<Rightarrow> ledger" where
  "NewLedger task = \<lparr>l_task = task, l_events = [], l_next = 0, l_rev = 0, l_sink = None\<rparr>"

definition AttachSink :: "event list \<Rightarrow> ledger \<Rightarrow> ledger" where
  "AttachSink durable l = l\<lparr>l_sink := Some durable\<rparr>"

definition sink_append :: "sink_outcome \<Rightarrow> event \<Rightarrow> event list \<Rightarrow> event list" where
  "sink_append out e log = (if out = SinkRefused then log else log @ [e])"

definition commit_event :: "event \<Rightarrow> state \<Rightarrow> ledger \<Rightarrow> ledger" where
  "commit_event e s l = l\<lparr>l_task := (if l_task l = '''' then st_task s else l_task l),
     l_events := l_events l @ [e],
     l_next := (if l_next l < ev_seq e then ev_seq e else l_next l),
     l_rev := (if l_rev l < ev_rev e then ev_rev e else l_rev l)\<rparr>"

text \<open>
  \<^verbatim>\<open>appendLocked\<close>: the whole history is reduced again, the sink persists first, and only then does
  the in-memory ledger change. The error comes with the ledger because a sink that fails after
  writing has changed the durable history.
\<close>

definition appendLocked :: "sink_outcome \<Rightarrow> event \<Rightarrow> ledger \<Rightarrow> ledger_error option \<times> ledger" where
  "appendLocked out e l = (case Reduce (l_events l @ [e]) of
       Inl err \<Rightarrow> (Some err, l)
     | Inr s \<Rightarrow>
         if l_task l \<noteq> '''' \<and> st_task s \<noteq> l_task l then (Some ErrTaskMismatch, l)
         else (case l_sink l of
             None \<Rightarrow> (None, commit_event e s l)
           | Some log \<Rightarrow>
               (let l' = l\<lparr>l_sink := Some (sink_append out e log)\<rparr>
                in if out = SinkOk then (None, commit_event e s l') else (Some ErrSink, l'))))"

definition Append :: "sink_outcome \<Rightarrow> event \<Rightarrow> ledger \<Rightarrow> ledger_error option \<times> ledger" where
  "Append out e l = appendLocked out e l"

text \<open>\<^verbatim>\<open>Record\<close> fills in identity, order and mutation revision before appending.\<close>

definition event_key :: "string \<Rightarrow> u64 \<Rightarrow> string" where
  "event_key task n = task @ '':'' @ dec_text (unat n)"

definition stamp_event :: "ledger \<Rightarrow> event \<Rightarrow> event" where
  "stamp_event l e0 =
     (let sequence = (if l_events l = [] then of_nat (length (l_events l) + 1)
                      else ev_seq (last (l_events l)) + 1);
          nextID = l_next l + 1;
          key = event_key (l_task l) nextID;
          e1 = e0\<lparr>ev_id := key, ev_task := l_task l, ev_seq := sequence\<rparr>;
          e2 = (if ev_type e1 = EventVerification \<and> ev_evidence e1 = '''' then e1\<lparr>ev_evidence := key\<rparr> else e1);
          e3 = (if (ev_type e2 = EventModelCall \<or> ev_type e2 = EventToolCall) \<and> ev_call e2 = ''''
                then e2\<lparr>ev_call := key\<rparr> else e2)
      in if ev_type e3 = EventWrite then e3\<lparr>ev_rev := l_rev l + 1\<rparr>
         else if ev_rev e3 = 0 then e3\<lparr>ev_rev := l_rev l\<rparr> else e3)"

definition Record :: "sink_outcome \<Rightarrow> event \<Rightarrow> ledger \<Rightarrow> (ledger_error + event) \<times> ledger" where
  "Record out e0 l =
     (let e = stamp_event l e0;
          revision = (if ev_type e0 = EventWrite then l_rev l + 1 else l_rev l)
      in case appendLocked out e l of
           (Some err, l') \<Rightarrow> (Inl err, l')
         | (None, l') \<Rightarrow> (Inr e, l'\<lparr>l_next := l_next l + 1, l_rev := revision\<rparr>))"

definition EventsSince :: "ledger \<Rightarrow> int \<Rightarrow> event list \<times> int" where
  "EventsSince l n =
     (let k = min (max n 0) (int (length (l_events l)))
      in (drop (nat k) (l_events l), int (length (l_events l))))"

definition State :: "ledger \<Rightarrow> ledger_error + state" where
  "State l = Reduce (l_events l)"

definition Revision :: "ledger \<Rightarrow> u64" where
  "Revision l = l_rev l"

section \<open>Reduction, one event at a time\<close>

lemma reduce_from_append:
  "reduce_from s (xs @ ys) = (case reduce_from s xs of Inl err \<Rightarrow> Inl err | Inr s' \<Rightarrow> reduce_from s' ys)"
  by (induction xs arbitrary: s) (auto split: sum.splits)

lemma Reduce_snoc:
  "Reduce (es @ [e]) = (case Reduce es of Inl err \<Rightarrow> Inl err | Inr s \<Rightarrow> reduce_step s e)"
  by (auto simp: Reduce_def reduce_from_append split: sum.splits)

lemma Reduce_Nil [simp]: "Reduce [] = Inr empty_state"
  by (simp add: Reduce_def)

lemma reduce_event_fields:
  "reduce_event s e = Inr s' \<Longrightarrow> st_events s' = st_events s \<and> st_task s' = st_task s"
  by (auto simp: reduce_event_def split: event_type.splits option.splits)

lemma reduce_step_fields:
  assumes "reduce_step s e = Inr s'"
  shows "st_events s' = st_events s @ [e]"
    and "st_task s' = ev_task e"
    and "validateEvent e = None"
    and "ev_id e \<notin> set (map ev_id (st_events s))"
    and "st_events s \<noteq> [] \<Longrightarrow> ev_seq (last (st_events s)) < ev_seq e"
    and "st_task s = '''' \<or> st_task s = ev_task e"
  using assms
  by (auto simp: reduce_step_def dest!: reduce_event_fields split: option.splits if_splits)

lemma validateEvent_task: "validateEvent e = None \<Longrightarrow> ev_task e \<noteq> ''''"
  by (simp add: validateEvent_def split: if_splits)

text \<open>What a history that reduces looks like.\<close>

definition wf_history :: "event list \<Rightarrow> bool" where
  "wf_history es =
     (distinct (map ev_id es) \<and> sorted_wrt (<) (map ev_seq es) \<and>
      list_all (\<lambda>e. validateEvent e = None) es)"

lemma sorted_wrt_snoc:
  fixes xs :: "'a::linorder list"
  assumes "sorted_wrt (<) xs" and "xs \<noteq> [] \<Longrightarrow> last xs < x"
  shows "sorted_wrt (<) (xs @ [x])"
proof -
  have "y < x" if "y \<in> set xs" for y
  proof -
    from that obtain i where i: "i < length xs" "xs ! i = y" by (auto simp: in_set_conv_nth)
    then have "xs \<noteq> []" by auto
    then have last: "last xs < x" "last xs = xs ! (length xs - 1)" using assms(2) by (auto simp: last_conv_nth)
    show ?thesis
    proof (cases "i = length xs - 1")
      case True
      with last i show ?thesis by simp
    next
      case False
      with i have "xs ! i < xs ! (length xs - 1)" using assms(1) by (auto simp: sorted_wrt_iff_nth_less)
      with last i show ?thesis by auto
    qed
  qed
  with assms(1) show ?thesis by (auto simp: sorted_wrt_append)
qed

lemma Reduce_wf:
  "Reduce es = Inr s \<Longrightarrow> wf_history es \<and> st_events s = es \<and>
     list_all (\<lambda>e. ev_task e = st_task s) es \<and> (es = [] \<longleftrightarrow> st_task s = '''')"
proof (induction es arbitrary: s rule: rev_induct)
  case Nil
  then show ?case by (auto simp: wf_history_def empty_state_def)
next
  case (snoc e es)
  from snoc.prems obtain s0 where s0: "Reduce es = Inr s0" and st: "reduce_step s0 e = Inr s"
    by (auto simp: Reduce_snoc split: sum.splits)
  note IH = snoc.IH [OF s0]
  note f = reduce_step_fields [OF st]
  have task: "ev_task e \<noteq> ''''" using f(3) by (rule validateEvent_task)
  have srt: "sorted_wrt (<) (map ev_seq es @ [ev_seq e])"
    using IH f(5) by (intro sorted_wrt_snoc) (auto simp: wf_history_def last_map)
  have tasks: "list_all (\<lambda>x. ev_task x = st_task s) es"
    using IH f(2,6) by (auto simp: list_all_iff)
  show ?case
    using IH f srt tasks task by (auto simp: wf_history_def)
qed

lemma Reduce_prefix_Inr: "Reduce (xs @ ys) = Inr s \<Longrightarrow> \<exists>s'. Reduce xs = Inr s'"
  by (auto simp: Reduce_def reduce_from_append split: sum.splits)

section \<open>Currency of verification evidence\<close>















section \<open>The ledger as a machine\<close>

datatype ledger_op = OpAppend sink_outcome event | OpRecord sink_outcome event

fun ledger_step :: "ledger_op \<Rightarrow> ledger \<Rightarrow> ledger" where
  "ledger_step (OpAppend out e) l = snd (Append out e l)"
| "ledger_step (OpRecord out e) l = snd (Record out e l)"

text \<open>
  The invariant: the history reduces, to a state of the ledger's own task, and what the sink
  holds contains the committed events in their order.
\<close>

definition ledger_inv :: "ledger \<Rightarrow> bool" where
  "ledger_inv l =
     ((case Reduce (l_events l) of Inl err \<Rightarrow> False
       | Inr s \<Rightarrow> st_task s = '''' \<or> st_task s = l_task l) \<and>
      (case l_sink l of None \<Rightarrow> True | Some d \<Rightarrow> subseq (l_events l) d))"

lemma Reduce_not_sink: "Reduce es \<noteq> Inl ErrSink"
proof (induction es rule: rev_induct)
  case (snoc e es)
  have "validateEvent e \<noteq> Some ErrSink"
    by (auto simp: validateEvent_def split: event_type.splits)
  then have "reduce_step s e \<noteq> Inl ErrSink" for s
    by (auto simp: reduce_step_def reduce_event_def split: option.splits event_type.splits)
  with snoc show ?case by (auto simp: Reduce_snoc split: sum.splits)
qed simp

lemma appendLocked_cases:
  assumes "appendLocked out e l = (r, l')"
  shows "(r \<noteq> None \<and> l_events l' = l_events l \<and> l_task l' = l_task l \<and> l_next l' = l_next l \<and> l_rev l' = l_rev l \<and>
            l_sink l' = map_option (\<lambda>d. if r = Some ErrSink then sink_append out e d else d) (l_sink l)) \<or>
         (r = None \<and> l_events l' = l_events l @ [e] \<and>
            (\<exists>s. Reduce (l_events l @ [e]) = Inr s \<and> (l_task l = '''' \<or> st_task s = l_task l) \<and>
              l_task l' = (if l_task l = '''' then st_task s else l_task l)) \<and>
            l_sink l' = map_option (\<lambda>d. d @ [e]) (l_sink l))"
proof (cases "Reduce (l_events l @ [e])")
  case (Inl err)
  then have "err \<noteq> ErrSink" using Reduce_not_sink by metis
  with Inl assms show ?thesis by (auto simp: appendLocked_def option.map_ident)
next
  case (Inr s)
  show ?thesis
  proof (cases "l_task l \<noteq> '''' \<and> st_task s \<noteq> l_task l")
    case True
    with Inr assms show ?thesis by (auto simp: appendLocked_def option.map_ident)
  next
    case False
    with Inr assms show ?thesis
      by (cases "l_sink l"; cases out)
        (auto simp: appendLocked_def commit_event_def sink_append_def Let_def)
  qed
qed

lemma appendLocked_inv:
  assumes "ledger_inv l"
  shows "ledger_inv (snd (appendLocked out e l))"
proof -
  obtain r l' where a: "appendLocked out e l = (r, l')" by (cases "appendLocked out e l")
  from appendLocked_cases [OF a] assms show ?thesis
    unfolding a ledger_inv_def
    by (auto simp: sink_append_def split: sum.splits option.splits if_splits intro: subseq_append')
qed

lemma ledger_inv_counters [simp]: "ledger_inv (l\<lparr>l_next := n, l_rev := m\<rparr>) = ledger_inv l"
  by (simp add: ledger_inv_def split: sum.splits option.splits)

lemma snd_Record:
  "\<exists>n m. snd (Record out e l) = (snd (appendLocked out (stamp_event l e) l))\<lparr>l_next := n, l_rev := m\<rparr>"
proof -
  obtain r l' where "appendLocked out (stamp_event l e) l = (r, l')"
    by (cases "appendLocked out (stamp_event l e) l")
  moreover have "\<exists>n m. l' = l'\<lparr>l_next := n, l_rev := m\<rparr>"
    by (rule exI [of _ "l_next l'"], rule exI [of _ "l_rev l'"]) simp
  ultimately show ?thesis by (cases r) (simp_all add: Record_def Let_def, blast)
qed

lemma ledger_step_inv: "ledger_inv l \<Longrightarrow> ledger_inv (ledger_step x l)"
proof (cases x)
  case (OpAppend out e)
  assume "ledger_inv l"
  with OpAppend show ?thesis by (simp add: Append_def appendLocked_inv)
next
  case (OpRecord out e)
  assume "ledger_inv l"
  moreover obtain n m where "snd (Record out e l) =
      (snd (appendLocked out (stamp_event l e) l))\<lparr>l_next := n, l_rev := m\<rparr>"
    using snd_Record by blast
  ultimately show ?thesis using OpRecord by (simp add: appendLocked_inv)
qed

lemma appendLocked_prefix: "prefix (l_events l) (l_events (snd (appendLocked out e l)))"
proof -
  obtain r l' where a: "appendLocked out e l = (r, l')" by (cases "appendLocked out e l")
  from appendLocked_cases [OF a] show ?thesis unfolding a by auto
qed

lemma ledger_step_prefix: "prefix (l_events l) (l_events (ledger_step x l))"
proof (cases x)
  case (OpAppend out e)
  then show ?thesis by (simp add: Append_def appendLocked_prefix)
next
  case (OpRecord out e)
  then obtain n m where "ledger_step x l = (snd (appendLocked out (stamp_event l e) l))\<lparr>l_next := n, l_rev := m\<rparr>"
    using snd_Record by fastforce
  then show ?thesis by (simp add: appendLocked_prefix)
qed

interpretation ledger: monotone_machine ledger_step ledger_inv
  "\<lambda>l l'. prefix (l_events l) (l_events l')"
  by unfold_locales (auto simp: ledger_step_inv ledger_step_prefix intro: prefix_order.trans)

lemma ledger_inv_New: "ledger_inv (NewLedger task)"
  by (simp add: ledger_inv_def NewLedger_def empty_state_def)

lemma ledger_inv_attach: "ledger_inv l \<Longrightarrow> ledger_inv (AttachSink (l_events l) l)"
  by (simp add: ledger_inv_def AttachSink_def split: sum.splits)

text \<open>
  C25. Whatever is appended or recorded, with whatever sink failures, the ledger's history reduces:
  \<^verbatim>\<open>State\<close> never fails, and its events are the whole history, all of one task, with distinct
  identifiers and strictly increasing sequence numbers.
\<close>

theorem ledger_state_total:
  "\<exists>s. State (fold ledger_step ops (NewLedger task)) = Inr s \<and>
       st_events s = l_events (fold ledger_step ops (NewLedger task)) \<and> wf_history (st_events s)"
proof -
  have "ledger_inv (fold ledger_step ops (NewLedger task))"
    by (rule ledger.run_inv) (rule ledger_inv_New)
  then show ?thesis
    by (auto simp: ledger_inv_def State_def dest: Reduce_wf split: sum.splits)
qed

text \<open>
  C26. Append-only and durable first: once a sink is attached to a replayed ledger, later calls only
  extend the committed history, and every committed event is in the durable history, in order,
  even when the sink refuses events or fails after writing them.
\<close>

theorem ledger_durable_first:
  fixes task ops1 ops2
  defines "l \<equiv> fold ledger_step ops1 (NewLedger task)"
  defines "l' \<equiv> fold ledger_step ops2 (AttachSink (l_events l) l)"
  shows "prefix (l_events l) (l_events l') \<and> (\<exists>d. l_sink l' = Some d \<and> subseq (l_events l') d)"
proof -
  have inv: "ledger_inv (AttachSink (l_events l) l)"
    unfolding l_def by (intro ledger_inv_attach ledger.run_inv ledger_inv_New)
  have "prefix (l_events (AttachSink (l_events l) l)) (l_events l')"
    unfolding l'_def using inv by (rule ledger.run_le)
  moreover have "l_sink (fold ledger_step ops l0) \<noteq> None" if "l_sink l0 \<noteq> None" for ops l0
    using that
  proof (induction ops arbitrary: l0)
    case (Cons x xs)
    have "l_sink (ledger_step x l0) \<noteq> None"
    proof (cases x)
      case (OpAppend out e)
      obtain r l1 where a: "appendLocked out e l0 = (r, l1)" by (cases "appendLocked out e l0")
      with appendLocked_cases [OF a] OpAppend Cons.prems show ?thesis by (auto simp: Append_def)
    next
      case (OpRecord out e)
      obtain r l1 where a: "appendLocked out (stamp_event l0 e) l0 = (r, l1)"
        by (cases "appendLocked out (stamp_event l0 e) l0")
      with appendLocked_cases [OF a] OpRecord Cons.prems show ?thesis
        by (auto simp: Record_def Let_def split: option.splits)
    qed
    with Cons.IH show ?case by simp
  qed simp
  then have "l_sink l' \<noteq> None" unfolding l'_def by (simp add: AttachSink_def)
  moreover have "ledger_inv l'" unfolding l'_def using inv by (rule ledger.run_inv)
  ultimately show ?thesis by (auto simp: ledger_inv_def AttachSink_def split: option.splits)
qed

text \<open>
  C39. A sink error after the write poisons the durable history. When the sink persists an event but
  reports an error (a failed \<^verbatim>\<open>Sync\<close>), the ledger drops the event and gives its identity to the
  next one; from then on the durable history has two events of one identity and never reduces,
  so \<^verbatim>\<open>FileLedgerStore.Load\<close> reports a corrupt ledger.
\<close>

theorem sink_error_after_write_corrupts:
  assumes "l_sink l = Some d"
    and "Record SinkErrorAfterWrite e0 l = (Inl ErrSink, l1)"
    and "Record SinkOk e1 l1 = (Inr e, l2)"
  shows "\<exists>d'. l_sink l2 = Some d' \<and> (\<forall>s. Reduce d' \<noteq> Inr s)"
proof -
  have a0: "appendLocked SinkErrorAfterWrite (stamp_event l e0) l = (Some ErrSink, l1)"
    using assms(2) by (auto simp: Record_def Let_def split: prod.splits option.splits)
  from appendLocked_cases [OF a0] assms(1)
  have l1: "l_sink l1 = Some (d @ [stamp_event l e0])" "l_next l1 = l_next l" "l_task l1 = l_task l"
    by (auto simp: sink_append_def)
  obtain l2' where a1: "appendLocked SinkOk (stamp_event l1 e1) l1 = (None, l2')" and s: "l_sink l2 = l_sink l2'"
    using assms(3) by (auto simp: Record_def Let_def split: prod.splits option.splits)
  from appendLocked_cases [OF a1] l1
  have d': "l_sink l2 = Some ((d @ [stamp_event l e0]) @ [stamp_event l1 e1])" by (auto simp: s)
  have "ev_id (stamp_event l e0) = ev_id (stamp_event l1 e1)"
    using l1 by (simp add: stamp_event_def Let_def)
  then have "\<not> wf_history ((d @ [stamp_event l e0]) @ [stamp_event l1 e1])"
    by (simp add: wf_history_def)
  with d' show ?thesis by (meson Reduce_wf)
qed

definition ex_note :: event where
  "ex_note = zero_event\<lparr>ev_type := EventRequirement\<rparr>"

theorem sink_error_after_write_corrupts_witness:
  "\<exists>(l2::ledger) d. l_sink l2 = Some d \<and> length d = 2 \<and> (\<forall>s. Reduce d \<noteq> Inr s)"
proof -
  let ?l = "AttachSink [] (NewLedger ''t'')"
  let ?l1 = "snd (Record SinkErrorAfterWrite ex_note ?l)"
  let ?r2 = "Record SinkOk ex_note ?l1"
  have r1: "fst (Record SinkErrorAfterWrite ex_note ?l) = Inl ErrSink" by code_simp
  have r2: "\<not> isl (fst ?r2)" by code_simp
  have len: "map_option length (l_sink (snd ?r2)) = Some 2" by code_simp
  from r2 obtain e where e: "?r2 = (Inr e, snd ?r2)" using not_isl_Inr by (metis prod.collapse)
  have "l_sink ?l = Some []" by (simp add: AttachSink_def)
  from sink_error_after_write_corrupts [OF this, of ex_note ?l1, OF _ e] r1 len
  obtain d where "l_sink (snd ?r2) = Some d \<and> length d = 2 \<and> (\<forall>s. Reduce d \<noteq> Inr s)"
    by (auto simp: prod_eq_iff)
  then show ?thesis by blast
qed

end
