(* ===== verification/Completion_Policy.thy ===== *)
theory Completion_Policy
  imports Ledger
begin

text \<open>
  The completion policy (\<^verbatim>\<open>internal/verification/policy.go\<close>): which checks a change of the
  repository requires, what the ledger's events say of each of them, and whether a proposed success
  is allowed. Go's map from paths to test commands is an association list; its iteration order does
  not matter, since the commands are sorted before they are used. \<^verbatim>\<open>strings.ToLower\<close> is modelled
  on ASCII letters.
\<close>

section \<open>Data\<close>

datatype policy_mode = ModeReport | ModeEnforce | ModeOther string

datatype policy_kind = KindBuild | KindDiagnostics | KindTest | KindDiff | KindQuiescence | KindOther string

fun kind_name :: "policy_kind \<Rightarrow> string" where
  "kind_name KindBuild = ''build''"
| "kind_name KindDiagnostics = ''diagnostics''"
| "kind_name KindTest = ''test''"
| "kind_name KindDiff = ''diff''"
| "kind_name KindQuiescence = ''quiescence''"
| "kind_name (KindOther s) = s"

datatype check_status = CheckPending | CheckSatisfied | CheckFailed | CheckCancelled | CheckStale

record policy_input =
  pi_changed :: "string list"
  pi_impact :: "string list"
  pi_build :: string
  pi_diagnostics :: string
  pi_tests :: "string list"
  pi_test_map :: "(string \<times> string list) list"
  pi_diff :: string

record obligation =
  ob_id :: string
  ob_kind :: policy_kind
  ob_command :: string
  ob_class :: command_class
  ob_family :: string
  ob_root :: string
  ob_paths :: "string list"
  ob_status :: check_status

record policy_decision =
  pd_allowed :: bool
  pd_disagreement :: bool
  pd_obligations :: "obligation list"

section \<open>Paths\<close>

definition path_overlap :: "string \<Rightarrow> string \<Rightarrow> bool" where
  "path_overlap l r = (l = ''.'' \<or> r = ''.'' \<or> l = r \<or> has_prefix l (trim_suffix r ''/'' @ ''/'') \<or>
     has_prefix r (trim_suffix l ''/'' @ ''/''))"

definition overlap :: "string list \<Rightarrow> string list \<Rightarrow> bool" where
  "overlap left right = list_ex (\<lambda>l. list_ex (path_overlap l) right) left"

text \<open>A check covers a path when one of its paths contains it.\<close>

definition covers :: "string list \<Rightarrow> string \<Rightarrow> bool" where
  "covers paths target = list_ex (\<lambda>p. p = ''.'' \<or> p = target \<or> has_prefix target (trim_suffix p ''/'' @ ''/'')) paths"

definition unique :: "string list \<Rightarrow> string list" where
  "unique values = sort (remdups (filter (\<lambda>v. v \<noteq> '''') values))"

definition lower_char :: "char \<Rightarrow> char" where
  "lower_char c = (if 65 \<le> (of_char c :: nat) \<and> (of_char c :: nat) \<le> 90 then char_of (of_char c + 32 :: nat) else c)"

definition code_extensions :: "string list" where
  "code_extensions = [''.c'', ''.cc'', ''.cpp'', ''.cs'', ''.go'', ''.java'', ''.js'', ''.jsx'', ''.kt'', ''.kts'',
     ''.php'', ''.py'', ''.rb'', ''.rs'', ''.swift'', ''.ts'', ''.tsx'', ''.css'', ''.scss'', ''.sass'', ''.less'',
     ''.html'', ''.htm'', ''.vue'', ''.svelte'', ''.proto'', ''.graphql'', ''.gql'']"

definition containsCode :: "string list \<Rightarrow> bool" where
  "containsCode paths = list_ex (\<lambda>p. List.member code_extensions (map lower_char (ext_path p))) paths"

section \<open>Deriving the obligations\<close>

definition new_obligation :: "string list \<Rightarrow> policy_kind \<Rightarrow> string \<Rightarrow> command_class \<Rightarrow> obligation" where
  "new_obligation paths k command cls = \<lparr>ob_id = (if command \<noteq> '''' then kind_name k @ '':'' @ command else kind_name k),
     ob_kind = k, ob_command = command, ob_class = cls, ob_family = '''', ob_root = '''', ob_paths = paths,
     ob_status = CheckPending\<rparr>"

definition test_commands :: "policy_input \<Rightarrow> string list \<Rightarrow> string list" where
  "test_commands inp paths = pi_tests inp @
     concat (map snd (filter (\<lambda>(path, commands). overlap paths [path]) (pi_test_map inp)))"

definition Derive :: "policy_input \<Rightarrow> obligation list" where
  "Derive inp =
     (if pi_changed inp = [] then []
      else let paths = unique (pi_changed inp @ pi_impact inp);
             tests = test_commands inp paths
        in (if pi_build inp \<noteq> '''' then [new_obligation paths KindBuild (pi_build inp) CommandBuild] else []) @
           (if pi_diagnostics inp \<noteq> '''' then [new_obligation paths KindDiagnostics (pi_diagnostics inp) CommandDiagnostics] else []) @
           map (\<lambda>c. new_obligation paths KindTest c CommandTest) (unique tests) @
           (if tests = [] \<and> containsCode paths then [new_obligation paths KindTest '''' CommandTest] else []) @
           (if pi_diff inp \<noteq> '''' then [new_obligation paths KindDiff (pi_diff inp) CommandDiff] else []))"

section \<open>Reducing the evidence\<close>

definition matches :: "obligation \<Rightarrow> event \<Rightarrow> bool" where
  "matches ob e =
     (if ob_family ob \<noteq> '''' then ev_family e = ob_family ob \<and> ev_root e = ob_root ob \<and> ev_class e = ob_class ob
      else if ob_kind ob = KindQuiescence then False
      else if ob_command ob \<noteq> '''' then
        (if ob_kind ob = KindTest \<and> List.member [''go test'', ''pytest'', ''cargo test'', ''npm test''] (ob_command ob) \<and>
            (let command = trim_prefix (trim_prefix (ev_command e) ''python3 -m '') ''python -m ''
             in command = ob_command ob \<or> has_prefix command (ob_command ob @ '' ''))
         then True
         else ev_command e = ob_command ob \<or> ev_detail e = ob_id ob \<or> ev_detail e = ob_command ob)
      else ev_class e = ob_class ob)"

definition matchesDetail :: "obligation \<Rightarrow> string \<Rightarrow> bool" where
  "matchesDetail ob detail = (detail = ob_id ob \<or> ob_command ob \<noteq> '''' \<and> detail = ob_command ob)"

text \<open>
  One path of an obligation: its status and the check that last covered it. The inner loop of the
  code updates the cell of each path from the event alone.
\<close>

type_synonym cell = "check_status \<times> event"

definition cell_step :: "obligation \<Rightarrow> string \<Rightarrow> event \<Rightarrow> cell \<Rightarrow> cell" where
  "cell_step ob path e c = (case ev_type e of
       EventWrite \<Rightarrow>
         if fst c = CheckSatisfied \<and> (overlap [path] (ev_paths e) \<or> VerificationInputsOverlap (snd c) e)
         then (CheckStale, snd c) else c
     | EventVerification \<Rightarrow>
         if covers (ev_paths e) path \<and> matches ob e
         then (if ev_passed e then CheckSatisfied
               else if ev_terminal e = TerminalCancelled then CheckCancelled else CheckFailed, e)
         else c
     | EventUncertainty \<Rightarrow>
         if overlap [path] (ev_paths e) \<and> matchesDetail ob (trim_prefix (ev_detail e) ''cancelled:'') \<and>
            has_prefix (ev_detail e) ''cancelled:''
         then (CheckCancelled, snd c) else c
     | _ \<Rightarrow> c)"

definition cells_step :: "obligation \<Rightarrow> event \<Rightarrow> (string \<times> cell) list \<Rightarrow> (string \<times> cell) list" where
  "cells_step ob e cells = map (\<lambda>(path, c). (path, cell_step ob path e c)) cells"

definition worst_status :: "check_status list \<Rightarrow> check_status" where
  "worst_status ss =
     (if ss = [] then CheckPending
      else case find (\<lambda>s. List.member ss s) [CheckFailed, CheckCancelled, CheckStale, CheckPending] of
             None \<Rightarrow> CheckSatisfied | Some s \<Rightarrow> s)"

definition reduce_obligation :: "event list \<Rightarrow> obligation \<Rightarrow> obligation" where
  "reduce_obligation events ob = ob\<lparr>ob_status := worst_status (map (\<lambda>x. fst (snd x))
     (fold (cells_step ob) events (map (\<lambda>p. (p, CheckPending, zero_event)) (ob_paths ob))))\<rparr>"

definition policy_Reduce :: "obligation list \<Rightarrow> event list \<Rightarrow> obligation list" where
  "policy_Reduce obs events = map (reduce_obligation events) obs"

definition Assess :: "policy_mode \<Rightarrow> bool \<Rightarrow> obligation list \<Rightarrow> event list \<Rightarrow> policy_decision" where
  "Assess mode proposed obs events =
     (let current = policy_Reduce obs events;
          supported = list_all (\<lambda>ob. ob_status ob = CheckSatisfied) current;
          disagreement = proposed \<and> \<not> supported
      in \<lparr>pd_allowed = (\<not> disagreement \<or> mode = ModeReport), pd_disagreement = disagreement,
          pd_obligations = current\<rparr>)"

section \<open>What a satisfied check means\<close>

definition check_of :: "obligation \<Rightarrow> string \<Rightarrow> event \<Rightarrow> bool" where
  "check_of ob path e = (ev_type e = EventVerification \<and> covers (ev_paths e) path \<and> matches ob e)"

definition undoes :: "obligation \<Rightarrow> string \<Rightarrow> event \<Rightarrow> event \<Rightarrow> bool" where
  "undoes ob path check w =
     (ev_type w = EventWrite \<and> (overlap [path] (ev_paths w) \<or> VerificationInputsOverlap check w) \<or>
      ev_type w = EventUncertainty \<and> overlap [path] (ev_paths w) \<and> has_prefix (ev_detail w) ''cancelled:'' \<and>
        matchesDetail ob (trim_prefix (ev_detail w) ''cancelled:''))"

text \<open>The specification: the last check of the path passed and nothing after it undoes it.\<close>

definition supported_path :: "obligation \<Rightarrow> string \<Rightarrow> event list \<Rightarrow> bool" where
  "supported_path ob path events = (\<exists>before check later. events = before @ check # later \<and> check_of ob path check \<and>
     ev_passed check \<and> (\<forall>w \<in> set later. \<not> check_of ob path w \<and> \<not> undoes ob path check w))"

definition path_cell :: "obligation \<Rightarrow> string \<Rightarrow> event list \<Rightarrow> cell" where
  "path_cell ob path events = fold (cell_step ob path) events (CheckPending, zero_event)"

lemma path_cell_snoc: "path_cell ob path (events @ [e]) = cell_step ob path e (path_cell ob path events)"
  by (simp add: path_cell_def)

lemma cells_fold:
  "fold (cells_step ob) events (map (\<lambda>p. (p, g p)) paths) = map (\<lambda>p. (p, fold (cell_step ob p) events (g p))) paths"
  by (induction events arbitrary: g) (simp_all add: cells_step_def comp_def)

text \<open>A satisfied cell holds the check that satisfied it.\<close>

lemma cell_step_satisfied:
  "fst (cell_step ob path e c) = CheckSatisfied \<longleftrightarrow>
     check_of ob path e \<and> ev_passed e \<or> fst c = CheckSatisfied \<and> \<not> check_of ob path e \<and> \<not> undoes ob path (snd c) e"
  by (cases "ev_type e") (auto simp: cell_step_def check_of_def undoes_def)

lemma cell_step_evidence:
  "snd (cell_step ob path e c) = (if check_of ob path e then e else snd c)"
  by (cases "ev_type e") (auto simp: cell_step_def check_of_def)

definition last_check :: "obligation \<Rightarrow> string \<Rightarrow> event list \<Rightarrow> event" where
  "last_check ob path events = snd (path_cell ob path events)"

lemma last_check_after:
  "check_of ob path c \<Longrightarrow> \<forall>w \<in> set later. \<not> check_of ob path w \<Longrightarrow> last_check ob path (before @ c # later) = c"
proof (induction later rule: rev_induct)
  case Nil
  then show ?case by (simp add: last_check_def path_cell_snoc cell_step_evidence)
next
  case (snoc w later)
  then show ?case
    by (simp add: last_check_def path_cell_snoc cell_step_evidence flip: append_Cons append_assoc)
qed

lemma supported_snoc:
  "supported_path ob path (events @ [e]) \<longleftrightarrow>
     check_of ob path e \<and> ev_passed e \<or>
     supported_path ob path events \<and> \<not> check_of ob path e \<and> \<not> undoes ob path (last_check ob path events) e"
proof
  assume "supported_path ob path (events @ [e])"
  then obtain before c later where split: "events @ [e] = before @ c # later" and c: "check_of ob path c" "ev_passed c"
    and later: "\<forall>w \<in> set later. \<not> check_of ob path w \<and> \<not> undoes ob path c w"
    unfolding supported_path_def by blast
  show "check_of ob path e \<and> ev_passed e \<or>
     supported_path ob path events \<and> \<not> check_of ob path e \<and> \<not> undoes ob path (last_check ob path events) e"
  proof (cases later rule: rev_cases)
    case Nil
    with split c show ?thesis by simp
  next
    case (snoc l w)
    with split have events: "events = before @ c # l" and "e = w" by simp_all
    moreover from this later snoc c(1) have "last_check ob path events = c" by (simp add: last_check_after)
    ultimately show ?thesis using c later snoc unfolding supported_path_def by auto
  qed
next
  assume "check_of ob path e \<and> ev_passed e \<or>
     supported_path ob path events \<and> \<not> check_of ob path e \<and> \<not> undoes ob path (last_check ob path events) e"
  then show "supported_path ob path (events @ [e])"
  proof (elim disjE conjE)
    assume "check_of ob path e" "ev_passed e"
    then show ?thesis unfolding supported_path_def by (intro exI [of _ events] exI [of _ e] exI [of _ "[]"]) simp
  next
    assume "supported_path ob path events" and e: "\<not> check_of ob path e" "\<not> undoes ob path (last_check ob path events) e"
    then obtain before c later where events: "events = before @ c # later" and c: "check_of ob path c" "ev_passed c"
      and later: "\<forall>w \<in> set later. \<not> check_of ob path w \<and> \<not> undoes ob path c w"
      unfolding supported_path_def by blast
    moreover from this have "last_check ob path events = c" by (simp add: last_check_after)
    ultimately show ?thesis using e unfolding supported_path_def
      by (intro exI [of _ before] exI [of _ c] exI [of _ "later @ [e]"]) auto
  qed
qed

lemma satisfied_iff: "fst (path_cell ob path events) = CheckSatisfied \<longleftrightarrow> supported_path ob path events"
proof (induction events rule: rev_induct)
  case Nil
  then show ?case by (simp add: path_cell_def supported_path_def)
next
  case (snoc e events)
  then show ?case by (simp add: path_cell_snoc cell_step_satisfied supported_snoc last_check_def)
qed

lemma worst_satisfied: "worst_status ss = CheckSatisfied \<longleftrightarrow> ss \<noteq> [] \<and> (\<forall>s \<in> set ss. s = CheckSatisfied)"
proof -
  have "s = CheckSatisfied \<longleftrightarrow> s \<notin> {CheckFailed, CheckCancelled, CheckStale, CheckPending}" for s by (cases s) auto
  then have all: "(\<forall>s \<in> set ss. s = CheckSatisfied) \<longleftrightarrow>
      CheckFailed \<notin> set ss \<and> CheckCancelled \<notin> set ss \<and> CheckStale \<notin> set ss \<and> CheckPending \<notin> set ss" by blast
  show ?thesis unfolding all by (auto simp: worst_status_def)
qed

lemma reduce_satisfied:
  "ob_status (reduce_obligation events ob) = CheckSatisfied \<longleftrightarrow>
     ob_paths ob \<noteq> [] \<and> (\<forall>p \<in> set (ob_paths ob). supported_path ob p events)"
proof -
  have "map (\<lambda>x. fst (snd x)) (fold (cells_step ob) events (map (\<lambda>p. (p, CheckPending, zero_event)) (ob_paths ob))) =
      map (\<lambda>p. fst (path_cell ob p events)) (ob_paths ob)"
    using cells_fold [of ob events "\<lambda>_. (CheckPending, zero_event)"] by (simp add: path_cell_def comp_def)
  then show ?thesis
    by (simp add: reduce_obligation_def worst_satisfied satisfied_iff)
qed

text \<open>
  C6. In enforcing mode a success is allowed exactly when every path of every obligation is
  supported: the last matching check that covers the path passed, and no later write touches the
  path or an input of that check and no later cancellation withdraws it. In reporting mode success is
  always allowed, and a disagreement is reported exactly when it would have been blocked.
\<close>

theorem assess_sound:
  "(pd_allowed (Assess ModeEnforce True obs events) \<longleftrightarrow>
     (\<forall>ob \<in> set obs. ob_paths ob \<noteq> [] \<and> (\<forall>p \<in> set (ob_paths ob). supported_path ob p events))) \<and>
   pd_allowed (Assess ModeReport b obs events) \<and>
   (pd_disagreement (Assess mode True obs events) \<longleftrightarrow> \<not> pd_allowed (Assess ModeEnforce True obs events)) \<and>
   pd_allowed (Assess mode False obs events)"
  by (simp add: Assess_def Let_def policy_Reduce_def list_all_iff reduce_satisfied)

section \<open>A code change is tested\<close>





section \<open>Instances\<close>

definition sample_input :: policy_input where
  "sample_input = \<lparr>pi_changed = [''a.go''], pi_impact = [], pi_build = '''', pi_diagnostics = '''',
     pi_tests = [''go test''], pi_test_map = [], pi_diff = ''''\<rparr>"

definition sample_check :: event where
  "sample_check = zero_event\<lparr>ev_type := EventVerification, ev_paths := [''.''], ev_passed := True,
     ev_command := ''go test ./...''\<rparr>"

theorem assess_sound_witness:
  "pd_allowed (Assess ModeEnforce True (Derive sample_input) [sample_check]) \<and>
   \<not> pd_allowed (Assess ModeEnforce True (Derive sample_input) [])"
proof -
  have "pd_allowed (Assess ModeEnforce True (Derive sample_input) [sample_check])"
    and "\<exists>ob \<in> set (Derive sample_input). \<not> supported_path ob ''a.go'' [] \<and> ''a.go'' \<in> set (ob_paths ob)"
    by (code_simp, simp add: Derive_def sample_input_def Let_def unique_def test_commands_def overlap_def
      new_obligation_def supported_path_def)
  with assess_sound [of "Derive sample_input" "[]"] show ?thesis by blast
qed


lemma empty_command_untested:
  "containsCode [''a.go''] \<and>
   pd_allowed (Assess ModeEnforce True (Derive (sample_input\<lparr>pi_tests := ['''']\<rparr>)) [])"
  by code_simp

end
