(* ===== verification/Anchored_Claims.thy ===== *)
theory Anchored_Claims
  imports Go_Paths
begin

text \<open>
  Self-invalidating claims (\<^verbatim>\<open>internal/claims/anchor.go\<close> and \<^verbatim>\<open>store.go\<close>): beliefs about the code,
  anchored to hashed spans of files and derived from other claims. \<open>hash\<close> is the hex SHA-256, and
  \<open>files\<close> gives the content of the readable files by absolute path. A nil dereference is the result
  \<open>None\<close>. \<^verbatim>\<open>strings.TrimSpace\<close> is modelled on ASCII white space. The lock makes each method one
  step and is not modelled.
\<close>

section \<open>Standard library\<close>

fun split_on :: "char \<Rightarrow> string \<Rightarrow> string list" where
  "split_on sep [] = [[]]"
| "split_on sep (c # cs) =
     (if c = sep then [] # split_on sep cs
      else (case split_on sep cs of [] \<Rightarrow> [[c]] | x # xs \<Rightarrow> (c # x) # xs))"

definition is_space :: "char \<Rightarrow> bool" where
  "is_space c = ((of_char c :: nat) \<in> {9, 10, 11, 12, 13, 32})"

definition trim_space :: "string \<Rightarrow> string" where
  "trim_space s = rev (dropWhile is_space (rev (dropWhile is_space s)))"

definition is_digit :: "char \<Rightarrow> bool" where
  "is_digit c = (48 \<le> (of_char c :: nat) \<and> (of_char c :: nat) < 58)"

text \<open>\<^verbatim>\<open>strconv.Atoi\<close>: an optional sign and digits, within 64 bits.\<close>

definition digits_value :: "string \<Rightarrow> int option" where
  "digits_value s = (if s = [] \<or> \<not> list_all is_digit s then None else Some (int (dec_value s)))"

definition atoi :: "string \<Rightarrow> int option" where
  "atoi s = (case (case s of
         CHR ''-'' # t \<Rightarrow> map_option uminus (digits_value t)
       | CHR ''+'' # t \<Rightarrow> digits_value t
       | _ \<Rightarrow> digits_value s) of
     None \<Rightarrow> None
   | Some n \<Rightarrow> if - 9223372036854775808 \<le> n \<and> n \<le> 9223372036854775807 then Some n else None)"

text \<open>\<^verbatim>\<open>filepath.Rel\<close> of two absolute paths, by components.\<close>

definition path_comps :: "string \<Rightarrow> string list" where
  "path_comps s = clean_components True [] (split_slash s)"

fun rel_comps :: "string list \<Rightarrow> string list \<Rightarrow> string list" where
  "rel_comps (b # bs) (t # ts) = (if b = t then rel_comps bs ts else map (\<lambda>_. ''..'') (b # bs) @ t # ts)"
| "rel_comps bs ts = map (\<lambda>_. ''..'') bs @ ts"

definition rel_path :: "string \<Rightarrow> string \<Rightarrow> string" where
  "rel_path base targ = (let xs = rel_comps (path_comps base) (path_comps targ)
     in if xs = [] then ''.'' else join_slash xs)"

section \<open>Anchors\<close>

datatype claims_error =
  TextRequired | AnchorRequired | PathRequired | PathOutside | FileUnreadable | LineRange | UnknownParent
| RestoreDuplicate | RestoreMalformedId | RestoreIncomplete | RestoreUnknownStatus | RestoreNoHash | RestoreUnknownParent

record anchor =
  an_path :: string
  an_start :: int
  an_end :: int
  an_symbol :: string
  an_hash :: string

definition anchor_text :: "anchor \<Rightarrow> string" where
  "anchor_text a = an_path a @
     (if 0 < an_start a then '':'' @ int_text (an_start a) @ ''-'' @ int_text (an_end a) else '''') @
     (if an_symbol a \<noteq> '''' then '' '' @ an_symbol a else '''')"

definition wholeFile :: "anchor \<Rightarrow> bool" where
  "wholeFile a = (an_start a = 0)"

definition normalizePath :: "string \<Rightarrow> string \<Rightarrow> claims_error + string" where
  "normalizePath root path =
     (if trim_space path = '''' then Inl PathRequired
      else let abs = (if is_abs path then path else join_path root path);
             rel = rel_path root (clean_path abs)
        in if rel = ''.'' \<or> rel = ''..'' \<or> has_prefix rel ''../'' then Inl PathOutside else Inr rel)"

type_synonym workspace = "string \<Rightarrow> string option"

definition fileLines :: "workspace \<Rightarrow> string \<Rightarrow> string \<Rightarrow> string list option" where
  "fileLines files root rel = map_option (split_on (CHR 0x0A)) (files (join_path root rel))"

text \<open>The lines from \<open>start\<close> to \<open>till\<close> (counted from one), each with its line feed, hashed.\<close>

definition hashSpan :: "(string \<Rightarrow> string) \<Rightarrow> string list \<Rightarrow> int \<Rightarrow> int \<Rightarrow> string" where
  "hashSpan hash lines start till =
     hash (concat (map (\<lambda>l. l @ [CHR 0x0A]) (take (nat (till - start + 1)) (drop (nat (start - 1)) lines))))"

definition line_count :: "string list \<Rightarrow> int" where
  "line_count lines = int (length lines)"

definition hashAnchor :: "(string \<Rightarrow> string) \<Rightarrow> string list \<Rightarrow> anchor \<Rightarrow> claims_error + string" where
  "hashAnchor hash lines a =
     (if wholeFile a then Inr (hashSpan hash lines 1 (line_count lines))
      else if an_start a < 1 \<or> an_end a < an_start a \<or> line_count lines < an_end a then Inl LineRange
      else Inr (hashSpan hash lines (an_start a) (an_end a)))"

text \<open>The search for the nearest identical window; a negative distance means none was found yet.\<close>

definition consider_window :: "(string \<Rightarrow> string) \<Rightarrow> string list \<Rightarrow> anchor \<Rightarrow> int \<Rightarrow> int \<times> int \<Rightarrow> int \<times> int" where
  "consider_window hash lines a start best =
     (let width = an_end a - an_start a + 1
      in if hashSpan hash lines start (start + width - 1) \<noteq> an_hash a then best
         else let distance = \<bar>start - an_start a\<bar>
           in if snd best < 0 \<or> distance < snd best then (start, distance) else best)"

definition locate :: "(string \<Rightarrow> string) \<Rightarrow> string list option \<Rightarrow> anchor \<Rightarrow> anchor \<times> bool" where
  "locate hash content a = (case content of
       None \<Rightarrow> (a, False)
     | Some lines \<Rightarrow>
         if wholeFile a then (a, hashSpan hash lines 1 (line_count lines) = an_hash a)
         else if an_end a \<le> line_count lines \<and> 1 \<le> an_start a \<and>
            hashSpan hash lines (an_start a) (an_end a) = an_hash a then (a, True)
         else let width = an_end a - an_start a + 1;
                best = fold (consider_window hash lines a) [1..line_count lines - width + 1] (0, - 1)
           in if snd best < 0 then (a, False)
              else (a\<lparr>an_start := fst best, an_end := fst best + width - 1\<rparr>, True))"

section \<open>Claims\<close>

datatype claim_status = StatusLive | StatusStale | StatusDoubted | StatusOther string

fun status_name :: "claim_status \<Rightarrow> string" where
  "status_name StatusLive = ''live''"
| "status_name StatusStale = ''stale''"
| "status_name StatusDoubted = ''doubted''"
| "status_name (StatusOther s) = s"

record claim =
  cl_id :: string
  cl_text :: string
  cl_anchors :: "anchor list"
  cl_derived :: "string list"
  cl_evidence :: string
  cl_status :: claim_status
  cl_reason :: string

record claim_input =
  ci_text :: string
  ci_anchors :: "anchor list"
  ci_derived :: "string list"
  ci_evidence :: string

record claim_change =
  cg_id :: string
  cg_from :: claim_status
  cg_to :: claim_status

record entry =
  en_claim :: claim
  en_own :: string

record claim_store =
  cs_entries :: "string \<rightharpoonup> entry"
  cs_order :: "string list"
  cs_next :: int

definition empty_claims :: claim_store where
  "empty_claims = \<lparr>cs_entries = Map.empty, cs_order = [], cs_next = 0\<rparr>"

section \<open>Operations\<close>

text \<open>The first parent that is not live; a parent that is not in the store is a nil dereference.\<close>

fun first_doubt :: "(string \<rightharpoonup> entry) \<Rightarrow> string list \<Rightarrow> (string \<times> claim_status) option option" where
  "first_doubt entries [] = Some None"
| "first_doubt entries (pid # pids) = (case entries pid of
       None \<Rightarrow> None
     | Some p \<Rightarrow> if cl_status (en_claim p) \<noteq> StatusLive then Some (Some (pid, cl_status (en_claim p)))
                 else first_doubt entries pids)"

definition set_status :: "claim_status \<Rightarrow> string \<Rightarrow> entry \<Rightarrow> entry" where
  "set_status s reason e = e\<lparr>en_claim := (en_claim e)\<lparr>cl_status := s, cl_reason := reason\<rparr>\<rparr>"

definition applyDerived :: "(string \<rightharpoonup> entry) \<Rightarrow> entry \<Rightarrow> entry option" where
  "applyDerived entries e =
     (if en_own e \<noteq> '''' then Some (set_status StatusStale (en_own e) e)
      else (case first_doubt entries (cl_derived (en_claim e)) of
              None \<Rightarrow> None
            | Some None \<Rightarrow> Some (set_status StatusLive '''' e)
            | Some (Some (pid, s)) \<Rightarrow>
                Some (set_status StatusDoubted (''derived from '' @ status_name s @ '' claim '' @ pid) e)))"

definition add_anchor :: "(string \<Rightarrow> string) \<Rightarrow> workspace \<Rightarrow> string \<Rightarrow> anchor \<Rightarrow> claims_error + anchor" where
  "add_anchor hash files root a = (case normalizePath root (an_path a) of
       Inl e \<Rightarrow> Inl e
     | Inr rel \<Rightarrow> (case fileLines files root rel of
           None \<Rightarrow> Inl FileUnreadable
         | Some lines \<Rightarrow> (case hashAnchor hash lines (a\<lparr>an_path := rel\<rparr>) of
               Inl e \<Rightarrow> Inl e
             | Inr h \<Rightarrow> Inr (a\<lparr>an_path := rel, an_hash := h\<rparr>))))"

primrec add_anchors :: "(string \<Rightarrow> string) \<Rightarrow> workspace \<Rightarrow> string \<Rightarrow> anchor list \<Rightarrow> claims_error + anchor list" where
  "add_anchors hash files root [] = Inr []"
| "add_anchors hash files root (a # as) = (case add_anchor hash files root a of
       Inl e \<Rightarrow> Inl e
     | Inr b \<Rightarrow> (case add_anchors hash files root as of Inl e \<Rightarrow> Inl e | Inr bs \<Rightarrow> Inr (b # bs)))"

text \<open>The parents without repetitions, in the order of their first mention.\<close>

fun add_parents :: "(string \<rightharpoonup> entry) \<Rightarrow> string list \<Rightarrow> string list \<Rightarrow> claims_error + string list" where
  "add_parents entries seen [] = Inr []"
| "add_parents entries seen (pid # pids) =
     (if pid \<in> set seen then add_parents entries seen pids
      else if entries pid = None then Inl UnknownParent
      else (case add_parents entries (pid # seen) pids of Inl e \<Rightarrow> Inl e | Inr ps \<Rightarrow> Inr (pid # ps)))"

text \<open>\<^verbatim>\<open>int\<close> is 64 bits wide.\<close>

definition wrap_int :: "int \<Rightarrow> int" where
  "wrap_int n = (n + 9223372036854775808) mod 18446744073709551616 - 9223372036854775808"

definition put_entry :: "entry \<Rightarrow> claim_store \<Rightarrow> claim_store" where
  "put_entry e s = s\<lparr>cs_entries := (cs_entries s)(cl_id (en_claim e) \<mapsto> e)\<rparr>"

definition Add :: "(string \<Rightarrow> string) \<Rightarrow> workspace \<Rightarrow> string \<Rightarrow> claim_input \<Rightarrow> claim_store \<Rightarrow>
    ((claims_error + claim) \<times> claim_store) option" where
  "Add hash files root inp s =
     (if trim_space (ci_text inp) = '''' then Some (Inl TextRequired, s)
      else if ci_anchors inp = [] then Some (Inl AnchorRequired, s)
      else (case add_anchors hash files root (ci_anchors inp) of
              Inl e \<Rightarrow> Some (Inl e, s)
            | Inr anchors \<Rightarrow> (case add_parents (cs_entries s) [] (ci_derived inp) of
                Inl e \<Rightarrow> Some (Inl e, s)
              | Inr parents \<Rightarrow>
                  let n = wrap_int (cs_next s + 1);
                    c = \<lparr>cl_id = CHR ''c'' # int_text n, cl_text = trim_space (ci_text inp), cl_anchors = anchors,
                      cl_derived = parents, cl_evidence = ci_evidence inp, cl_status = StatusLive, cl_reason = ''''\<rparr>;
                    s1 = (put_entry \<lparr>en_claim = c, en_own = ''''\<rparr> s)\<lparr>cs_order := cs_order s @ [cl_id c], cs_next := n\<rparr>
                  in (case applyDerived (cs_entries s1) \<lparr>en_claim = c, en_own = ''''\<rparr> of
                        None \<Rightarrow> None
                      | Some e \<Rightarrow> Some (Inr (en_claim e), put_entry e s1)))))"

definition claim_Get :: "string \<Rightarrow> claim_store \<Rightarrow> claim option" where
  "claim_Get cid s = map_option en_claim (cs_entries s cid)"

definition claim_List :: "claim_store \<Rightarrow> claim list option" where
  "claim_List s = those (map (\<lambda>cid. map_option en_claim (cs_entries s cid)) (cs_order s))"

text \<open>Re-checking the anchors of one claim: those found move, the first that is gone gives the reason.\<close>

definition recheck :: "(string \<Rightarrow> string) \<Rightarrow> workspace \<Rightarrow> string \<Rightarrow> entry \<Rightarrow> entry" where
  "recheck hash files root e =
     (let found = map (\<lambda>a. (a, locate hash (fileLines files root (an_path a)) a)) (cl_anchors (en_claim e));
        reason = (case find (\<lambda>(a, r). \<not> snd r) found of
            None \<Rightarrow> '''' | Some (a, r) \<Rightarrow> ''anchor '' @ anchor_text a @ '' changed'')
      in e\<lparr>en_own := reason, en_claim := (en_claim e)\<lparr>cl_anchors := map (\<lambda>(a, r). if snd r then fst r else a) found\<rparr>\<rparr>)"

definition refresh_one :: "(string \<Rightarrow> string) \<Rightarrow> workspace \<Rightarrow> string \<Rightarrow> (string \<Rightarrow> bool) \<Rightarrow> string \<Rightarrow> claim_store \<Rightarrow>
    (claim_change list \<times> claim_store) option" where
  "refresh_one hash files root wanted cid s = (case cs_entries s cid of
       None \<Rightarrow> None
     | Some e \<Rightarrow>
         let e1 = (if list_ex (\<lambda>a. wanted (an_path a)) (cl_anchors (en_claim e)) then recheck hash files root e else e)
         in (case applyDerived (cs_entries s) e1 of
               None \<Rightarrow> None
             | Some e2 \<Rightarrow>
                 Some (if cl_status (en_claim e2) \<noteq> cl_status (en_claim e)
                     then [\<lparr>cg_id = cid, cg_from = cl_status (en_claim e), cg_to = cl_status (en_claim e2)\<rparr>] else [],
                   s\<lparr>cs_entries := (cs_entries s)(cid \<mapsto> e2)\<rparr>)))"

primrec refresh_all :: "(string \<Rightarrow> string) \<Rightarrow> workspace \<Rightarrow> string \<Rightarrow> (string \<Rightarrow> bool) \<Rightarrow> string list \<Rightarrow> claim_store \<Rightarrow>
    (claim_change list \<times> claim_store) option" where
  "refresh_all hash files root wanted [] s = Some ([], s)"
| "refresh_all hash files root wanted (cid # ids) s = (case refresh_one hash files root wanted cid s of
       None \<Rightarrow> None
     | Some (ch, s1) \<Rightarrow> (case refresh_all hash files root wanted ids s1 of
           None \<Rightarrow> None | Some (chs, s2) \<Rightarrow> Some (ch @ chs, s2)))"

definition Refresh :: "(string \<Rightarrow> string) \<Rightarrow> workspace \<Rightarrow> string \<Rightarrow> string list \<Rightarrow> claim_store \<Rightarrow>
    (claim_change list \<times> claim_store) option" where
  "Refresh hash files root paths s =
     (let chosen = filter (\<lambda>r. \<not> isl r) (map (normalizePath root) paths)
      in refresh_all hash files root (\<lambda>p. paths = [] \<or> Inr p \<in> set chosen) (cs_order s) s)"

section \<open>Restoring\<close>

primrec restore_anchors :: "string \<Rightarrow> anchor list \<Rightarrow> claims_error + anchor list" where
  "restore_anchors root [] = Inr []"
| "restore_anchors root (a # as) = (case normalizePath root (an_path a) of
       Inl e \<Rightarrow> Inl e
     | Inr rel \<Rightarrow>
         if an_hash a = '''' then Inl RestoreNoHash
         else (case restore_anchors root as of Inl e \<Rightarrow> Inl e | Inr bs \<Rightarrow> Inr (a\<lparr>an_path := rel\<rparr> # bs)))"

definition restore_one :: "string \<Rightarrow> claim \<Rightarrow> claim_store \<Rightarrow> (claims_error + claim_store) option" where
  "restore_one root c s =
     (if cs_entries s (cl_id c) \<noteq> None then Some (Inl RestoreDuplicate)
      else (case (if has_prefix (cl_id c) ''c'' then atoi (trim_prefix (cl_id c) ''c'') else None) of
          None \<Rightarrow> Some (Inl RestoreMalformedId)
        | Some n \<Rightarrow>
            if n < 1 then Some (Inl RestoreMalformedId)
            else if trim_space (cl_text c) = '''' \<or> cl_anchors c = [] then Some (Inl RestoreIncomplete)
            else if cl_status c \<notin> {StatusLive, StatusStale, StatusDoubted} then Some (Inl RestoreUnknownStatus)
            else (case restore_anchors root (cl_anchors c) of
                Inl e \<Rightarrow> Some (Inl e)
              | Inr anchors \<Rightarrow>
                  if list_ex (\<lambda>pid. cs_entries s pid = None) (cl_derived c) then Some (Inl RestoreUnknownParent)
                  else let own = (if cl_status c = StatusStale
                             then (if cl_reason c = '''' then ''anchor changed'' else cl_reason c) else '''');
                         e = \<lparr>en_claim = c\<lparr>cl_anchors := anchors\<rparr>, en_own = own\<rparr>;
                         s1 = (put_entry e s)\<lparr>cs_order := cs_order s @ [cl_id c], cs_next := max n (cs_next s)\<rparr>
                    in (case applyDerived (cs_entries s1) e of None \<Rightarrow> None | Some e2 \<Rightarrow> Some (Inr (put_entry e2 s1))))))"

primrec restore_all :: "string \<Rightarrow> claim list \<Rightarrow> claim_store \<Rightarrow> (claims_error + claim_store) option" where
  "restore_all root [] s = Some (Inr s)"
| "restore_all root (c # cs) s = (case restore_one root c s of
       None \<Rightarrow> None
     | Some (Inl e) \<Rightarrow> Some (Inl e)
     | Some (Inr s1) \<Rightarrow> restore_all root cs s1)"

definition Restore :: "string \<Rightarrow> claim list \<Rightarrow> (claims_error + claim_store) option" where
  "Restore root saved = restore_all root saved empty_claims"

end
