(* ===== verification/Claim_Truth.thy ===== *)
theory Claim_Truth
  imports Anchored_Claims
begin

text \<open>
  Truth maintenance of anchored claims: a span that moved is found where it is nearest, a claim is
  live exactly when its own anchors and those of every claim it rests on are in place, and its state
  depends on the files alone, so a claim comes back when its content does.
\<close>

section \<open>Finding a span\<close>

abbreviation an_width :: "anchor \<Rightarrow> int" where
  "an_width a \<equiv> an_end a - an_start a + 1"

definition matches_at :: "(string \<Rightarrow> string) \<Rightarrow> string list \<Rightarrow> anchor \<Rightarrow> int \<Rightarrow> bool" where
  "matches_at hash lines a start = (1 \<le> start \<and> start + an_width a - 1 \<le> line_count lines \<and>
     hashSpan hash lines start (start + an_width a - 1) = an_hash a)"

lemma consider_fold:
  assumes "fold (consider_window hash lines a) starts b = r"
    and "\<forall>s \<in> set starts. (hashSpan hash lines s (s + an_width a - 1) = an_hash a) = P s"
    and "snd b < 0 \<or> snd b = \<bar>fst b - an_start a\<bar> \<and> Q (fst b)" and "\<And>s. s \<in> set starts \<Longrightarrow> P s \<Longrightarrow> Q s"
  shows "(snd r < 0 \<longleftrightarrow> snd b < 0 \<and> (\<forall>s \<in> set starts. \<not> P s)) \<and>
    (0 \<le> snd r \<longrightarrow> snd r = \<bar>fst r - an_start a\<bar> \<and> Q (fst r) \<and>
       (\<forall>s \<in> set starts. P s \<longrightarrow> snd r \<le> \<bar>s - an_start a\<bar>) \<and> (0 \<le> snd b \<longrightarrow> snd r \<le> snd b))"
  using assms
proof (induction starts arbitrary: b)
  case Nil
  then show ?case by auto
next
  case (Cons s starts)
  let ?b = "consider_window hash lines a s b"
  have step: "?b = (if \<not> P s then b else if snd b < 0 \<or> \<bar>s - an_start a\<bar> < snd b then (s, \<bar>s - an_start a\<bar>) else b)"
    using Cons.prems(2) by (simp add: consider_window_def Let_def)
  have inv: "snd ?b < 0 \<or> snd ?b = \<bar>fst ?b - an_start a\<bar> \<and> Q (fst ?b)"
    using Cons.prems(3,4) by (auto simp: step)
  have IH: "(snd r < 0 \<longleftrightarrow> snd ?b < 0 \<and> (\<forall>s \<in> set starts. \<not> P s)) \<and>
    (0 \<le> snd r \<longrightarrow> snd r = \<bar>fst r - an_start a\<bar> \<and> Q (fst r) \<and>
       (\<forall>s \<in> set starts. P s \<longrightarrow> snd r \<le> \<bar>s - an_start a\<bar>) \<and> (0 \<le> snd ?b \<longrightarrow> snd r \<le> snd ?b))"
    using Cons.prems by (intro Cons.IH inv) auto
  have "snd ?b < 0 \<longleftrightarrow> snd b < 0 \<and> \<not> P s"
    and "P s \<longrightarrow> snd ?b \<le> \<bar>s - an_start a\<bar> \<and> 0 \<le> snd ?b" and "0 \<le> snd b \<longrightarrow> 0 \<le> snd ?b \<and> snd ?b \<le> snd b"
    by (auto simp: step)
  with IH show ?case by (auto intro: order_trans)
qed

lemma matches_range:
  "matches_at hash lines a s \<longleftrightarrow> s \<in> set [1..line_count lines - an_width a + 1] \<and>
     hashSpan hash lines s (s + an_width a - 1) = an_hash a"
  by (auto simp: matches_at_def)

lemma locate_nearest_facts:
  assumes "locate hash (Some lines) a = (b, ok)" and "\<not> wholeFile a"
  shows "(ok \<longleftrightarrow> (\<exists>s. matches_at hash lines a s)) \<and>
    (\<not> ok \<longrightarrow> b = a) \<and>
    (ok \<longrightarrow> b = a\<lparr>an_start := an_start b, an_end := an_start b + an_width a - 1\<rparr> \<and> matches_at hash lines a (an_start b) \<and>
      (\<forall>s. matches_at hash lines a s \<longrightarrow> \<bar>an_start b - an_start a\<bar> \<le> \<bar>s - an_start a\<bar>))"
proof (cases "an_end a \<le> line_count lines \<and> 1 \<le> an_start a \<and> hashSpan hash lines (an_start a) (an_end a) = an_hash a")
  case True
  with assms have "b = a" "ok" by (auto simp: locate_def)
  moreover from True have "matches_at hash lines a (an_start a)" by (simp add: matches_at_def)
  ultimately show ?thesis by auto
next
  case False
  let ?starts = "[1..line_count lines - an_width a + 1]"
  define r where "r = fold (consider_window hash lines a) ?starts (0, - 1)"
  have res: "(b, ok) = (if snd r < 0 then (a, False) else (a\<lparr>an_start := fst r, an_end := fst r + an_width a - 1\<rparr>, True))"
    unfolding assms(1) [symmetric] locate_def Let_def r_def option.case by (simp only: assms(2) False if_False)
  have spec: "(snd r < 0 \<longleftrightarrow> (\<forall>s \<in> set ?starts. \<not> matches_at hash lines a s)) \<and>
    (0 \<le> snd r \<longrightarrow> snd r = \<bar>fst r - an_start a\<bar> \<and> matches_at hash lines a (fst r) \<and>
       (\<forall>s \<in> set ?starts. matches_at hash lines a s \<longrightarrow> snd r \<le> \<bar>s - an_start a\<bar>))"
    using consider_fold [OF r_def [symmetric], of "matches_at hash lines a" "matches_at hash lines a"]
    by (simp add: matches_range)
  have range: "matches_at hash lines a s \<Longrightarrow> s \<in> set ?starts" for s by (simp add: matches_range)
  show ?thesis
  proof (cases "snd r < 0")
    case True
    with res have "b = a" "\<not> ok" by simp_all
    with True spec range show ?thesis by blast
  next
    case False
    with res have b: "b = a\<lparr>an_start := fst r, an_end := fst r + an_width a - 1\<rparr>" "ok" by simp_all
    have r: "snd r = \<bar>fst r - an_start a\<bar>" "matches_at hash lines a (fst r)"
      and near: "\<forall>s \<in> set ?starts. matches_at hash lines a s \<longrightarrow> snd r \<le> \<bar>s - an_start a\<bar>"
      using False spec by auto
    have "an_start b = fst r" by (simp add: b(1))
    moreover have "\<forall>s. matches_at hash lines a s \<longrightarrow> \<bar>fst r - an_start a\<bar> \<le> \<bar>s - an_start a\<bar>"
      using near range r(1) by metis
    ultimately show ?thesis using b r(2) by (simp only:) blast
  qed
qed

text \<open>
  C35. \<^verbatim>\<open>locate\<close> finds an anchored span exactly when some window of the span's length has its hash, and
  then returns the nearest such window to where the span was; the anchor's path, symbol, hash and
  length do not change.
\<close>

theorem locate_nearest:
  assumes "locate hash (Some lines) a = (b, ok)" and "\<not> wholeFile a"
  shows "(ok \<longleftrightarrow> (\<exists>s. matches_at hash lines a s)) \<and>
    (\<not> ok \<longrightarrow> b = a) \<and>
    (ok \<longrightarrow> b = a\<lparr>an_start := an_start b, an_end := an_start b + an_width a - 1\<rparr> \<and> matches_at hash lines a (an_start b) \<and>
      (\<forall>s. matches_at hash lines a s \<longrightarrow> \<bar>an_start b - an_start a\<bar> \<le> \<bar>s - an_start a\<bar>))"
  by (rule locate_nearest_facts [OF assms])

definition example_anchor :: anchor where
  "example_anchor = \<lparr>an_path = ''a.go'', an_start = 4, an_end = 4, an_symbol = '''', an_hash = ''ha'' @ [CHR 0x0A]\<rparr>"

theorem locate_nearest_witness:
  "\<exists>b. locate (Cons (CHR ''h'')) (Some [''x'', ''a'', ''y'', ''b'', ''a'']) example_anchor = (b, True) \<and>
     an_start b = 5 \<and> (\<forall>s. matches_at (Cons (CHR ''h'')) [''x'', ''a'', ''y'', ''b'', ''a''] example_anchor s \<longrightarrow> \<bar>5 - 4\<bar> \<le> \<bar>s - 4\<bar>)"
proof -
  let ?lines = "[''x'', ''a'', ''y'', ''b'', ''a'']" and ?a = example_anchor
  let ?b = "fst (locate (Cons (CHR ''h'')) (Some ?lines) ?a)"
  have ok: "snd (locate (Cons (CHR ''h'')) (Some ?lines) ?a)" and start: "an_start ?b = 5" by code_simp+
  then have run: "locate (Cons (CHR ''h'')) (Some ?lines) ?a = (?b, True)" by (metis prod.collapse)
  have "\<not> wholeFile ?a" "an_start ?a = 4" by (simp_all add: wholeFile_def example_anchor_def)
  with locate_nearest [OF run] start run show ?thesis by (intro exI [of _ ?b]) auto
qed

definition moved :: "(string \<Rightarrow> string) \<Rightarrow> string list option \<Rightarrow> anchor \<Rightarrow> anchor" where
  "moved hash content a = (if snd (locate hash content a) then fst (locate hash content a) else a)"

definition in_place :: "(string \<Rightarrow> string) \<Rightarrow> string list option \<Rightarrow> anchor \<Rightarrow> bool" where
  "in_place hash content a = snd (locate hash content a)"

lemma moved_shape:
  obtains s where "moved hash content a = a\<lparr>an_start := s, an_end := s + an_width a - 1\<rparr>" and "wholeFile a \<longrightarrow> s = 0"
    and "\<not> wholeFile a \<longrightarrow> s \<noteq> 0"
proof (cases "in_place hash content a \<and> \<not> wholeFile a")
  case True
  then obtain lines where c: "content = Some lines" by (cases content) (auto simp: in_place_def locate_def)
  obtain b ok where l: "locate hash (Some lines) a = (b, ok)" by (cases "locate hash (Some lines) a") auto
  with True c have ok by (simp add: in_place_def)
  with locate_nearest_facts [OF l] True show ?thesis
    by (intro that [of "an_start b"]) (auto simp: moved_def c l matches_at_def)
next
  case False
  then have "moved hash content a = a"
    by (cases content) (auto simp: moved_def in_place_def locate_def Let_def split: if_splits)
  then show ?thesis by (intro that [of "an_start a"]) (simp_all add: wholeFile_def)
qed

lemma moved_fields [simp]:
  "an_path (moved hash content a) = an_path a" "an_hash (moved hash content a) = an_hash a"
  "an_symbol (moved hash content a) = an_symbol a" "an_width (moved hash content a) = an_width a"
  "wholeFile (moved hash content a) = wholeFile a"
proof -
  obtain s where "moved hash content a = a\<lparr>an_start := s, an_end := s + an_width a - 1\<rparr>" "wholeFile a \<longrightarrow> s = 0"
    "\<not> wholeFile a \<longrightarrow> s \<noteq> 0" by (rule moved_shape)
  then show "an_path (moved hash content a) = an_path a" "an_hash (moved hash content a) = an_hash a"
    "an_symbol (moved hash content a) = an_symbol a" "an_width (moved hash content a) = an_width a"
    "wholeFile (moved hash content a) = wholeFile a" by (auto simp: wholeFile_def)
qed

lemma in_place_iff:
  "in_place hash content a \<longleftrightarrow> (\<exists>lines. content = Some lines \<and>
     (if wholeFile a then hashSpan hash lines 1 (line_count lines) = an_hash a else \<exists>s. matches_at hash lines a s))"
proof (cases content)
  case None
  then show ?thesis by (simp add: in_place_def locate_def)
next
  case (Some lines)
  obtain b ok where l: "locate hash (Some lines) a = (b, ok)" by (cases "locate hash (Some lines) a") auto
  show ?thesis
  proof (cases "wholeFile a")
    case True
    with Some show ?thesis by (simp add: in_place_def locate_def)
  next
    case False
    with locate_nearest_facts [OF l] Some l show ?thesis by (simp add: in_place_def)
  qed
qed

lemma in_place_moved [simp]: "in_place hash content' (moved hash content a) = in_place hash content' a"
proof -
  have "matches_at hash lines (moved hash content a) = matches_at hash lines a" for lines
    unfolding matches_at_def moved_fields ..
  then show ?thesis unfolding in_place_iff moved_fields by simp
qed

lemma moved_idem: "moved hash content (moved hash content a) = moved hash content a"
proof (cases "in_place hash content a \<and> \<not> wholeFile a")
  case True
  then obtain lines where c: "content = Some lines" by (auto simp: in_place_iff)
  obtain b ok where l: "locate hash (Some lines) a = (b, ok)" by (cases "locate hash (Some lines) a") auto
  with True c have b: "moved hash content a = b" and ok by (simp_all add: in_place_def moved_def)
  from \<open>ok\<close> True locate_nearest_facts [OF l] have shape: "b = a\<lparr>an_start := an_start b, an_end := an_start b + an_width a - 1\<rparr>"
    and here: "matches_at hash lines a (an_start b)" by blast+
  have "an_end b = an_start b + an_width a - 1" by (subst shape) simp
  moreover have "an_hash b = an_hash a" by (subst shape) simp
  ultimately have "locate hash (Some lines) b = (b, True)"
    using here True b moved_fields(5) [of hash content a] by (simp add: locate_def matches_at_def)
  then show ?thesis unfolding b by (simp add: moved_def c)
next
  case False
  then have "moved hash content a = a"
    by (cases content) (auto simp: moved_def in_place_def locate_def Let_def split: if_splits)
  then show ?thesis by simp
qed

section \<open>Rechecking a claim\<close>

abbreviation content_of :: "workspace \<Rightarrow> string \<Rightarrow> anchor \<Rightarrow> string list option" where
  "content_of files root a \<equiv> fileLines files root (an_path a)"

definition own_ok :: "(string \<Rightarrow> string) \<Rightarrow> workspace \<Rightarrow> string \<Rightarrow> entry \<Rightarrow> bool" where
  "own_ok hash files root e = (\<forall>a \<in> set (cl_anchors (en_claim e)). in_place hash (content_of files root a) a)"

lemma recheck_anchors:
  "cl_anchors (en_claim (recheck hash files root e)) = map (\<lambda>a. moved hash (content_of files root a) a) (cl_anchors (en_claim e))"
  by (simp add: recheck_def Let_def moved_def comp_def)

lemma recheck_fields [simp]:
  "cl_id (en_claim (recheck hash files root e)) = cl_id (en_claim e)"
  "cl_derived (en_claim (recheck hash files root e)) = cl_derived (en_claim e)"
  "cl_text (en_claim (recheck hash files root e)) = cl_text (en_claim e)"
  "cl_evidence (en_claim (recheck hash files root e)) = cl_evidence (en_claim e)"
  by (simp_all add: recheck_def Let_def)

lemma find_first: "find p (map f xs) = None \<longleftrightarrow> (\<forall>x \<in> set xs. \<not> p (f x))"
  by (auto simp: find_None_iff)

lemma recheck_own: "en_own (recheck hash files root e) = '''' \<longleftrightarrow> own_ok hash files root e"
proof -
  let ?found = "map (\<lambda>a. (a, locate hash (content_of files root a) a)) (cl_anchors (en_claim e))"
  have "own_ok hash files root e \<longleftrightarrow> find (\<lambda>(a, r). \<not> snd r) ?found = None"
    by (simp add: own_ok_def in_place_def find_first)
  then show ?thesis by (auto simp: recheck_def Let_def split: option.split)
qed

lemma own_ok_recheck: "own_ok hash files' root (recheck hash files root e) = own_ok hash files' root e"
  by (simp add: own_ok_def recheck_anchors)

lemma find_mapped:
  "(\<And>x. x \<in> set xs \<Longrightarrow> p (f x) = q (g x)) \<Longrightarrow> map_option h (find p (map f xs)) = (case find (\<lambda>x. p (f x)) xs of None \<Rightarrow> None | Some x \<Rightarrow> Some (h (f x)))"
  by (induction xs) auto

lemma recheck_moved_anchor: "\<not> in_place hash content a \<Longrightarrow> moved hash content a = a"
  by (simp add: moved_def in_place_def)

lemma recheck_reason:
  "en_own (recheck hash files root e) =
     (case find (\<lambda>a. \<not> in_place hash (content_of files root a) a) (cl_anchors (en_claim e)) of
        None \<Rightarrow> '''' | Some a \<Rightarrow> ''anchor '' @ anchor_text a @ '' changed'')"
proof -
  have "find (\<lambda>(a, r). \<not> snd r) (map (\<lambda>a. (a, locate hash (content_of files root a) a)) as) =
      map_option (\<lambda>a. (a, locate hash (content_of files root a) a)) (find (\<lambda>a. \<not> in_place hash (content_of files root a) a) as)" for as
    by (induction as) (auto simp: in_place_def)
  then show ?thesis by (simp add: recheck_def Let_def split: option.split)
qed

lemma recheck_idem: "recheck hash files root (recheck hash files root e) = recheck hash files root e"
proof (rule entry.equality)
  let ?e = "recheck hash files root e"
  have "find (\<lambda>a. \<not> in_place hash (content_of files root a) a) (map (\<lambda>a. moved hash (content_of files root a) a) as) =
      find (\<lambda>a. \<not> in_place hash (content_of files root a) a) as" for as
    by (induction as) (auto simp: recheck_moved_anchor)
  then show "en_own (recheck hash files root ?e) = en_own ?e"
    by (simp add: recheck_reason recheck_anchors)
  show "en_claim (recheck hash files root ?e) = en_claim ?e"
  proof (rule claim.equality)
    show "cl_anchors (en_claim (recheck hash files root ?e)) = cl_anchors (en_claim ?e)"
      by (simp add: recheck_anchors moved_idem)
  qed (simp_all add: recheck_def Let_def)
qed simp

section \<open>Stores\<close>

text \<open>Claims are listed once, under their own identifiers, after the claims they derive from.\<close>

definition parents_before :: "claim_store \<Rightarrow> bool" where
  "parents_before s = (\<forall>before cid after e. cs_order s = before @ cid # after \<longrightarrow> cs_entries s cid = Some e \<longrightarrow>
     set (cl_derived (en_claim e)) \<subseteq> set before)"

definition structured :: "claim_store \<Rightarrow> bool" where
  "structured s = (distinct (cs_order s) \<and> dom (cs_entries s) = set (cs_order s) \<and>
     (\<forall>cid e. cs_entries s cid = Some e \<longrightarrow> cl_id (en_claim e) = cid) \<and> parents_before s)"

definition consistent_at :: "claim_store \<Rightarrow> string \<Rightarrow> bool" where
  "consistent_at s cid = (\<forall>e. cs_entries s cid = Some e \<longrightarrow> applyDerived (cs_entries s) e = Some e)"

definition claims_ok :: "claim_store \<Rightarrow> bool" where
  "claims_ok s = (structured s \<and> (\<forall>cid \<in> set (cs_order s). consistent_at s cid))"

lemma structured_entry: "structured s \<Longrightarrow> cid \<in> set (cs_order s) \<Longrightarrow> \<exists>e. cs_entries s cid = Some e"
  by (auto simp: structured_def)

lemma structured_parents:
  assumes "structured s" and "cs_order s = before @ cid # after" and "cs_entries s cid = Some e"
  shows "set (cl_derived (en_claim e)) \<subseteq> set before" and "cid \<notin> set before"
  using assms by (auto simp: structured_def parents_before_def)

subsection \<open>Status from the parents\<close>

definition live_claim :: "claim_store \<Rightarrow> string \<Rightarrow> bool" where
  "live_claim s cid = (\<exists>e. cs_entries s cid = Some e \<and> cl_status (en_claim e) = StatusLive)"

lemma first_doubt_cong:
  "(\<And>p. p \<in> set pids \<Longrightarrow> map_option (\<lambda>e. cl_status (en_claim e)) (m p) = map_option (\<lambda>e. cl_status (en_claim e)) (m' p)) \<Longrightarrow>
   first_doubt m pids = first_doubt m' pids"
proof (induction pids)
  case (Cons p pids)
  have "map_option (\<lambda>e. cl_status (en_claim e)) (m p) = map_option (\<lambda>e. cl_status (en_claim e)) (m' p)"
    by (rule Cons.prems) simp
  moreover have "first_doubt m pids = first_doubt m' pids" by (rule Cons.IH) (use Cons.prems in simp)
  ultimately show ?case by (cases "m p"; cases "m' p") auto
qed simp

lemma first_doubt_total:
  "(\<And>p. p \<in> set pids \<Longrightarrow> m p \<noteq> None) \<Longrightarrow> first_doubt m pids \<noteq> None"
  by (induction pids) (auto split: option.split)

lemma first_doubt_live:
  "first_doubt m pids = Some None \<longleftrightarrow> (\<forall>p \<in> set pids. \<exists>e. m p = Some e \<and> cl_status (en_claim e) = StatusLive)"
  by (induction pids) (auto split: option.split)

lemma set_status_fields [simp]:
  "en_own (set_status x r e) = en_own e" "cl_id (en_claim (set_status x r e)) = cl_id (en_claim e)"
  "cl_derived (en_claim (set_status x r e)) = cl_derived (en_claim e)"
  "cl_anchors (en_claim (set_status x r e)) = cl_anchors (en_claim e)"
  "cl_text (en_claim (set_status x r e)) = cl_text (en_claim e)"
  "cl_evidence (en_claim (set_status x r e)) = cl_evidence (en_claim e)"
  "cl_status (en_claim (set_status x r e)) = x" "cl_reason (en_claim (set_status x r e)) = r"
  "set_status x' r' (set_status x r e) = set_status x' r' e"
  by (simp_all add: set_status_def)

text \<open>The status of a claim is a function of its own reason and the statuses of its parents.\<close>

lemma applyDerived_cases:
  assumes "applyDerived m e = Some e'"
  shows "\<exists>x r. e' = set_status x r e \<and>
    (x = StatusStale \<longleftrightarrow> en_own e \<noteq> '''') \<and> x \<in> {StatusLive, StatusStale, StatusDoubted} \<and>
    (x = StatusLive \<longleftrightarrow> en_own e = '''' \<and> (\<forall>p \<in> set (cl_derived (en_claim e)). \<exists>e. m p = Some e \<and> cl_status (en_claim e) = StatusLive))"
proof (cases "en_own e = ''''")
  case False
  with assms show ?thesis by (auto simp: applyDerived_def)
next
  case True
  show ?thesis
  proof (cases "first_doubt m (cl_derived (en_claim e))")
    case None
    with assms True show ?thesis by (simp add: applyDerived_def)
  next
    case (Some d)
    show ?thesis
    proof (cases d)
      case None
      with Some first_doubt_live [of m "cl_derived (en_claim e)"] assms True show ?thesis by (auto simp: applyDerived_def)
    next
      case (Some x)
      with \<open>first_doubt m (cl_derived (en_claim e)) = Some d\<close> first_doubt_live [of m "cl_derived (en_claim e)"] assms True
      show ?thesis by (cases x) (auto simp: applyDerived_def)
    qed
  qed
qed

lemma applyDerived_cong:
  assumes "\<And>p. p \<in> set (cl_derived (en_claim e)) \<Longrightarrow>
    map_option (\<lambda>e. cl_status (en_claim e)) (m p) = map_option (\<lambda>e. cl_status (en_claim e)) (m' p)"
  shows "applyDerived m e = applyDerived m' e"
  using first_doubt_cong [OF assms] by (simp add: applyDerived_def)

lemma applyDerived_again: "applyDerived m e = Some e' \<Longrightarrow> applyDerived m e' = Some e'"
  by (auto simp: applyDerived_def split: option.splits if_splits)

lemma applyDerived_total:
  "(\<And>p. p \<in> set (cl_derived (en_claim e)) \<Longrightarrow> m p \<noteq> None) \<Longrightarrow> \<exists>e'. applyDerived m e = Some e'"
  using first_doubt_total [of "cl_derived (en_claim e)" m] by (auto simp: applyDerived_def split: option.split)

section \<open>What the statuses say\<close>

definition derives :: "claim_store \<Rightarrow> (string \<times> string) set" where
  "derives s = {(cid, p). \<exists>e. cs_entries s cid = Some e \<and> p \<in> set (cl_derived (en_claim e))}"

definition own_reason :: "claim_store \<Rightarrow> string \<Rightarrow> string" where
  "own_reason s cid = (case cs_entries s cid of None \<Rightarrow> '''' | Some e \<Rightarrow> en_own e)"

lemma live_step:
  assumes ok: "claims_ok s" and e: "cs_entries s cid = Some e"
  shows "live_claim s cid \<longleftrightarrow> own_reason s cid = '''' \<and> (\<forall>p \<in> set (cl_derived (en_claim e)). live_claim s p)"
    and "cl_status (en_claim e) = (if en_own e \<noteq> '''' then StatusStale else if live_claim s cid then StatusLive else StatusDoubted)"
proof -
  have "cid \<in> set (cs_order s)" using ok e by (auto simp: claims_ok_def structured_def)
  then have "applyDerived (cs_entries s) e = Some e" using ok e by (auto simp: claims_ok_def consistent_at_def)
  from applyDerived_cases [OF this] obtain x r where eq: "e = set_status x r e"
    and x: "x = StatusStale \<longleftrightarrow> en_own e \<noteq> ''''" "x \<in> {StatusLive, StatusStale, StatusDoubted}"
      "x = StatusLive \<longleftrightarrow> en_own e = '''' \<and> (\<forall>p \<in> set (cl_derived (en_claim e)). live_claim s p)"
    unfolding live_claim_def by blast
  have status: "cl_status (en_claim e) = x" by (subst eq) simp
  have "live_claim s cid \<longleftrightarrow> x = StatusLive" by (simp add: live_claim_def e status)
  with x e status show "live_claim s cid \<longleftrightarrow> own_reason s cid = '''' \<and> (\<forall>p \<in> set (cl_derived (en_claim e)). live_claim s p)"
    and "cl_status (en_claim e) = (if en_own e \<noteq> '''' then StatusStale else if live_claim s cid then StatusLive else StatusDoubted)"
    by (auto simp: own_reason_def)
qed

lemma live_iff:
  assumes ok: "claims_ok s" and "cs_order s = before @ cid # after"
  shows "live_claim s cid \<longleftrightarrow> (\<forall>a. (cid, a) \<in> (derives s)\<^sup>* \<longrightarrow> own_reason s a = '''')"
  using assms(2)
proof (induction "length before" arbitrary: before cid after rule: less_induct)
  case less
  then have mem: "cid \<in> set (cs_order s)" by simp
  have st: "structured s" using ok by (simp add: claims_ok_def)
  from structured_entry [OF st mem] obtain e where e: "cs_entries s cid = Some e" by blast
  have IH: "live_claim s p \<longleftrightarrow> (\<forall>a. (p, a) \<in> (derives s)\<^sup>* \<longrightarrow> own_reason s a = '''')" if "p \<in> set (cl_derived (en_claim e))" for p
  proof -
    from that structured_parents(1) [OF st less.prems e] have "p \<in> set before" by blast
    then obtain xs ys where "before = xs @ p # ys" by (auto simp: in_set_conv_decomp)
    then show ?thesis using less.hyps [of xs p "ys @ cid # after"] less.prems by simp
  qed
  have step: "(cid, a) \<in> (derives s)\<^sup>* \<longleftrightarrow> a = cid \<or> (\<exists>p \<in> set (cl_derived (en_claim e)). (p, a) \<in> (derives s)\<^sup>*)" for a
  proof
    assume "(cid, a) \<in> (derives s)\<^sup>*"
    then show "a = cid \<or> (\<exists>p \<in> set (cl_derived (en_claim e)). (p, a) \<in> (derives s)\<^sup>*)"
      by (cases rule: converse_rtranclE) (auto simp: derives_def e)
  next
    assume "a = cid \<or> (\<exists>p \<in> set (cl_derived (en_claim e)). (p, a) \<in> (derives s)\<^sup>*)"
    moreover have "(cid, p) \<in> derives s" if "p \<in> set (cl_derived (en_claim e))" for p using that e by (auto simp: derives_def)
    ultimately show "(cid, a) \<in> (derives s)\<^sup>*" by (auto intro: converse_rtrancl_into_rtrancl)
  qed
  show ?case unfolding live_step(1) [OF ok e] using IH by (auto simp: step)
qed

section \<open>Refreshing\<close>

definition touch :: "(string \<Rightarrow> string) \<Rightarrow> workspace \<Rightarrow> string \<Rightarrow> (string \<Rightarrow> bool) \<Rightarrow> entry \<Rightarrow> entry" where
  "touch hash files root wanted e =
     (if list_ex (\<lambda>a. wanted (an_path a)) (cl_anchors (en_claim e)) then recheck hash files root e else e)"

lemma touch_fields [simp]:
  "cl_id (en_claim (touch hash files root wanted e)) = cl_id (en_claim e)"
  "cl_derived (en_claim (touch hash files root wanted e)) = cl_derived (en_claim e)"
  by (simp_all add: touch_def)

text \<open>Replacing an entry by one with the same identifier and parents keeps the structure.\<close>

lemma structured_update:
  assumes st: "structured s" and e: "cs_entries s cid = Some e" and "cl_id (en_claim e') = cl_id (en_claim e)"
    and "cl_derived (en_claim e') = cl_derived (en_claim e)"
  shows "structured (s\<lparr>cs_entries := (cs_entries s)(cid \<mapsto> e')\<rparr>)"
proof -
  have "parents_before (s\<lparr>cs_entries := (cs_entries s)(cid \<mapsto> e')\<rparr>)"
    unfolding parents_before_def
  proof (intro allI impI)
    fix before x after y
    assume order: "cs_order (s\<lparr>cs_entries := (cs_entries s)(cid \<mapsto> e')\<rparr>) = before @ x # after"
      and y: "cs_entries (s\<lparr>cs_entries := (cs_entries s)(cid \<mapsto> e')\<rparr>) x = Some y"
    have "\<exists>z. cs_entries s x = Some z \<and> cl_derived (en_claim y) = cl_derived (en_claim z)"
      using y e assms(4) by (cases "x = cid") auto
    with st order show "set (cl_derived (en_claim y)) \<subseteq> set before"
      unfolding structured_def parents_before_def by force
  qed
  moreover have "cid \<in> set (cs_order s)" and "cl_id (en_claim e) = cid" using st e by (auto simp: structured_def)
  ultimately show ?thesis using st assms(3) by (auto simp: structured_def)
qed

lemma consistent_frame:
  assumes st: "structured s" and split: "cs_order s = before @ x # after" and con: "consistent_at s x"
    and "cid \<noteq> x" and "cid \<notin> set before"
  shows "consistent_at (s\<lparr>cs_entries := (cs_entries s)(cid \<mapsto> e')\<rparr>) x"
  unfolding consistent_at_def
proof (intro allI impI)
  fix y assume "cs_entries (s\<lparr>cs_entries := (cs_entries s)(cid \<mapsto> e')\<rparr>) x = Some y"
  then have y: "cs_entries s x = Some y" using assms(4) by simp
  with structured_parents(1) [OF st split] assms(5) have "cid \<notin> set (cl_derived (en_claim y))" by blast
  then have "applyDerived ((cs_entries s)(cid \<mapsto> e')) y = applyDerived (cs_entries s) y"
    by (intro applyDerived_cong) auto
  with y con show "applyDerived (cs_entries (s\<lparr>cs_entries := (cs_entries s)(cid \<mapsto> e')\<rparr>)) y = Some y"
    by (simp add: consistent_at_def)
qed

lemma refresh_one_spec:
  assumes st: "structured s" and split: "cs_order s = before @ cid # after" and con: "\<forall>x \<in> set before. consistent_at s x"
  obtains e x r ch s1 where "cs_entries s cid = Some e" and "s1 = s\<lparr>cs_entries := (cs_entries s)(cid \<mapsto> set_status x r (touch hash files root wanted e))\<rparr>"
    and "refresh_one hash files root wanted cid s = Some (ch, s1)" and "structured s1"
    and "\<forall>y \<in> set (before @ [cid]). consistent_at s1 y"
proof -
  have "cid \<in> set (cs_order s)" by (simp add: split)
  from structured_entry [OF st this] obtain e where e: "cs_entries s cid = Some e" by blast
  let ?e1 = "touch hash files root wanted e"
  note before = structured_parents [OF st split e]
  have "cs_entries s p \<noteq> None" if "p \<in> set (cl_derived (en_claim ?e1))" for p
  proof -
    from that before(1) have "p \<in> set (cs_order s)" by (auto simp: split)
    from structured_entry [OF st this] show ?thesis by blast
  qed
  then obtain e2 where e2: "applyDerived (cs_entries s) ?e1 = Some e2"
    using applyDerived_total [of ?e1 "cs_entries s"] by blast
  from applyDerived_cases [OF e2] obtain x r where eq: "e2 = set_status x r ?e1" by blast
  let ?s1 = "s\<lparr>cs_entries := (cs_entries s)(cid \<mapsto> e2)\<rparr>"
  have st1: "structured ?s1" by (rule structured_update [OF st e]) (simp_all add: eq)
  have "consistent_at ?s1 y" if y: "y \<in> set (before @ [cid])" for y
  proof (cases "y = cid")
    case True
    have "applyDerived ((cs_entries s)(cid \<mapsto> e2)) e2 = applyDerived (cs_entries s) e2"
      using before by (intro applyDerived_cong) (auto simp: eq)
    with applyDerived_again [OF e2] True show ?thesis by (simp add: consistent_at_def)
  next
    case False
    with y obtain xs ys where split': "before = xs @ y # ys" by (auto simp: in_set_conv_decomp)
    show ?thesis
      by (rule consistent_frame [OF st, of xs y "ys @ cid # after"]) (use split split' con before(2) False in auto)
  qed
  moreover have "\<exists>ch. refresh_one hash files root wanted cid s = Some (ch, ?s1)"
    using e e2 by (simp add: refresh_one_def Let_def touch_def)
  ultimately show ?thesis using that [OF e] st1 eq by blast
qed

lemma refresh_all_spec:
  assumes "structured s" and "cs_order s = before @ ids" and "\<forall>x \<in> set before. consistent_at s x"
  shows "\<exists>chs s'. refresh_all hash files root wanted ids s = Some (chs, s') \<and> claims_ok s' \<and> cs_order s' = cs_order s \<and>
    cs_next s' = cs_next s \<and> (\<forall>cid. cid \<notin> set ids \<longrightarrow> cs_entries s' cid = cs_entries s cid) \<and>
    (\<forall>cid \<in> set ids. \<exists>e x r. cs_entries s cid = Some e \<and> cs_entries s' cid = Some (set_status x r (touch hash files root wanted e)))"
  using assms
proof (induction ids arbitrary: before s)
  case Nil
  then show ?case by (simp add: claims_ok_def)
next
  case (Cons cid ids)
  obtain e x r ch s1 where e: "cs_entries s cid = Some e"
    and s1: "s1 = s\<lparr>cs_entries := (cs_entries s)(cid \<mapsto> set_status x r (touch hash files root wanted e))\<rparr>"
    and one: "refresh_one hash files root wanted cid s = Some (ch, s1)" and st1: "structured s1"
    and con: "\<forall>y \<in> set (before @ [cid]). consistent_at s1 y"
    by (rule refresh_one_spec [OF Cons.prems])
  have order: "cs_order s1 = (before @ [cid]) @ ids" using Cons.prems(2) by (simp add: s1)
  from Cons.IH [OF st1 order con] obtain chs s' where rest: "refresh_all hash files root wanted ids s1 = Some (chs, s')"
    and ok: "claims_ok s'" "cs_order s' = cs_order s1" "cs_next s' = cs_next s1"
    and out: "\<forall>y. y \<notin> set ids \<longrightarrow> cs_entries s' y = cs_entries s1 y"
    and ins: "\<forall>y \<in> set ids. \<exists>e x r. cs_entries s1 y = Some e \<and> cs_entries s' y = Some (set_status x r (touch hash files root wanted e))"
    by blast
  have fresh: "cid \<notin> set ids" using Cons.prems(1,2) by (simp add: structured_def)
  have "\<exists>e x r. cs_entries s y = Some e \<and> cs_entries s' y = Some (set_status x r (touch hash files root wanted e))"
    if "y \<in> set (cid # ids)" for y
  proof (cases "y = cid")
    case True
    with e out fresh show ?thesis by (auto simp: s1)
  next
    case False
    with that ins have "\<exists>e x r. cs_entries s1 y = Some e \<and> cs_entries s' y = Some (set_status x r (touch hash files root wanted e))" by simp
    with False show ?thesis by (simp add: s1)
  qed
  moreover have "\<forall>y. y \<notin> set (cid # ids) \<longrightarrow> cs_entries s' y = cs_entries s y" using out by (simp add: s1)
  ultimately show ?case using one rest ok by (simp add: s1)
qed

end
