(* ===== verification/Claim_Paths.thy ===== *)
theory Claim_Paths
  imports Anchored_Claims
begin

text \<open>
  The workspace paths of anchors: an accepted path is made of components below the root, and
  normalising it again gives it back.
\<close>

section \<open>Components\<close>

definition plain_comp :: "string \<Rightarrow> bool" where
  "plain_comp x = (x \<noteq> '''' \<and> x \<noteq> ''.'' \<and> x \<noteq> ''..'' \<and> CHR ''/'' \<notin> set x)"

lemma split_acc_append:
  "split_slash_acc acc (a @ CHR ''/'' # b) = split_slash_acc acc a @ split_slash_acc [] b"
  by (induction acc a rule: split_slash_acc.induct) simp_all

lemma split_append: "split_slash (a @ CHR ''/'' # b) = split_slash a @ split_slash b"
  by (simp add: split_slash_def split_acc_append)

lemma split_acc_plain: "CHR ''/'' \<notin> set x \<Longrightarrow> split_slash_acc acc x = [rev acc @ x]"
  by (induction x arbitrary: acc) auto

lemma split_plain: "CHR ''/'' \<notin> set x \<Longrightarrow> split_slash x = [x]"
  by (simp add: split_slash_def split_acc_plain)

lemma split_no_slash: "x \<in> set (split_slash_acc acc s) \<Longrightarrow> CHR ''/'' \<notin> set acc \<Longrightarrow> CHR ''/'' \<notin> set x"
  by (induction acc s rule: split_slash_acc.induct) (auto split: if_splits)

lemma split_join: "cs \<noteq> [] \<Longrightarrow> \<forall>x \<in> set cs. CHR ''/'' \<notin> set x \<Longrightarrow> split_slash (join_slash cs) = cs"
  by (induction cs rule: join_slash.induct) (simp_all add: split_plain split_append)

section \<open>Cleaning rooted paths\<close>

lemma clean_plain: "\<forall>x \<in> set xs. plain_comp x \<Longrightarrow> clean_components True stack xs = rev stack @ xs"
  by (induction xs arbitrary: stack) (auto simp: plain_comp_def)

lemma clean_append:
  "clean_components True stack (xs @ ys) = clean_components True (rev (clean_components True stack xs)) ys"
  by (induction True stack xs rule: clean_components.induct) (auto split: list.splits)

lemma clean_result:
  assumes "\<forall>x \<in> set xs. CHR ''/'' \<notin> set x" and "\<forall>x \<in> set stack. plain_comp x"
  shows "\<forall>x \<in> set (clean_components True stack xs). plain_comp x"
  using assms
proof (induction xs arbitrary: stack)
  case (Cons x xs)
  consider "x = '''' \<or> x = ''.''" | "x = ''..''" | "plain_comp x"
    using Cons.prems(1) by (auto simp: plain_comp_def)
  then show ?case
  proof cases
    case 1
    with Cons show ?thesis by auto
  next
    case 2
    show ?thesis
    proof (cases stack)
      case Nil
      with 2 Cons.prems Cons.IH [of "[]"] show ?thesis by simp
    next
      case stack: (Cons y ys)
      with Cons.prems(2) have "y \<noteq> ''..''" by (auto simp: plain_comp_def)
      with 2 stack Cons.prems Cons.IH [of ys] show ?thesis by auto
    qed
  next
    case 3
    then have "clean_components True stack (x # xs) = clean_components True (x # stack) xs" by (simp add: plain_comp_def)
    moreover have "\<forall>y \<in> set (clean_components True (x # stack) xs). plain_comp y"
      by (rule Cons.IH) (use 3 Cons.prems in auto)
    ultimately show ?thesis by (simp only:)
  qed
qed simp

lemma comps_plain: "\<forall>x \<in> set (path_comps s). plain_comp x"
  unfolding path_comps_def by (rule clean_result) (auto simp: split_slash_def dest: split_no_slash)

lemma rooted_text:
  assumes "\<forall>x \<in> set cs. plain_comp x"
  shows "path_comps (''/'' @ join_slash cs) = cs" and "clean_path (''/'' @ join_slash cs) = ''/'' @ join_slash cs"
proof -
  have slash: "\<forall>x \<in> set cs. CHR ''/'' \<notin> set x" using assms by (auto simp: plain_comp_def)
  have "split_slash (''/'' @ join_slash cs) = '''' # split_slash (join_slash cs)"
    using split_append [of "''''" "join_slash cs"] by (simp add: split_slash_def)
  moreover have "clean_components True [] (split_slash (join_slash cs)) = cs"
  proof (cases "cs = []")
    case True
    then show ?thesis by (simp add: split_slash_def)
  next
    case False
    with slash assms show ?thesis by (simp add: split_join clean_plain)
  qed
  ultimately show comps: "path_comps (''/'' @ join_slash cs) = cs" by (simp add: path_comps_def)
  have "is_abs (''/'' @ join_slash cs)" by (simp add: is_abs_def has_prefix_def)
  with comps show "clean_path (''/'' @ join_slash cs) = ''/'' @ join_slash cs"
    by (simp add: clean_path_def Let_def path_comps_def)
qed

lemma clean_abs: "is_abs p \<Longrightarrow> clean_path p = ''/'' @ join_slash (path_comps p)"
  by (simp add: clean_path_def Let_def path_comps_def)

section \<open>Relative paths\<close>

lemma rel_prefix: "rel_comps base (base @ xs) = xs"
  by (induction base) (cases xs, auto)

lemma rel_cases:
  "(\<exists>xs. t = base @ xs \<and> rel_comps base t = xs) \<or> (\<exists>ys. rel_comps base t = ''..'' # ys)"
proof (induction base arbitrary: t)
  case Nil
  then show ?case by (cases t) auto
next
  case (Cons b base)
  then show ?case by (cases t) auto
qed

lemma join_dotdot: "join_slash (''..'' # ys) = ''..'' \<or> has_prefix (join_slash (''..'' # ys)) ''../''"
  by (cases ys) (simp_all add: has_prefix_def)

lemma join_plain:
  assumes "xs \<noteq> []" and "\<forall>x \<in> set xs. plain_comp x"
  shows "\<not> is_abs (join_slash xs)" and "join_slash xs \<noteq> ''''" and "join_slash xs \<noteq> ''.''" and "join_slash xs \<noteq> ''..''"
    and "\<not> has_prefix (join_slash xs) ''../''"
proof -
  have split: "split_slash (join_slash xs) = xs" using assms by (intro split_join) (auto simp: plain_comp_def)
  have hd: "plain_comp (hd xs)" using assms by (cases xs) auto
  have eq: "hd (split_slash (join_slash xs)) = hd xs" by (simp add: split)
  show "\<not> is_abs (join_slash xs)"
  proof
    assume "is_abs (join_slash xs)"
    then obtain t where t: "join_slash xs = CHR ''/'' # t" by (auto simp: is_abs_def has_prefix_iff prefix_def)
    have "hd (split_slash (CHR ''/'' # t)) = ''''" using split_append [of "''''" t] by (simp add: split_slash_def)
    with eq hd t show False by (simp add: plain_comp_def)
  qed
  show "join_slash xs \<noteq> ''''" "join_slash xs \<noteq> ''.''" "join_slash xs \<noteq> ''..''"
    using eq hd by (auto simp: split_slash_def plain_comp_def)
  show "\<not> has_prefix (join_slash xs) ''../''"
  proof
    assume "has_prefix (join_slash xs) ''../''"
    then obtain t where t: "join_slash xs = ''..'' @ CHR ''/'' # t" by (auto simp: has_prefix_iff prefix_def)
    have "hd (split_slash (''..'' @ CHR ''/'' # t)) = ''..''" by (simp only: split_append) (simp add: split_slash_def)
    with eq hd t show False by (simp add: plain_comp_def)
  qed
qed

text \<open>The normal form of an accepted path.\<close>

lemma normalize_shape:
  assumes "normalizePath root p = Inr r"
  obtains xs where "xs \<noteq> []" and "\<forall>x \<in> set xs. plain_comp x" and "r = join_slash xs"
proof -
  define q where "q = clean_path (if is_abs p then p else join_path root p)"
  have rel: "rel_path root q = r" and ok: "r \<noteq> ''.''" "r \<noteq> ''..''" "\<not> has_prefix r ''../''"
    using assms by (auto simp: normalizePath_def Let_def q_def split: if_splits)
  define xs where "xs = rel_comps (path_comps root) (path_comps q)"
  have "xs \<noteq> []" and r: "r = join_slash xs" using rel ok(1) by (auto simp: rel_path_def Let_def xs_def split: if_splits)
  have "\<not> (\<exists>ys. xs = ''..'' # ys)" using ok(2,3) join_dotdot r by blast
  with rel_cases [of "path_comps q" "path_comps root"] have "path_comps q = path_comps root @ xs"
    unfolding xs_def by blast
  with comps_plain [of q] have "\<forall>x \<in> set xs. plain_comp x" by simp
  with \<open>xs \<noteq> []\<close> r that show ?thesis by blast
qed

lemma normalize_idem:
  assumes root: "is_abs root" and norm: "normalizePath root p = Inr r" and "trim_space r \<noteq> ''''"
  shows "normalizePath root r = Inr r"
proof -
  obtain xs where xs: "xs \<noteq> []" "\<forall>x \<in> set xs. plain_comp x" "r = join_slash xs" by (rule normalize_shape [OF norm])
  note r = join_plain [OF xs(1,2), folded xs(3)]
  have "root \<noteq> ''''" using root by (auto simp: is_abs_def has_prefix_def)
  then have join: "join_path root r = clean_path (root @ CHR ''/'' # r)" using r(2) by (simp add: join_path_def)
  have abs: "is_abs (root @ CHR ''/'' # r)" using root by (auto simp: is_abs_def has_prefix_iff)
  have "path_comps (root @ CHR ''/'' # r) = path_comps root @ xs"
    unfolding path_comps_def split_append using xs
    by (simp add: clean_append clean_plain split_join plain_comp_def)
  then have join': "join_path root r = ''/'' @ join_slash (path_comps root @ xs)"
    using join clean_abs [OF abs] by simp
  have plain: "\<forall>x \<in> set (path_comps root @ xs). plain_comp x" using xs(2) comps_plain [of root] by auto
  have "rel_path root (clean_path (join_path root r)) = r"
    unfolding join' rooted_text(2) [OF plain] rel_path_def rooted_text(1) [OF plain] rel_prefix
    using xs by (simp add: Let_def)
  with r assms(3) show ?thesis by (simp add: normalizePath_def Let_def)
qed

end
