(* ===== verification/Claim_Runs.thy ===== *)
theory Claim_Runs
  imports Claim_Truth Claim_Paths
begin

text \<open>
  Sessions of anchored claims: the stores reached by \<^verbatim>\<open>Add\<close>, \<^verbatim>\<open>Refresh\<close> and \<^verbatim>\<open>Restore\<close>, the invariant they
  keep, and what a refresh and a restore do to them.
\<close>

section \<open>Texts and identifiers\<close>

lemma trim_nonblank: "trim_space s \<noteq> '''' \<longleftrightarrow> (\<exists>c \<in> set s. \<not> is_space c)"
proof -
  have "trim_space s = '''' \<longleftrightarrow> dropWhile is_space (rev (dropWhile is_space s)) = []" by (simp add: trim_space_def)
  also have "\<dots> \<longleftrightarrow> (\<forall>c \<in> set (dropWhile is_space s). is_space c)" by simp
  also have "\<dots> \<longleftrightarrow> (\<forall>c \<in> set s. is_space c)"
    by (induction s) auto
  finally show ?thesis by blast
qed

lemma trim_set: "c \<in> set s \<Longrightarrow> \<not> is_space c \<Longrightarrow> c \<in> set (trim_space s)"
proof -
  have keep: "c \<in> set t \<Longrightarrow> \<not> is_space c \<Longrightarrow> c \<in> set (dropWhile is_space t)" for t by (induction t) auto
  assume "c \<in> set s" and "\<not> is_space c"
  then show ?thesis using keep [of s] keep [of "rev (dropWhile is_space s)"] by (simp add: trim_space_def)
qed

lemma trim_again: "trim_space s \<noteq> '''' \<Longrightarrow> trim_space (trim_space s) \<noteq> ''''"
  using trim_nonblank [of s] trim_nonblank [of "trim_space s"] trim_set by blast

definition id_number :: "string \<Rightarrow> int option" where
  "id_number cid = (if has_prefix cid ''c'' then atoi (trim_prefix cid ''c'') else None)"

lemma dec_text_cons: "dec_text n \<noteq> ''''"
  by (simp add: dec_text.simps [of n])

lemma atoi_int_text:
  assumes "0 \<le> n" and "n \<le> 9223372036854775807"
  shows "atoi (int_text n) = Some n"
proof -
  have digits: "digits_value (dec_text (nat n)) = Some n"
    using assms(1) set_dec_text [of _ "nat n"] dec_text_cons [of "nat n"]
    by (auto simp: digits_value_def list_all_iff is_digit_def)
  obtain c t where ct: "dec_text (nat n) = c # t" using dec_text_cons [of "nat n"] by (cases "dec_text (nat n)") auto
  have "c \<noteq> CHR ''-''" "c \<noteq> CHR ''+''" using set_dec_text [of c "nat n"] ct by auto
  then have "(case dec_text (nat n) of CHR ''-'' # t \<Rightarrow> map_option uminus (digits_value t)
       | CHR ''+'' # t \<Rightarrow> digits_value t | _ \<Rightarrow> digits_value (dec_text (nat n))) = Some n"
    using digits unfolding ct by (auto split: list.split char.split bool.split)
  then show ?thesis using assms by (simp add: atoi_def int_text_def)
qed

lemma id_number_fresh: "0 \<le> n \<Longrightarrow> n \<le> 9223372036854775807 \<Longrightarrow> id_number (CHR ''c'' # int_text n) = Some n"
  by (simp add: id_number_def has_prefix_def trim_prefix_def atoi_int_text)

lemma id_number_bound: "id_number cid = Some n \<Longrightarrow> n \<le> 9223372036854775807"
  by (auto simp: id_number_def atoi_def split: if_splits option.splits)

lemma wrap_small: "0 \<le> n \<Longrightarrow> n < 9223372036854775807 \<Longrightarrow> wrap_int (n + 1) = n + 1"
  by (simp add: wrap_int_def)

section \<open>Adding at the end\<close>

definition extend :: "string \<Rightarrow> int \<Rightarrow> entry \<Rightarrow> claim_store \<Rightarrow> claim_store" where
  "extend cid n e s = \<lparr>cs_entries = (cs_entries s)(cid \<mapsto> e), cs_order = cs_order s @ [cid], cs_next = n\<rparr>"

lemma snoc_split: "xs @ [y] = before @ x # after \<Longrightarrow>
    after = [] \<and> x = y \<and> before = xs \<or> (\<exists>after'. after = after' @ [y] \<and> xs = before @ x # after')"
  by (cases after rule: rev_cases) auto

lemma extend_ok:
  assumes ok: "claims_ok s" and fresh: "cid \<notin> set (cs_order s)" and e: "cl_id (en_claim e) = cid"
    and parents: "set (cl_derived (en_claim e)) \<subseteq> set (cs_order s)"
  obtains e2 x r where "applyDerived ((cs_entries s)(cid \<mapsto> e)) e = Some e2" and "e2 = set_status x r e"
    and "applyDerived (cs_entries s) e = Some e2" and "claims_ok (extend cid n e2 s)"
proof -
  have st: "structured s" using ok by (simp add: claims_ok_def)
  have dom: "dom (cs_entries s) = set (cs_order s)" using st by (simp add: structured_def)
  have "cs_entries s p \<noteq> None" if "p \<in> set (cl_derived (en_claim e))" for p using that parents dom by blast
  then obtain e2 where e2: "applyDerived (cs_entries s) e = Some e2" using applyDerived_total [of e "cs_entries s"] by blast
  have own: "applyDerived ((cs_entries s)(cid \<mapsto> y)) z = applyDerived (cs_entries s) z"
    if "set (cl_derived (en_claim z)) \<subseteq> set (cs_order s)" for y z
    using that fresh by (intro applyDerived_cong) auto
  obtain x r where eq: "e2 = set_status x r e" using applyDerived_cases [OF e2] by blast
  let ?s = "extend cid n e2 s"
  have "parents_before ?s"
    unfolding parents_before_def
  proof (intro allI impI)
    fix before y after z
    assume order: "cs_order ?s = before @ y # after" and z: "cs_entries ?s y = Some z"
    from order have "cs_order s @ [cid] = before @ y # after" by (simp add: extend_def)
    from snoc_split [OF this] show "set (cl_derived (en_claim z)) \<subseteq> set before"
    proof (elim disjE exE conjE)
      assume "y = cid" "before = cs_order s"
      moreover from this z eq have "cl_derived (en_claim z) = cl_derived (en_claim e)" by (auto simp: extend_def)
      ultimately show ?thesis using parents by simp
    next
      fix after' assume split: "cs_order s = before @ y # after'"
      with fresh have "y \<noteq> cid" by auto
      with z have "cs_entries s y = Some z" by (simp add: extend_def)
      from structured_parents(1) [OF st split this] show ?thesis .
    qed
  qed
  with st eq e fresh have st': "structured ?s" by (auto simp: structured_def extend_def)
  have "consistent_at ?s y" if y: "y \<in> set (cs_order ?s)" for y
    unfolding consistent_at_def
  proof (intro allI impI)
    fix z assume z: "cs_entries ?s y = Some z"
    show "applyDerived (cs_entries ?s) z = Some z"
    proof (cases "y = cid")
      case True
      with z have "z = e2" by (simp add: extend_def)
      moreover have "set (cl_derived (en_claim e2)) \<subseteq> set (cs_order s)" using parents eq by simp
      ultimately show ?thesis using own applyDerived_again [OF e2] by (simp add: extend_def)
    next
      case False
      with z have z': "cs_entries s y = Some z" by (simp add: extend_def)
      from False y have mem: "y \<in> set (cs_order s)" by (simp add: extend_def)
      then obtain before after where split: "cs_order s = before @ y # after" by (auto simp: in_set_conv_decomp)
      from structured_parents(1) [OF st split z'] have "set (cl_derived (en_claim z)) \<subseteq> set (cs_order s)" using split by auto
      with own mem z' ok show ?thesis by (simp add: extend_def claims_ok_def consistent_at_def)
    qed
  qed
  with st' have "claims_ok ?s" by (simp add: claims_ok_def)
  with e2 eq own [OF parents] show ?thesis by (intro that) simp_all
qed

section \<open>The invariant of a session\<close>

definition entry_ok :: "string \<Rightarrow> entry \<Rightarrow> bool" where
  "entry_ok root e = (trim_space (cl_text (en_claim e)) \<noteq> '''' \<and> cl_anchors (en_claim e) \<noteq> [] \<and>
     (\<forall>a \<in> set (cl_anchors (en_claim e)). an_hash a \<noteq> '''' \<and> (\<exists>p. normalizePath root p = Inr (an_path a))))"

definition next_number :: "string list \<Rightarrow> int" where
  "next_number ids = fold (\<lambda>cid m. max (the (id_number cid)) m) ids 0"

definition claims_inv :: "string \<Rightarrow> claim_store \<Rightarrow> bool" where
  "claims_inv root s = (claims_ok s \<and> (\<forall>cid \<in> set (cs_order s). \<exists>n. id_number cid = Some n \<and> 1 \<le> n) \<and>
     cs_next s = next_number (cs_order s) \<and> (\<forall>cid e. cs_entries s cid = Some e \<longrightarrow> entry_ok root e))"

lemma next_number_snoc: "next_number (ids @ [cid]) = max (the (id_number cid)) (next_number ids)"
  by (simp add: next_number_def)

lemma next_number_ge: "0 \<le> next_number ids \<and> (\<forall>cid \<in> set ids. the (id_number cid) \<le> next_number ids)"
  by (induction ids rule: rev_induct) (auto simp: next_number_snoc le_max_iff_disj, simp add: next_number_def)

lemma empty_inv: "claims_inv root empty_claims"
  by (simp add: claims_inv_def claims_ok_def structured_def parents_before_def empty_claims_def next_number_def)

lemma set_status_entry_ok [simp]: "entry_ok root (set_status x r e) = entry_ok root e"
  by (simp add: entry_ok_def)

lemma extend_inv:
  assumes inv: "claims_inv root s" and fresh: "cid \<notin> set (cs_order s)" and e: "cl_id (en_claim e) = cid"
    and parents: "set (cl_derived (en_claim e)) \<subseteq> set (cs_order s)"
    and number: "id_number cid = Some n" "1 \<le> n" and entry: "entry_ok root e"
  obtains e2 x r where "applyDerived ((cs_entries s)(cid \<mapsto> e)) e = Some e2" and "e2 = set_status x r e"
    and "applyDerived (cs_entries s) e = Some e2" and "claims_inv root (extend cid (max n (cs_next s)) e2 s)"
proof -
  have "claims_ok s" using inv by (simp add: claims_inv_def)
  from extend_ok [OF this fresh e parents, of "max n (cs_next s)"] obtain e2 x r where
    e2: "applyDerived ((cs_entries s)(cid \<mapsto> e)) e = Some e2" "e2 = set_status x r e"
      "applyDerived (cs_entries s) e = Some e2" and ok: "claims_ok (extend cid (max n (cs_next s)) e2 s)" .
  have "claims_inv root (extend cid (max n (cs_next s)) e2 s)"
    using inv ok number entry e2(2) by (auto simp: claims_inv_def extend_def next_number_snoc)
  with e2 show ?thesis by (rule that)
qed

section \<open>Operations keep the invariant\<close>

lemma add_anchor_ok:
  assumes "add_anchor hash files root a = Inr b" and "\<forall>x. hash x \<noteq> ''''"
  shows "an_hash b \<noteq> '''' \<and> normalizePath root (an_path a) = Inr (an_path b)"
  using assms by (auto simp: add_anchor_def hashAnchor_def hashSpan_def split: sum.splits option.splits if_splits)

lemma add_anchors_ok:
  "add_anchors hash files root as = Inr bs \<Longrightarrow> \<forall>x. hash x \<noteq> '''' \<Longrightarrow>
   (bs = [] \<longleftrightarrow> as = []) \<and> (\<forall>b \<in> set bs. an_hash b \<noteq> '''' \<and> (\<exists>p. normalizePath root p = Inr (an_path b)))"
proof (induction as arbitrary: bs)
  case (Cons a as)
  from Cons.prems obtain b cs where b: "add_anchor hash files root a = Inr b" "add_anchors hash files root as = Inr cs" "bs = b # cs"
    by (auto split: sum.splits)
  from add_anchor_ok [OF b(1) Cons.prems(2)] Cons.IH [OF b(2) Cons.prems(2)] b(3) show ?case by auto
qed simp

lemma add_parents_ok: "add_parents m seen pids = Inr ps \<Longrightarrow> set ps \<subseteq> dom m"
  by (induction m seen pids arbitrary: ps rule: add_parents.induct) (auto split: if_splits sum.splits)

lemma fresh_number:
  assumes "claims_inv root s" and "cs_next s < 9223372036854775807"
  shows "CHR ''c'' # int_text (cs_next s + 1) \<notin> set (cs_order s)" and "0 \<le> cs_next s"
    and "id_number (CHR ''c'' # int_text (cs_next s + 1)) = Some (cs_next s + 1)"
    and "wrap_int (cs_next s + 1) = cs_next s + 1"
proof -
  note ge0 = next_number_ge [of "cs_order s"]
  show ge: "0 \<le> cs_next s" using assms(1) ge0 by (simp add: claims_inv_def)
  show number: "id_number (CHR ''c'' # int_text (cs_next s + 1)) = Some (cs_next s + 1)"
    using ge assms(2) by (simp add: id_number_fresh)
  show "wrap_int (cs_next s + 1) = cs_next s + 1" using ge assms(2) by (rule wrap_small)
  show "CHR ''c'' # int_text (cs_next s + 1) \<notin> set (cs_order s)"
  proof
    assume "CHR ''c'' # int_text (cs_next s + 1) \<in> set (cs_order s)"
    with ge0 have "the (id_number (CHR ''c'' # int_text (cs_next s + 1))) \<le> next_number (cs_order s)" by blast
    then have "cs_next s + 1 \<le> next_number (cs_order s)" unfolding number by simp
    moreover have "cs_next s = next_number (cs_order s)" using assms(1) by (simp only: claims_inv_def)
    ultimately show False by simp
  qed
qed

lemma Add_step:
  assumes inv: "claims_inv root s" and lim: "cs_next s < 9223372036854775807" and hash: "\<forall>x. hash x \<noteq> ''''"
  obtains r s' where "Add hash files root inp s = Some (r, s')" and "claims_inv root s'"
proof (cases "trim_space (ci_text inp) = '''' \<or> ci_anchors inp = [] \<or>
    (\<exists>e. add_anchors hash files root (ci_anchors inp) = Inl e) \<or> (\<exists>e. add_parents (cs_entries s) [] (ci_derived inp) = Inl e)")
  case True
  then have "\<exists>e. Add hash files root inp s = Some (Inl e, s)"
    by (cases "add_anchors hash files root (ci_anchors inp)") (auto simp: Add_def)
  with inv that show ?thesis by blast
next
  case False
  then obtain as ps where anch: "add_anchors hash files root (ci_anchors inp) = Inr as"
    and ps: "add_parents (cs_entries s) [] (ci_derived inp) = Inr ps" by (metis sum.exhaust)
  let ?cid = "CHR ''c'' # int_text (cs_next s + 1)"
  define c where "c = \<lparr>cl_id = ?cid, cl_text = trim_space (ci_text inp), cl_anchors = as,
                      cl_derived = ps, cl_evidence = ci_evidence inp, cl_status = StatusLive, cl_reason = ''''\<rparr>"
  define e where "e = \<lparr>en_claim = c, en_own = ''''\<rparr>"
  have c: "cl_id c = ?cid" by (simp add: c_def)
  note fresh = fresh_number [OF inv lim]
  have "entry_ok root e"
    using False trim_again [of "ci_text inp"] add_anchors_ok [OF anch hash] by (simp add: entry_ok_def e_def c_def)
  moreover have "set (cl_derived (en_claim e)) \<subseteq> set (cs_order s)"
    using add_parents_ok [OF ps] inv by (auto simp: e_def c_def claims_inv_def claims_ok_def structured_def)
  moreover have "1 \<le> cs_next s + 1" and "cl_id (en_claim e) = ?cid" using fresh(2) by (simp_all add: e_def c)
  ultimately obtain e2 x r where e2: "applyDerived ((cs_entries s)(?cid \<mapsto> e)) e = Some e2" "e2 = set_status x r e"
    and inv2: "claims_inv root (extend ?cid (max (cs_next s + 1) (cs_next s)) e2 s)"
    using extend_inv [OF inv fresh(1) _ _ fresh(3)] by metis
  have "Add hash files root inp s = Some (Inr (en_claim e2), extend ?cid (max (cs_next s + 1) (cs_next s)) e2 s)"
    using False anch ps e2 fresh(4) by (simp add: Add_def Let_def put_entry_def extend_def c_def e_def)
  from that [OF this inv2] show ?thesis .
qed

lemma touch_entry_ok [simp]: "entry_ok root (touch hash files root' wanted e) = entry_ok root e"
  by (simp add: entry_ok_def touch_def recheck_anchors)

lemma Refresh_step:
  assumes inv: "claims_inv root s"
  obtains chs s' where "Refresh hash files root paths s = Some (chs, s')" and "claims_inv root s'"
    and "cs_order s' = cs_order s" and "cs_next s' = cs_next s"
    and "\<forall>cid e. cs_entries s cid = Some e \<longrightarrow> (\<exists>x r. cs_entries s' cid = Some (set_status x r (touch hash files root
       (\<lambda>p. paths = [] \<or> Inr p \<in> set (filter (\<lambda>r. \<not> isl r) (map (normalizePath root) paths))) e)))"
proof -
  let ?wanted = "\<lambda>p. paths = [] \<or> Inr p \<in> set (filter (\<lambda>r. \<not> isl r) (map (normalizePath root) paths))"
  have st: "structured s" and dom: "dom (cs_entries s) = set (cs_order s)"
    using inv by (auto simp: claims_inv_def claims_ok_def structured_def)
  from refresh_all_spec [OF st, of "[]" "cs_order s" hash files root ?wanted] obtain chs s' where
    run: "refresh_all hash files root ?wanted (cs_order s) s = Some (chs, s')" and ok: "claims_ok s'"
    and frame: "cs_order s' = cs_order s" "cs_next s' = cs_next s"
    and each: "\<forall>cid \<in> set (cs_order s). \<exists>e x r. cs_entries s cid = Some e \<and> cs_entries s' cid = Some (set_status x r (touch hash files root ?wanted e))"
    by auto
  have dom': "dom (cs_entries s') = set (cs_order s)" using ok frame by (simp add: claims_ok_def structured_def)
  have all: "\<forall>cid e. cs_entries s cid = Some e \<longrightarrow> (\<exists>x r. cs_entries s' cid = Some (set_status x r (touch hash files root ?wanted e)))"
  proof (intro allI impI)
    fix cid e assume e: "cs_entries s cid = Some e"
    with dom have "cid \<in> set (cs_order s)" by blast
    with each obtain e' x r where "cs_entries s cid = Some e'"
      "cs_entries s' cid = Some (set_status x r (touch hash files root ?wanted e'))" by blast
    with e show "\<exists>x r. cs_entries s' cid = Some (set_status x r (touch hash files root ?wanted e))" by auto
  qed
  have "entry_ok root e'" if "cs_entries s' cid = Some e'" for cid e'
  proof -
    from that dom' have "cid \<in> set (cs_order s)" by blast
    with each obtain e x r where e: "cs_entries s cid = Some e"
      and "cs_entries s' cid = Some (set_status x r (touch hash files root ?wanted e))" by blast
    with that have "e' = set_status x r (touch hash files root ?wanted e)" by simp
    moreover have "entry_ok root e" using inv e by (simp only: claims_inv_def)
    ultimately show ?thesis by simp
  qed
  with inv ok frame have "claims_inv root s'" by (simp add: claims_inv_def)
  moreover have "Refresh hash files root paths s = Some (chs, s')" using run by (simp add: Refresh_def Let_def)
  ultimately show ?thesis using that frame all by blast
qed

section \<open>Restoring\<close>

text \<open>An anchor path that is blank is refused when it is normalised again.\<close>

definition paths_visible :: "claim \<Rightarrow> bool" where
  "paths_visible c = (\<forall>a \<in> set (cl_anchors c). trim_space (an_path a) \<noteq> '''')"

lemma restore_anchors_ok:
  "restore_anchors root as = Inr bs \<Longrightarrow>
   (bs = [] \<longleftrightarrow> as = []) \<and> (\<forall>b \<in> set bs. an_hash b \<noteq> '''' \<and> (\<exists>p. normalizePath root p = Inr (an_path b)))"
proof (induction as arbitrary: bs)
  case (Cons a as)
  from Cons.prems obtain rel cs where "normalizePath root (an_path a) = Inr rel" "an_hash a \<noteq> ''''"
    "restore_anchors root as = Inr cs" "bs = a\<lparr>an_path := rel\<rparr> # cs"
    by (auto split: sum.splits if_splits)
  with Cons.IH [of cs] show ?case by auto
qed simp

lemma restore_anchors_same:
  assumes "is_abs root" and "\<forall>a \<in> set as. an_hash a \<noteq> '''' \<and> (\<exists>p. normalizePath root p = Inr (an_path a)) \<and> trim_space (an_path a) \<noteq> ''''"
  shows "restore_anchors root as = Inr as"
  using assms(2)
proof (induction as)
  case (Cons a as)
  from Cons.prems obtain p where "normalizePath root p = Inr (an_path a)" "trim_space (an_path a) \<noteq> ''''" "an_hash a \<noteq> ''''" by auto
  with normalize_idem [OF assms(1) this(1,2)] Cons show ?case by simp
qed simp

definition restored_own :: "claim \<Rightarrow> string" where
  "restored_own c = (if cl_status c = StatusStale then (if cl_reason c = '''' then ''anchor changed'' else cl_reason c) else '''')"

lemma restore_one_inr:
  assumes "claims_inv root s" and "restore_one root c s = Some r"
  shows "case r of Inl e \<Rightarrow> True | Inr s' \<Rightarrow> claims_inv root s'"
proof (cases r)
  case (Inr s')
  note res = assms(2) [unfolded Inr restore_one_def]
  from res have fresh: "cs_entries s (cl_id c) = None" by (auto split: if_splits)
  with res obtain n where n: "id_number (cl_id c) = Some n"
    by (auto simp: id_number_def split: option.splits if_splits)
  note res2 = res [folded id_number_def, unfolded n option.case]
  from res2 have le: "1 \<le> n" and named: "trim_space (cl_text c) \<noteq> ''''" "cl_anchors c \<noteq> []"
    by (auto split: if_splits)
  from res2 obtain anchs where anch: "restore_anchors root (cl_anchors c) = Inr anchs"
    by (cases "restore_anchors root (cl_anchors c)") (auto split: if_splits)
  from res2 anch have parents: "\<forall>p \<in> set (cl_derived c). cs_entries s p \<noteq> None"
    by (auto simp: list_ex_iff split: if_splits)
  let ?e = "\<lparr>en_claim = c\<lparr>cl_anchors := anchs\<rparr>, en_own = restored_own c\<rparr>"
  have dom: "dom (cs_entries s) = set (cs_order s)" using assms(1) by (simp add: claims_inv_def claims_ok_def structured_def)
  have "cl_id c \<notin> set (cs_order s)" using dom fresh by blast
  moreover have "set (cl_derived (en_claim ?e)) \<subseteq> set (cs_order s)" using parents dom by auto
  moreover have id_eq: "cl_id (en_claim ?e) = cl_id c" by simp
  moreover have "entry_ok root ?e" using named restore_anchors_ok [OF anch] by (auto simp: entry_ok_def)
  ultimately obtain e2 x r where e2: "applyDerived ((cs_entries s)(cl_id c \<mapsto> ?e)) ?e = Some e2" "e2 = set_status x r ?e"
    and inv: "claims_inv root (extend (cl_id c) (max n (cs_next s)) e2 s)"
    using extend_inv [OF assms(1) _ id_eq _ n le] by metis
  have "s' = extend (cl_id c) (max n (cs_next s)) e2 s"
    using res2 anch e2 by (auto simp: restored_own_def [symmetric] Let_def put_entry_def extend_def split: if_splits)
  with inv Inr show ?thesis by simp
qed simp

lemma restore_all_inv:
  "claims_inv root s \<Longrightarrow> restore_all root saved s = Some (Inr s') \<Longrightarrow> claims_inv root s'"
proof (induction saved arbitrary: s)
  case (Cons c saved)
  then obtain s1 where "restore_one root c s = Some (Inr s1)" "restore_all root saved s1 = Some (Inr s')"
    by (auto split: option.splits sum.splits)
  with restore_one_inr [OF Cons.prems(1) this(1)] Cons.IH [of s1] show ?case by simp
qed simp

lemma Restore_inv: "Restore root saved = Some (Inr s) \<Longrightarrow> claims_inv root s"
  unfolding Restore_def by (rule restore_all_inv [OF empty_inv])

subsection \<open>Saving and restoring\<close>

definition cut :: "claim_store \<Rightarrow> string list \<Rightarrow> claim_store" where
  "cut s ids = \<lparr>cs_entries = (cs_entries s) |` set ids, cs_order = ids, cs_next = next_number ids\<rparr>"

lemma cut_all: "claims_inv root s \<Longrightarrow> cut s (cs_order s) = s"
proof (rule claim_store.equality)
  assume inv: "claims_inv root s"
  then have "dom (cs_entries s) = set (cs_order s)" by (simp add: claims_inv_def claims_ok_def structured_def)
  then show "cs_entries (cut s (cs_order s)) = cs_entries s" unfolding cut_def claim_store.select_convs by (metis restrict_map_def domIff ext)
  show "cs_next (cut s (cs_order s)) = cs_next s" using inv by (simp add: cut_def claims_inv_def)
qed (simp_all add: cut_def)

lemma status_saved:
  assumes "claims_ok s" and "cs_entries s cid = Some e"
  shows "cl_status (en_claim e) \<in> {StatusLive, StatusStale, StatusDoubted}" and "restored_own (en_claim e) = en_own e"
proof -
  have "cid \<in> set (cs_order s)" using assms by (auto simp: claims_ok_def structured_def)
  with assms have e: "applyDerived (cs_entries s) e = Some e" by (simp add: claims_ok_def consistent_at_def)
  from applyDerived_cases [OF this] obtain x r where x: "e = set_status x r e" "x = StatusStale \<longleftrightarrow> en_own e \<noteq> ''''"
    "x \<in> {StatusLive, StatusStale, StatusDoubted}" by blast
  from x(1) have status: "cl_status (en_claim e) = x" by (metis set_status_fields(7))
  with x(3) show "cl_status (en_claim e) \<in> {StatusLive, StatusStale, StatusDoubted}" by simp
  show "restored_own (en_claim e) = en_own e"
  proof (cases "en_own e = ''''")
    case True
    with x(2) status show ?thesis by (simp add: restored_own_def)
  next
    case False
    then have "e = set_status StatusStale (en_own e) e" using e by (simp add: applyDerived_def)
    then have "cl_reason (en_claim e) = en_own e" by (metis set_status_fields(8))
    with False x(2) status show ?thesis by (simp add: restored_own_def)
  qed
qed

lemma restore_next:
  assumes inv: "claims_inv root s" and root: "is_abs root" and split: "cs_order s = before @ cid # after"
    and e: "cs_entries s cid = Some e" and visible: "paths_visible (en_claim e)"
  shows "restore_one root (en_claim e) (cut s before) = Some (Inr (cut s (before @ [cid])))"
proof -
  have ok: "claims_ok s" using inv by (simp only: claims_inv_def)
  then have st: "structured s" by (simp only: claims_ok_def)
  have cid: "cl_id (en_claim e) = cid" using st e by (simp only: structured_def)
  have fresh: "cid \<notin> set before" and parents: "set (cl_derived (en_claim e)) \<subseteq> set before"
    using structured_parents [OF st split e] by auto
  obtain n where n: "id_number cid = Some n" "1 \<le> n" using inv split by (auto simp: claims_inv_def)
  have entry: "entry_ok root e" using inv e by (simp only: claims_inv_def)
  have anch: "restore_anchors root (cl_anchors (en_claim e)) = Inr (cl_anchors (en_claim e))"
    using entry visible by (intro restore_anchors_same [OF root]) (simp add: entry_ok_def paths_visible_def)
  note status = status_saved [OF ok e]
  have dom: "dom (cs_entries s) = set (cs_order s)" using st by (simp only: structured_def)
  have known: "\<not> list_ex (\<lambda>pid. cs_entries (cut s before) pid = None) (cl_derived (en_claim e))"
    using parents dom by (auto simp: list_ex_iff cut_def restrict_map_def split)
  have same: "\<lparr>en_claim = (en_claim e)\<lparr>cl_anchors := cl_anchors (en_claim e)\<rparr>, en_own = restored_own (en_claim e)\<rparr> = e"
    by (simp add: status(2))
  have "applyDerived ((cs_entries (cut s before))(cid \<mapsto> e)) e = applyDerived (cs_entries s) e"
    using parents fresh by (intro applyDerived_cong) (auto simp: cut_def)
  also have "\<dots> = Some e" using ok e split by (simp add: claims_ok_def consistent_at_def)
  finally have own: "applyDerived ((cs_entries (cut s before))(cid \<mapsto> e)) e = Some e" .
  have "cs_entries (cut s before) cid = None" using fresh by (simp add: cut_def)
  moreover have "(if has_prefix cid ''c'' then atoi (trim_prefix cid ''c'') else None) = Some n"
    using n(1) by (simp only: id_number_def)
  moreover have "cut s (before @ [cid]) = (put_entry e ((put_entry e (cut s before))\<lparr>cs_order := cs_order (cut s before) @ [cid],
      cs_next := max n (cs_next (cut s before))\<rparr>))"
    using e n(1) by (auto simp: cut_def put_entry_def cid next_number_snoc restrict_map_def)
  ultimately show ?thesis
    unfolding restore_one_def Let_def cid using n(2) entry status(1) anch known own
    by (simp add: entry_ok_def restored_own_def [symmetric] same [simplified] put_entry_def cid)
qed

lemma restore_rest:
  assumes inv: "claims_inv root s" and root: "is_abs root"
    and visible: "\<forall>cid e. cs_entries s cid = Some e \<longrightarrow> paths_visible (en_claim e)"
  shows "cs_order s = before @ ids \<Longrightarrow>
    restore_all root (map (\<lambda>cid. en_claim (the (cs_entries s cid))) ids) (cut s before) = Some (Inr s)"
proof (induction ids arbitrary: before)
  case Nil
  then show ?case using cut_all [OF inv] by simp
next
  case (Cons cid ids)
  have st: "structured s" using inv by (simp only: claims_inv_def claims_ok_def)
  from structured_entry [OF st, of cid] Cons.prems obtain e where e: "cs_entries s cid = Some e" by auto
  with visible have "paths_visible (en_claim e)" by blast
  from restore_next [OF inv root Cons.prems e this] Cons.IH [of "before @ [cid]"] Cons.prems e show ?case by simp
qed

lemma list_total:
  assumes "claims_inv root s"
  shows "claim_List s = Some (map (\<lambda>cid. en_claim (the (cs_entries s cid))) (cs_order s))"
proof -
  have "structured s" using assms by (simp only: claims_inv_def claims_ok_def)
  from structured_entry [OF this] have "\<forall>cid \<in> set (cs_order s). cs_entries s cid \<noteq> None" by blast
  then have "those (map (\<lambda>cid. map_option en_claim (cs_entries s cid)) ids) = Some (map (\<lambda>cid. en_claim (the (cs_entries s cid))) ids)"
    if "set ids \<subseteq> set (cs_order s)" for ids using that by (induction ids) auto
  then show ?thesis by (simp add: claim_List_def)
qed

lemma restore_list:
  assumes "claims_inv root s" and "is_abs root" and "\<forall>cid e. cs_entries s cid = Some e \<longrightarrow> paths_visible (en_claim e)"
  shows "\<exists>saved. claim_List s = Some saved \<and> Restore root saved = Some (Inr s)"
proof -
  have "cut s [] = empty_claims" by (simp add: cut_def empty_claims_def next_number_def)
  with restore_rest [OF assms, of "[]"] list_total [OF assms(1)] show ?thesis by (simp add: Restore_def)
qed

section \<open>What a refresh does\<close>

inductive claims_reach :: "(string \<Rightarrow> string) \<Rightarrow> string \<Rightarrow> claim_store \<Rightarrow> bool" for hash root where
  reach_start: "claims_reach hash root empty_claims"
| reach_restore: "Restore root saved = Some (Inr s) \<Longrightarrow> claims_reach hash root s"
| reach_add: "claims_reach hash root s \<Longrightarrow> cs_next s < 9223372036854775807 \<Longrightarrow> Add hash files root inp s = Some (r, s') \<Longrightarrow>
    claims_reach hash root s'"
| reach_refresh: "claims_reach hash root s \<Longrightarrow> Refresh hash files root paths s = Some (chs, s') \<Longrightarrow> claims_reach hash root s'"

lemma reach_inv:
  assumes "claims_reach hash root s" and "\<forall>x. hash x \<noteq> ''''"
  shows "claims_inv root s"
  using assms
proof (induction rule: claims_reach.induct)
  case reach_start
  show ?case by (rule empty_inv)
next
  case (reach_restore saved s)
  then show ?case by (intro Restore_inv)
next
  case (reach_add s files inp r s')
  then show ?case by (metis Add_step [of root s hash files inp] option.inject prod.inject)
next
  case (reach_refresh s files paths chs s')
  then show ?case by (metis Refresh_step [of root s hash files paths] option.inject prod.inject)
qed

text \<open>A claim is grounded when its own anchors and those of all it derives from are in place.\<close>

definition grounded :: "(string \<Rightarrow> string) \<Rightarrow> workspace \<Rightarrow> string \<Rightarrow> claim_store \<Rightarrow> string \<Rightarrow> bool" where
  "grounded hash files root s cid =
     (\<forall>a e. (cid, a) \<in> (derives s)\<^sup>* \<longrightarrow> cs_entries s a = Some e \<longrightarrow> own_ok hash files root e)"

definition status_after :: "(string \<Rightarrow> string) \<Rightarrow> workspace \<Rightarrow> string \<Rightarrow> claim_store \<Rightarrow> string \<Rightarrow> claim_status option" where
  "status_after hash files root s cid = (case cs_entries s cid of None \<Rightarrow> None
     | Some e \<Rightarrow> Some (if \<not> own_ok hash files root e then StatusStale
         else if grounded hash files root s cid then StatusLive else StatusDoubted))"

definition status_of :: "claim_store \<Rightarrow> string \<Rightarrow> claim_status option" where
  "status_of s cid = map_option (\<lambda>e. cl_status (en_claim e)) (cs_entries s cid)"

lemma Refresh_full:
  assumes inv: "claims_inv root s" and run: "Refresh hash files root [] s = Some (chs, s')"
  shows "claims_inv root s'" and "dom (cs_entries s') = dom (cs_entries s)"
    and "cs_entries s cid = Some e \<Longrightarrow> \<exists>x r. cs_entries s' cid = Some (set_status x r (recheck hash files root e))"
    and "derives s' = derives s"
proof -
  from Refresh_step [OF inv, of hash files "[]"] run have inv': "claims_inv root s'" and order: "cs_order s' = cs_order s"
    and each: "\<forall>cid e. cs_entries s cid = Some e \<longrightarrow> (\<exists>x r. cs_entries s' cid = Some (set_status x r (touch hash files root (\<lambda>p. True) e)))"
    by auto
  show "claims_inv root s'" by (rule inv')
  have all: "\<exists>x r. cs_entries s' cid = Some (set_status x r (recheck hash files root e))" if e: "cs_entries s cid = Some e" for cid e
  proof -
    have "entry_ok root e" using inv e by (simp only: claims_inv_def)
    then have "cl_anchors (en_claim e) \<noteq> []" by (simp add: entry_ok_def)
    then have "touch hash files root (\<lambda>p. True) e = recheck hash files root e"
      by (cases "cl_anchors (en_claim e)") (simp_all add: touch_def)
    with each e show ?thesis by metis
  qed
  show "cs_entries s cid = Some e \<Longrightarrow> \<exists>x r. cs_entries s' cid = Some (set_status x r (recheck hash files root e))" by (rule all)
  show dom: "dom (cs_entries s') = dom (cs_entries s)"
    using inv inv' order by (simp add: claims_inv_def claims_ok_def structured_def)
  have "(\<exists>e'. cs_entries s' c = Some e' \<and> p \<in> set (cl_derived (en_claim e'))) =
      (\<exists>e. cs_entries s c = Some e \<and> p \<in> set (cl_derived (en_claim e)))" for c p
  proof (cases "cs_entries s c")
    case None
    with dom have "cs_entries s' c = None" by blast
    with None show ?thesis by simp
  next
    case (Some e)
    with all [OF Some] show ?thesis by auto
  qed
  then show "derives s' = derives s" by (simp add: derives_def)
qed

lemma Refresh_own:
  assumes "claims_inv root s" and "Refresh hash files root [] s = Some (chs, s')"
  shows "cs_entries s cid = Some e \<Longrightarrow> \<exists>e'. cs_entries s' cid = Some e' \<and> (en_own e' = '''' \<longleftrightarrow> own_ok hash files root e) \<and>
    (\<forall>f. own_ok hash f root e' = own_ok hash f root e)"
proof -
  assume "cs_entries s cid = Some e"
  from Refresh_full(3) [OF assms this] obtain x r where
    "cs_entries s' cid = Some (set_status x r (recheck hash files root e))" by blast
  moreover have "own_ok hash f root (set_status x r (recheck hash files root e)) = own_ok hash f root e" for f
    using own_ok_recheck [of hash f root files e] by (simp add: own_ok_def)
  ultimately show ?thesis by (simp add: recheck_own)
qed

lemma status_after_refresh:
  assumes inv: "claims_inv root s" and run: "Refresh hash files root [] s = Some (chs, s')"
  shows "status_of s' cid = status_after hash files root s cid"
proof (cases "cs_entries s cid")
  case None
  with Refresh_full(2) [OF assms] have "cs_entries s' cid = None" by blast
  with None show ?thesis by (simp add: status_of_def status_after_def)
next
  case (Some e)
  from Refresh_own [OF assms Some] obtain e' where e': "cs_entries s' cid = Some e'" "en_own e' = '''' \<longleftrightarrow> own_ok hash files root e" by blast
  have ok: "claims_ok s'" using Refresh_full(1) [OF assms] by (simp only: claims_inv_def)
  have "cid \<in> set (cs_order s')" using e' ok by (auto simp: claims_ok_def structured_def)
  then obtain before after where split: "cs_order s' = before @ cid # after" by (auto simp: in_set_conv_decomp)
  have reason: "own_reason s' a = '''' \<longleftrightarrow> (\<forall>x. cs_entries s a = Some x \<longrightarrow> own_ok hash files root x)" for a
  proof (cases "cs_entries s a")
    case None
    with Refresh_full(2) [OF assms] have "cs_entries s' a = None" by blast
    with None show ?thesis by (simp add: own_reason_def)
  next
    case (Some x)
    from Refresh_own [OF assms Some] obtain y where "cs_entries s' a = Some y" "en_own y = '''' \<longleftrightarrow> own_ok hash files root x" by blast
    with Some show ?thesis by (simp add: own_reason_def)
  qed
  have "live_claim s' cid \<longleftrightarrow> grounded hash files root s cid"
    unfolding live_iff [OF ok split] Refresh_full(4) [OF assms] grounded_def reason by (simp only: all_simps)
  with live_step(2) [OF ok e'(1)] have "cl_status (en_claim e') = (if \<not> own_ok hash files root e then StatusStale
      else if grounded hash files root s cid then StatusLive else StatusDoubted)" by (simp only: e'(2) simp_thms)
  with e'(1) Some show ?thesis by (simp only: status_of_def status_after_def option.map option.case)
qed

text \<open>Refreshing twice with the same files.\<close>

lemma recheck_set_status: "recheck hash files root (set_status x r e) = set_status x r (recheck hash files root e)"
  by (simp add: recheck_def set_status_def Let_def)

lemma touch_again: "touch hash files root wanted (set_status x r (touch hash files root wanted e)) = set_status x r (touch hash files root wanted e)"
proof -
  have paths: "list_ex (\<lambda>a. wanted (an_path a)) (cl_anchors (en_claim (recheck hash files root e))) =
      list_ex (\<lambda>a. wanted (an_path a)) (cl_anchors (en_claim e))" by (simp add: recheck_anchors list_ex_iff)
  show ?thesis
  proof (cases "list_ex (\<lambda>a. wanted (an_path a)) (cl_anchors (en_claim e))")
    case True
    then show ?thesis unfolding touch_def set_status_fields if_P [OF True] paths recheck_set_status recheck_idem by simp
  next
    case False
    then show ?thesis unfolding touch_def set_status_fields if_not_P [OF False] by simp
  qed
qed

lemma refresh_fixed:
  assumes ok: "claims_ok s" and fixed: "\<forall>cid e. cs_entries s cid = Some e \<longrightarrow> touch hash files root wanted e = e"
  shows "set ids \<subseteq> set (cs_order s) \<Longrightarrow> refresh_all hash files root wanted ids s = Some ([], s)"
proof (induction ids)
  case (Cons cid ids)
  have "structured s" using ok by (simp only: claims_ok_def)
  from structured_entry [OF this, of cid] Cons.prems obtain e where e: "cs_entries s cid = Some e" by auto
  have "applyDerived (cs_entries s) e = Some e" using ok e Cons.prems by (auto simp: claims_ok_def consistent_at_def)
  moreover have "(cs_entries s)(cid \<mapsto> e) = cs_entries s" using e by auto
  ultimately have "refresh_one hash files root wanted cid s = Some ([], s)"
    using fixed e by (simp add: refresh_one_def Let_def touch_def [symmetric])
  with Cons show ?case by simp
qed simp

lemma Refresh_again:
  assumes inv: "claims_inv root s" and run: "Refresh hash files root paths s = Some (chs, s')"
  shows "Refresh hash files root paths s' = Some ([], s')"
proof -
  let ?wanted = "\<lambda>p. paths = [] \<or> Inr p \<in> set (filter (\<lambda>r. \<not> isl r) (map (normalizePath root) paths))"
  from Refresh_step [OF inv, of hash files paths] run have inv': "claims_inv root s'" and order: "cs_order s' = cs_order s"
    and each: "\<forall>cid e. cs_entries s cid = Some e \<longrightarrow> (\<exists>x r. cs_entries s' cid = Some (set_status x r (touch hash files root ?wanted e)))"
    by auto
  have dom: "dom (cs_entries s') = dom (cs_entries s)"
    using inv inv' order by (simp add: claims_inv_def claims_ok_def structured_def)
  have "touch hash files root ?wanted e' = e'" if "cs_entries s' cid = Some e'" for cid e'
  proof -
    from that dom obtain e where "cs_entries s cid = Some e" by blast
    with each that obtain x r where "e' = set_status x r (touch hash files root ?wanted e)" by fastforce
    then show ?thesis by (simp only: touch_again)
  qed
  moreover have "claims_ok s'" using inv' by (simp only: claims_inv_def)
  ultimately show ?thesis using refresh_fixed [of s' hash files root ?wanted "cs_order s'"] by (simp add: Refresh_def Let_def)
qed

lemma restore_one_total: "restore_one root c s \<noteq> None"
proof -
  have derived: "applyDerived ((cs_entries s)(cl_id c \<mapsto> y)) \<lparr>en_claim = c\<lparr>cl_anchors := xs\<rparr>, en_own = w\<rparr> \<noteq> None"
    if "\<not> list_ex (\<lambda>pid. cs_entries s pid = None) (cl_derived c)" for y xs w
    using that applyDerived_total [of "\<lparr>en_claim = c\<lparr>cl_anchors := xs\<rparr>, en_own = w\<rparr>" "(cs_entries s)(cl_id c \<mapsto> y)"]
    by (auto simp: list_ex_iff)
  show ?thesis
  proof (cases "list_ex (\<lambda>pid. cs_entries s pid = None) (cl_derived c)")
    case True
    then show ?thesis by (simp add: restore_one_def split: option.split sum.split)
  next
    case False
    then show ?thesis
      using derived [OF False] by (simp del: not_None_eq add: restore_one_def Let_def put_entry_def split: option.split sum.split)
  qed
qed

lemma Restore_total: "Restore root saved \<noteq> None"
proof -
  have "restore_all root saved s \<noteq> None" for s
  proof (induction saved arbitrary: s)
    case (Cons c saved)
    then show ?case using restore_one_total [of root c s] by (auto split: option.splits sum.splits)
  qed simp
  then show ?thesis by (simp add: Restore_def)
qed

section \<open>Properties\<close>

text \<open>A small session: a claim on the second line of a file, and one derived from it.\<close>

definition demo_hash :: "string \<Rightarrow> string" where
  "demo_hash x = CHR ''h'' # x"

definition demo_files :: "string \<Rightarrow> workspace" where
  "demo_files content = [''/r/a.go'' \<mapsto> content]"

definition demo_anchor :: "int \<Rightarrow> anchor" where
  "demo_anchor n = \<lparr>an_path = ''./a.go'', an_start = n, an_end = n, an_symbol = '''', an_hash = ''''\<rparr>"

definition demo_input :: "int \<Rightarrow> string list \<Rightarrow> claim_input" where
  "demo_input n parents = \<lparr>ci_text = '' fact '', ci_anchors = [demo_anchor n], ci_derived = parents, ci_evidence = ''''\<rparr>"

definition demo_one :: claim_store where
  "demo_one = snd (the (Add demo_hash (demo_files [CHR ''a'', CHR 0x0A, CHR ''b'']) ''/r'' (demo_input 2 []) empty_claims))"

definition demo_two :: claim_store where
  "demo_two = snd (the (Add demo_hash (demo_files [CHR ''a'', CHR 0x0A, CHR ''b'']) ''/r'' (demo_input 1 [''c1'']) demo_one))"

lemma demo_hash_nonempty: "\<forall>x. demo_hash x \<noteq> ''''"
  by (simp add: demo_hash_def)

lemma demo_added:
  "Add demo_hash (demo_files [CHR ''a'', CHR 0x0A, CHR ''b'']) ''/r'' (demo_input 2 []) empty_claims \<noteq> None"
  "Add demo_hash (demo_files [CHR ''a'', CHR 0x0A, CHR ''b'']) ''/r'' (demo_input 1 [''c1'']) demo_one \<noteq> None"
  "cs_next empty_claims < 9223372036854775807" "cs_next demo_one < 9223372036854775807"
  by code_simp+

lemma reach_add_step:
  assumes "claims_reach hash root s" and "cs_next s < 9223372036854775807" and "Add hash files root inp s \<noteq> None"
  shows "claims_reach hash root (snd (the (Add hash files root inp s)))"
proof -
  from assms(3) obtain r s' where "Add hash files root inp s = Some (r, s')" by (cases "Add hash files root inp s") auto
  with reach_add [OF assms(1,2) this] show ?thesis by simp
qed

lemma demo_reach: "claims_reach demo_hash ''/r'' demo_two"
  unfolding demo_two_def
  by (intro reach_add_step demo_added) (unfold demo_one_def, intro reach_add_step reach_start demo_added)

lemma demo_refresh:
  assumes "claims_reach demo_hash ''/r'' s"
  obtains chs s' where "Refresh demo_hash files ''/r'' paths s = Some (chs, s')"
  using Refresh_step [OF reach_inv [OF assms demo_hash_nonempty]] by metis

text \<open>
  C9. After a refresh of everything, a claim is stale exactly when one of its own anchors is gone,
  live exactly when its anchors and those of every claim it is derived from, directly or not, are in
  place, and doubted otherwise.
\<close>

theorem refresh_truth:
  assumes "claims_reach hash root s" and "\<forall>x. hash x \<noteq> ''''" and "Refresh hash files root [] s = Some (chs, s')"
  shows "status_of s' cid = status_after hash files root s cid"
  by (rule status_after_refresh [OF reach_inv [OF assms(1,2)] assms(3)])

text \<open>
  C34. The statuses after a refresh depend on the files alone: refreshing on other contents in between
  changes nothing, so a claim whose content comes back is live again.
\<close>

theorem refresh_forgets:
  assumes "claims_reach hash root s" and "\<forall>x. hash x \<noteq> ''''"
    and "Refresh hash files1 root [] s = Some (chs1, s1)" and "Refresh hash files2 root [] s1 = Some (chs2, s2)"
    and "Refresh hash files2 root [] s = Some (chs3, s3)"
  shows "status_of s2 cid = status_of s3 cid"
proof -
  note inv = reach_inv [OF assms(1,2)]
  note step = assms(3)
  have inv1: "claims_inv root s1" by (rule Refresh_full(1) [OF inv step])
  have own: "(\<forall>e. cs_entries s1 a = Some e \<longrightarrow> own_ok hash files2 root e) \<longleftrightarrow> (\<forall>e. cs_entries s a = Some e \<longrightarrow> own_ok hash files2 root e)" for a
  proof (cases "cs_entries s a")
    case None
    with Refresh_full(2) [OF inv step] have "cs_entries s1 a = None" by blast
    with None show ?thesis by simp
  next
    case (Some e)
    from Refresh_own [OF inv step Some] Some show ?thesis by (metis option.inject)
  qed
  have grounded: "grounded hash files2 root s1 a = grounded hash files2 root s a" for a
    unfolding grounded_def Refresh_full(4) [OF inv step] using own by (metis (no_types))
  have "status_after hash files2 root s1 cid = status_after hash files2 root s cid"
  proof (cases "cs_entries s cid")
    case None
    with Refresh_full(2) [OF inv step] have "cs_entries s1 cid = None" by blast
    with None show ?thesis by (simp only: status_after_def option.case)
  next
    case (Some e)
    from Refresh_own [OF inv step Some] obtain e1 where "cs_entries s1 cid = Some e1"
      "own_ok hash files2 root e1 = own_ok hash files2 root e" by blast
    with Some show ?thesis by (simp only: status_after_def option.case grounded)
  qed
  with status_after_refresh [OF inv1 assms(4)] status_after_refresh [OF inv assms(5)] show ?thesis by simp
qed

text \<open>
  Refreshing the same paths again with the same files changes no claim, no anchor and no status,
  and reports no change.
\<close>

theorem refresh_settles:
  assumes "claims_reach hash root s" and "\<forall>x. hash x \<noteq> ''''" and "Refresh hash files root paths s = Some (chs, s')"
  shows "Refresh hash files root paths s' = Some ([], s')"
  by (rule Refresh_again [OF reach_inv [OF assms(1,2)] assms(3)])

text \<open>
  C17. Saving the claims of a session with \<^verbatim>\<open>List\<close> and restoring them gives back the same store, its
  statuses, reasons, anchors and next number included, as long as no anchored path is blank.
\<close>

theorem restore_roundtrip:
  assumes "claims_reach hash root s" and "\<forall>x. hash x \<noteq> ''''" and "is_abs root"
    and "\<forall>cid e. cs_entries s cid = Some e \<longrightarrow> paths_visible (en_claim e)"
  shows "\<exists>saved. claim_List s = Some saved \<and> Restore root saved = Some (Inr s)"
  by (rule restore_list [OF reach_inv [OF assms(1,2)] assms(3,4)])

text \<open>
  C33. No operation on a session dereferences a missing claim: \<^verbatim>\<open>Add\<close>, \<^verbatim>\<open>Refresh\<close>, \<^verbatim>\<open>List\<close> and
  \<^verbatim>\<open>Restore\<close> always return, and \<^verbatim>\<open>Add\<close> and \<^verbatim>\<open>Refresh\<close> keep the claims listed once, under their own
  identifiers, after the claims they derive from.
\<close>

theorem claims_safe:
  assumes "claims_reach hash root s" and "\<forall>x. hash x \<noteq> ''''" and "cs_next s < 9223372036854775807"
  shows "structured s \<and> claim_List s \<noteq> None \<and> Restore root saved \<noteq> None \<and>
    (\<exists>r s'. Add hash files root inp s = Some (r, s') \<and> structured s') \<and>
    (\<exists>chs s'. Refresh hash files root paths s = Some (chs, s') \<and> structured s' \<and> cs_order s' = cs_order s)"
proof (intro conjI)
  note inv = reach_inv [OF assms(1,2)]
  show "structured s" using inv by (simp only: claims_inv_def claims_ok_def)
  show "claim_List s \<noteq> None" using list_total [OF inv] by simp
  show "Restore root saved \<noteq> None" by (rule Restore_total)
  show "\<exists>r s'. Add hash files root inp s = Some (r, s') \<and> structured s'"
    using Add_step [OF inv assms(3,2), of files inp] by (metis claims_inv_def claims_ok_def)
  show "\<exists>chs s'. Refresh hash files root paths s = Some (chs, s') \<and> structured s' \<and> cs_order s' = cs_order s"
    using Refresh_step [OF inv, of hash files paths] by (metis claims_inv_def claims_ok_def)
qed

section \<open>Witnesses\<close>

lemma demo_statuses:
  "status_of (snd (the (Refresh demo_hash (demo_files ''a'') ''/r'' [] demo_two))) ''c1'' = Some StatusStale"
  "status_of (snd (the (Refresh demo_hash (demo_files ''a'') ''/r'' [] demo_two))) ''c2'' = Some StatusDoubted"
  "status_of (snd (the (Refresh demo_hash (demo_files [CHR ''a'', CHR 0x0A, CHR ''b'']) ''/r'' [] demo_two))) ''c2'' = Some StatusLive"
  "\<forall>cid \<in> set (cs_order demo_two). list_all (\<lambda>a. trim_space (an_path a) \<noteq> '''') (cl_anchors (en_claim (the (cs_entries demo_two cid))))"
  "an_path (hd (cl_anchors (en_claim (the (cs_entries demo_two ''c1''))))) = ''a.go''"
  by code_simp+

theorem refresh_truth_witness:
  "status_after demo_hash (demo_files ''a'') ''/r'' demo_two ''c1'' = Some StatusStale \<and>
   status_after demo_hash (demo_files ''a'') ''/r'' demo_two ''c2'' = Some StatusDoubted"
proof -
  obtain chs s' where run: "Refresh demo_hash (demo_files ''a'') ''/r'' [] demo_two = Some (chs, s')"
    by (rule demo_refresh [OF demo_reach])
  note truth = refresh_truth [OF demo_reach demo_hash_nonempty run]
  show ?thesis using demo_statuses(1,2) by (simp add: run truth)
qed

theorem refresh_forgets_witness:
  "\<exists>chs1 s1 chs2 s2. Refresh demo_hash (demo_files ''a'') ''/r'' [] demo_two = Some (chs1, s1) \<and>
     Refresh demo_hash (demo_files [CHR ''a'', CHR 0x0A, CHR ''b'']) ''/r'' [] s1 = Some (chs2, s2) \<and>
     status_of s1 ''c2'' = Some StatusDoubted \<and> status_of s2 ''c2'' = Some StatusLive"
proof -
  obtain chs1 s1 where one: "Refresh demo_hash (demo_files ''a'') ''/r'' [] demo_two = Some (chs1, s1)"
    by (rule demo_refresh [OF demo_reach])
  have "claims_reach demo_hash ''/r'' s1" by (rule reach_refresh [OF demo_reach one])
  then obtain chs2 s2 where two: "Refresh demo_hash (demo_files [CHR ''a'', CHR 0x0A, CHR ''b'']) ''/r'' [] s1 = Some (chs2, s2)"
    by (rule demo_refresh)
  obtain chs3 s3 where three: "Refresh demo_hash (demo_files [CHR ''a'', CHR 0x0A, CHR ''b'']) ''/r'' [] demo_two = Some (chs3, s3)"
    by (rule demo_refresh [OF demo_reach])
  from refresh_forgets [OF demo_reach demo_hash_nonempty one two three] demo_statuses(3) have "status_of s2 ''c2'' = Some StatusLive"
    by (simp add: three)
  with one two demo_statuses(2) show ?thesis by auto
qed

theorem refresh_settles_witness:
  "\<exists>chs s1. Refresh demo_hash (demo_files ''a'') ''/r'' [''a.go''] demo_two = Some (chs, s1) \<and>
     Refresh demo_hash (demo_files ''a'') ''/r'' [''a.go''] s1 = Some ([], s1)"
proof -
  obtain chs s1 where one: "Refresh demo_hash (demo_files ''a'') ''/r'' [''a.go''] demo_two = Some (chs, s1)"
    by (rule demo_refresh [OF demo_reach])
  with refresh_settles [OF demo_reach demo_hash_nonempty one] show ?thesis by auto
qed

theorem restore_roundtrip_witness:
  "\<exists>saved. claim_List demo_two = Some saved \<and> Restore ''/r'' saved = Some (Inr demo_two)"
proof (rule restore_roundtrip [OF demo_reach demo_hash_nonempty])
  show "is_abs ''/r''" by code_simp
  have "structured demo_two" using reach_inv [OF demo_reach demo_hash_nonempty] by (simp only: claims_inv_def claims_ok_def)
  then have dom: "dom (cs_entries demo_two) = set (cs_order demo_two)" by (simp only: structured_def)
  show "\<forall>cid e. cs_entries demo_two cid = Some e \<longrightarrow> paths_visible (en_claim e)"
  proof (intro allI impI)
    fix cid e assume e: "cs_entries demo_two cid = Some e"
    with dom have "cid \<in> set (cs_order demo_two)" by blast
    with demo_statuses(4) e show "paths_visible (en_claim e)" by (auto simp: paths_visible_def list_all_iff)
  qed
qed

theorem claims_safe_witness:
  "structured demo_two \<and> (\<exists>chs s'. Refresh demo_hash (demo_files ''a'') ''/r'' [''b.go''] demo_two = Some (chs, s') \<and>
     structured s' \<and> cs_order s' = cs_order demo_two)"
proof -
  have "cs_next demo_two < 9223372036854775807" by code_simp
  from claims_safe [OF demo_reach demo_hash_nonempty this, where saved = "[]" and files = "demo_files ''a''" and inp = "demo_input 1 []" and paths = "[''b.go'']"]
  show ?thesis by (elim conjE) (intro conjI)
qed

end
