(* ===== verification/Token_Cache.thy ===== *)
theory Token_Cache
  imports Chronos_Prelude "HOL-Library.Multiset"
begin

text \<open>
  The memo of token counts (\<^verbatim>\<open>internal/tokencache/cache.go\<close>): a bounded cache, evicted from its least
  recently used end. The tokenizers of the SDK are the parameter \<open>tokenizer\<close>: the counter that
  \<^verbatim>\<open>model.NewTokenCounter\<close> gives for a model. A list element is a handle with the entry it holds; a
  panic (the value of a missing element) is the result \<open>None\<close>. The lock makes each count one step.
\<close>

section \<open>State\<close>

definition maxBytes :: int where
  "maxBytes = 8388608"

definition maxEntries :: int where
  "maxEntries = 2048"

definition maxEntryBytes :: int where
  "maxEntryBytes = 1048576"

record cache_key =
  ck_model :: string
  ck_text :: string

record cache_entry =
  ce_key :: cache_key
  ce_tokens :: int

type_synonym tokenizer = "string \<Rightarrow> string \<Rightarrow> int"

text \<open>\<open>tc_fresh\<close> is the handle of the next list element to be allocated.\<close>

record token_cache =
  tc_entries :: "cache_key \<rightharpoonup> nat"
  tc_order :: "(nat \<times> cache_entry) list"
  tc_fresh :: nat
  tc_bytes :: int
  tc_model :: string
  tc_base :: "(string \<Rightarrow> int) option"

definition empty_cache :: token_cache where
  "empty_cache = \<lparr>tc_entries = Map.empty, tc_order = [], tc_fresh = 0, tc_bytes = 0, tc_model = '''', tc_base = None\<rparr>"

section \<open>Operations\<close>

definition key_size :: "cache_key \<Rightarrow> int" where
  "key_size k = int (length (ck_text k)) + int (length (ck_model k))"

definition move_to_front :: "nat \<Rightarrow> token_cache \<Rightarrow> token_cache" where
  "move_to_front h c = c\<lparr>tc_order := filter (\<lambda>x. fst x = h) (tc_order c) @ filter (\<lambda>x. fst x \<noteq> h) (tc_order c)\<rparr>"

definition has_room :: "int \<Rightarrow> token_cache \<Rightarrow> bool" where
  "has_room need c = (\<not> (maxBytes < tc_bytes c + need \<or> maxEntries \<le> int (length (tc_order c))))"

definition drop_oldest :: "token_cache \<Rightarrow> token_cache" where
  "drop_oldest c = (let old = ce_key (snd (last (tc_order c)))
     in c\<lparr>tc_entries := (tc_entries c)(old := None), tc_bytes := tc_bytes c - key_size old, tc_order := butlast (tc_order c)\<rparr>)"

function evict :: "int \<Rightarrow> token_cache \<Rightarrow> token_cache option" where
  "evict need c =
     (if has_room need c then Some c
      else if tc_order c = [] then None
      else evict need (drop_oldest c))"
  by pat_completeness auto
termination
  by (relation "measure (\<lambda>(need, c). length (tc_order c))") (auto simp: drop_oldest_def Let_def)

declare evict.simps [simp del]

definition load_base :: "tokenizer \<Rightarrow> string \<Rightarrow> token_cache \<Rightarrow> (string \<Rightarrow> int) \<times> token_cache" where
  "load_base tokenizer model c = (case tc_base c of
       Some f \<Rightarrow> if tc_model c = model then (f, c) else (tokenizer model, c\<lparr>tc_base := Some (tokenizer model), tc_model := model\<rparr>)
     | None \<Rightarrow> (tokenizer model, c\<lparr>tc_base := Some (tokenizer model), tc_model := model\<rparr>))"

definition remember :: "cache_key \<Rightarrow> int \<Rightarrow> token_cache \<Rightarrow> token_cache" where
  "remember k n c = c\<lparr>tc_entries := (tc_entries c)(k \<mapsto> tc_fresh c),
     tc_order := (tc_fresh c, \<lparr>ce_key = k, ce_tokens = n\<rparr>) # tc_order c, tc_fresh := Suc (tc_fresh c),
     tc_bytes := tc_bytes c + key_size k\<rparr>"

definition CountString :: "tokenizer \<Rightarrow> string \<Rightarrow> string \<Rightarrow> token_cache \<Rightarrow> (int \<times> token_cache) option" where
  "CountString tokenizer model s c =
     (if s = '''' then Some (0, c)
      else let k = \<lparr>ck_model = model, ck_text = s\<rparr>
        in (case tc_entries c k of
              Some h \<Rightarrow> map_option (\<lambda>e. (ce_tokens e, move_to_front h c)) (map_of (tc_order c) h)
            | None \<Rightarrow>
                let (base, c1) = load_base tokenizer model c; n = base s; need = key_size k
                in if maxEntryBytes < need then Some (n, c1)
                   else map_option (\<lambda>c2. (n, remember k n c2)) (evict need c1)))"

text \<open>The fields of the SDK's messages that are counted.\<close>

record tool_call =
  tl_name :: string
  tl_arguments :: string

record message =
  ms_content :: string
  ms_name :: string
  ms_calls :: "tool_call list"

text \<open>The texts of a message in the order they are counted.\<close>

definition message_texts :: "message \<Rightarrow> string list" where
  "message_texts m = [ms_content m, ms_name m] @ concat (map (\<lambda>t. [tl_name t, tl_arguments t]) (ms_calls m))"

primrec count_texts :: "tokenizer \<Rightarrow> string \<Rightarrow> string list \<Rightarrow> int \<Rightarrow> token_cache \<Rightarrow> (int \<times> token_cache) option" where
  "count_texts tokenizer model [] acc c = Some (acc, c)"
| "count_texts tokenizer model (s # ss) acc c = (case CountString tokenizer model s c of
       None \<Rightarrow> None | Some (n, c1) \<Rightarrow> count_texts tokenizer model ss (acc + n) c1)"

primrec count_messages :: "tokenizer \<Rightarrow> string \<Rightarrow> message list \<Rightarrow> int \<Rightarrow> token_cache \<Rightarrow> (int \<times> token_cache) option" where
  "count_messages tokenizer model [] acc c = Some (acc, c)"
| "count_messages tokenizer model (m # ms) acc c = (case count_texts tokenizer model (message_texts m) (acc + 4) c of
       None \<Rightarrow> None | Some (t, c1) \<Rightarrow> count_messages tokenizer model ms t c1)"

definition CountTokens :: "tokenizer \<Rightarrow> string \<Rightarrow> message list \<Rightarrow> token_cache \<Rightarrow> (int \<times> token_cache) option" where
  "CountTokens tokenizer model messages c = count_messages tokenizer model messages 3 c"

section \<open>The invariant\<close>

definition keys_of :: "token_cache \<Rightarrow> cache_key list" where
  "keys_of c = map (\<lambda>x. ce_key (snd x)) (tc_order c)"

definition cache_ok :: "tokenizer \<Rightarrow> token_cache \<Rightarrow> bool" where
  "cache_ok tokenizer c =
     (distinct (map fst (tc_order c)) \<and> distinct (keys_of c) \<and> (\<forall>(h, e) \<in> set (tc_order c). h < tc_fresh c) \<and>
      (\<forall>k h. tc_entries c k = Some h \<longleftrightarrow> (\<exists>e. (h, e) \<in> set (tc_order c) \<and> ce_key e = k)) \<and>
      (\<forall>(h, e) \<in> set (tc_order c). ce_tokens e = tokenizer (ck_model (ce_key e)) (ck_text (ce_key e))) \<and>
      tc_bytes c = sum_list (map key_size (keys_of c)) \<and> tc_bytes c \<le> maxBytes \<and> int (length (tc_order c)) \<le> maxEntries \<and>
      (\<forall>k \<in> set (keys_of c). key_size k \<le> maxEntryBytes) \<and>
      (\<forall>f. tc_base c = Some f \<longrightarrow> f = tokenizer (tc_model c)))"

lemma empty_cache_ok: "cache_ok tokenizer empty_cache"
  by (simp add: cache_ok_def empty_cache_def keys_of_def maxBytes_def maxEntries_def)

lemma key_size_nonneg [simp]: "0 \<le> key_size k"
  by (simp add: key_size_def)

lemma move_ok:
  assumes ok: "cache_ok tokenizer c" and mem: "map_of (tc_order c) h = Some e"
  shows "cache_ok tokenizer (move_to_front h c)"
    and "tc_order (move_to_front h c) = (h, e) # filter (\<lambda>x. fst x \<noteq> h) (tc_order c)"
proof -
  have dist: "distinct (map fst xs) \<Longrightarrow> map_of xs h = Some e \<Longrightarrow> filter (\<lambda>x. fst x = h) xs = [(h, e)]" for xs :: "(nat \<times> cache_entry) list"
  proof (induction xs)
    case (Cons x xs)
    show ?case
    proof (cases "fst x = h")
      case True
      with Cons.prems(1) have "h \<notin> fst ` set xs" by simp
      then have "\<forall>y \<in> set xs. fst y \<noteq> h" by (metis imageI)
      then have "filter (\<lambda>x. fst x = h) xs = []" by (simp add: filter_empty_conv)
      with True Cons.prems show ?thesis by (cases x) simp
    next
      case False
      with Cons show ?thesis by (cases x) simp
    qed
  qed simp
  have one: "filter (\<lambda>x. fst x = h) (tc_order c) = [(h, e)]" using ok mem by (intro dist) (simp_all add: cache_ok_def)
  then show order: "tc_order (move_to_front h c) = (h, e) # filter (\<lambda>x. fst x \<noteq> h) (tc_order c)"
    by (simp add: move_to_front_def)
  have perm: "mset (tc_order (move_to_front h c)) = mset (tc_order c)"
    using multiset_partition [of "mset (tc_order c)" "\<lambda>x. fst x = h"] by (simp add: move_to_front_def)
  have "mset (map fst (tc_order (move_to_front h c))) = mset (map fst (tc_order c))"
    and keys: "mset (keys_of (move_to_front h c)) = mset (keys_of c)"
    using perm by (simp_all only: keys_of_def mset_map)
  then have "distinct (map fst (tc_order (move_to_front h c))) = distinct (map fst (tc_order c))"
    "distinct (keys_of (move_to_front h c)) = distinct (keys_of c)" "set (keys_of (move_to_front h c)) = set (keys_of c)"
    by (metis mset_eq_imp_distinct_iff, metis mset_eq_imp_distinct_iff, metis mset_eq_setD)
  moreover have "set (tc_order (move_to_front h c)) = set (tc_order c)" "length (tc_order (move_to_front h c)) = length (tc_order c)"
    using perm by (metis mset_eq_setD, metis mset_eq_length)
  moreover have "sum_list (map key_size (keys_of (move_to_front h c))) = sum_list (map key_size (keys_of c))"
    using keys by (metis mset_map sum_mset_sum_list)
  ultimately show "cache_ok tokenizer (move_to_front h c)"
    using ok by (simp add: cache_ok_def) (simp add: move_to_front_def)
qed

section \<open>Eviction\<close>

lemma drop_ok:
  assumes ok: "cache_ok tokenizer c" and order: "tc_order c = xs @ [(h, e)]"
  shows "cache_ok tokenizer (drop_oldest c)" and "tc_order (drop_oldest c) = xs"
proof -
  show order': "tc_order (drop_oldest c) = xs" by (simp add: drop_oldest_def order Let_def)
  have entries: "tc_entries (drop_oldest c) = (tc_entries c)(ce_key e := None)" and bytes: "tc_bytes (drop_oldest c) = tc_bytes c - key_size (ce_key e)"
    by (simp_all add: drop_oldest_def order Let_def)
  have rest: "tc_fresh (drop_oldest c) = tc_fresh c" "tc_base (drop_oldest c) = tc_base c" "tc_model (drop_oldest c) = tc_model c"
    by (simp_all add: drop_oldest_def Let_def)
  have fresh_key: "ce_key e \<notin> ce_key ` snd ` set xs" and fresh_h: "h \<notin> fst ` set xs"
    using ok by (auto simp: cache_ok_def keys_of_def order)
  have "tc_entries (drop_oldest c) k = Some g \<longleftrightarrow> (\<exists>x. (g, x) \<in> set xs \<and> ce_key x = k)" for k g
  proof -
    have "tc_entries c k = Some g \<longleftrightarrow> (\<exists>x. (g, x) \<in> set (xs @ [(h, e)]) \<and> ce_key x = k)"
      using ok by (simp add: cache_ok_def order)
    moreover have "\<not> (\<exists>x. (g, x) \<in> set xs \<and> ce_key x = ce_key e)" using fresh_key by (metis imageI snd_conv)
    ultimately show ?thesis by (cases "k = ce_key e") (auto simp: entries)
  qed
  moreover have "tc_bytes (drop_oldest c) = sum_list (map key_size (keys_of (drop_oldest c)))"
    using ok by (simp add: cache_ok_def keys_of_def order order' bytes)
  moreover have "tc_bytes c \<le> maxBytes" using ok unfolding cache_ok_def by (elim conjE)
  then have "tc_bytes (drop_oldest c) \<le> maxBytes" using key_size_nonneg [of "ce_key e"] unfolding bytes by linarith
  ultimately show "cache_ok tokenizer (drop_oldest c)"
    using ok unfolding cache_ok_def order' rest by (auto simp: keys_of_def order order')
qed

lemma empty_room:
  assumes "cache_ok tokenizer c" and "tc_order c = []" and "need \<le> maxEntryBytes"
  shows "has_room need c"
  using assms by (simp add: cache_ok_def keys_of_def has_room_def maxBytes_def maxEntries_def maxEntryBytes_def)

text \<open>Whether the \<open>m\<close> most recent entries leave room for another one.\<close>

definition fits :: "int \<Rightarrow> nat \<Rightarrow> token_cache \<Rightarrow> bool" where
  "fits need m c = (sum_list (map key_size (take m (keys_of c))) + need \<le> maxBytes \<and> int m < maxEntries)"

lemma room_fits: "cache_ok tokenizer c \<Longrightarrow> has_room need c \<longleftrightarrow> fits need (length (tc_order c)) c"
  by (auto simp: cache_ok_def has_room_def fits_def keys_of_def)

lemma evict_spec:
  assumes "cache_ok tokenizer c" and "need \<le> maxEntryBytes"
  shows "\<exists>c2 m. evict need c = Some c2 \<and> cache_ok tokenizer c2 \<and> has_room need c2 \<and> tc_base c2 = tc_base c \<and> tc_model c2 = tc_model c \<and>
    m \<le> length (tc_order c) \<and> tc_order c2 = take m (tc_order c) \<and>
    (\<forall>j. m < j \<longrightarrow> j \<le> length (tc_order c) \<longrightarrow> \<not> fits need j c)"
  using assms
proof (induction need c rule: evict.induct)
  case (1 need c)
  show ?case
  proof (cases "has_room need c")
    case True
    with 1(2) show ?thesis by (intro exI [of _ c] exI [of _ "length (tc_order c)"]) (simp add: evict.simps)
  next
    case False
    then have "tc_order c \<noteq> []" using empty_room 1(2,3) by blast
    then obtain xs h e where order: "tc_order c = xs @ [(h, e)]" by (cases "tc_order c" rule: rev_cases) auto
    from drop_ok [OF 1(2) order] have ok: "cache_ok tokenizer (drop_oldest c)" and order': "tc_order (drop_oldest c) = xs" .
    have "tc_order c \<noteq> []" using order by simp
    from 1(1) [OF False this ok 1(3)] obtain c2 m where
      c2: "evict need (drop_oldest c) = Some c2" "cache_ok tokenizer c2" "has_room need c2"
        "tc_base c2 = tc_base (drop_oldest c)" "tc_model c2 = tc_model (drop_oldest c)"
      and m: "m \<le> length xs" "tc_order c2 = take m xs" "\<forall>j. m < j \<longrightarrow> j \<le> length xs \<longrightarrow> \<not> fits need j (drop_oldest c)"
      unfolding order' by blast
    have "evict need c = Some c2" using False order c2(1) by (subst evict.simps) simp
    moreover have "\<not> fits need j c" if "m < j" "j \<le> length (tc_order c)" for j
    proof (cases "j = length (tc_order c)")
      case True
      with False 1(2) show ?thesis by (simp add: room_fits)
    next
      case False
      with that order have j: "j \<le> length xs" by simp
      then have "fits need j (drop_oldest c) = fits need j c" by (simp add: fits_def keys_of_def order order')
      with m(3) that j show ?thesis by blast
    qed
    moreover have "tc_base (drop_oldest c) = tc_base c" "tc_model (drop_oldest c) = tc_model c" by (simp_all add: drop_oldest_def Let_def)
    ultimately show ?thesis using c2 m(1,2) order by (intro exI [of _ c2] exI [of _ m]) simp
  qed
qed

section \<open>Counting\<close>

lemma load_base_ok:
  assumes "cache_ok tokenizer c" and "load_base tokenizer model c = (f, c1)"
  shows "f = tokenizer model" and "cache_ok tokenizer c1" and "tc_order c1 = tc_order c" and "tc_entries c1 = tc_entries c"
  using assms by (auto simp: load_base_def cache_ok_def keys_of_def split: option.splits if_splits)

lemma remember_ok:
  assumes ok: "cache_ok tokenizer c" and room: "has_room (key_size k) c" and fresh: "k \<notin> set (keys_of c)"
    and small: "key_size k \<le> maxEntryBytes" and n: "n = tokenizer (ck_model k) (ck_text k)"
  shows "cache_ok tokenizer (remember k n c)"
proof -
  have new: "tc_fresh c \<notin> fst ` set (tc_order c)" using ok by (fastforce simp: cache_ok_def)
  have "tc_entries (remember k n c) k' = Some h \<longleftrightarrow> (\<exists>x. (h, x) \<in> set (tc_order (remember k n c)) \<and> ce_key x = k')" for k' h
  proof -
    have old: "tc_entries c k' = Some h \<longleftrightarrow> (\<exists>x. (h, x) \<in> set (tc_order c) \<and> ce_key x = k')" using ok by (simp add: cache_ok_def)
    show ?thesis
    proof (cases "k' = k")
      case True
      have "\<not> (\<exists>x. (h, x) \<in> set (tc_order c) \<and> ce_key x = k)" using fresh by (force simp: keys_of_def)
      with True show ?thesis by (auto simp: remember_def)
    next
      case False
      with old show ?thesis by (auto simp: remember_def)
    qed
  qed
  moreover have "tc_bytes (remember k n c) \<le> maxBytes" "int (length (tc_order (remember k n c))) \<le> maxEntries"
    using room by (auto simp: remember_def has_room_def)
  ultimately show ?thesis
    using ok new fresh small n unfolding cache_ok_def by (auto simp: remember_def keys_of_def less_SucI)
qed

lemma CountString_spec:
  assumes ok: "cache_ok tokenizer c"
  obtains c2 where "CountString tokenizer model s c = Some (if s = '''' then 0 else tokenizer model s, c2)" and "cache_ok tokenizer c2"
    and "s \<noteq> '''' \<Longrightarrow> key_size \<lparr>ck_model = model, ck_text = s\<rparr> \<le> maxEntryBytes \<Longrightarrow> ce_key (snd (hd (tc_order c2))) = \<lparr>ck_model = model, ck_text = s\<rparr> \<and> tc_order c2 \<noteq> []"
proof (cases "s = ''''")
  case True
  with ok that show ?thesis by (auto simp: CountString_def)
next
  case False
  let ?k = "\<lparr>ck_model = model, ck_text = s\<rparr>"
  show ?thesis
  proof (cases "tc_entries c ?k")
    case (Some h)
    with ok obtain e where e: "(h, e) \<in> set (tc_order c)" "ce_key e = ?k" by (auto simp: cache_ok_def)
    have "ce_tokens e = tokenizer model s" using ok e by (fastforce simp: cache_ok_def)
    moreover have found: "map_of (tc_order c) h = Some e" using ok e(1) by (simp add: cache_ok_def)
    ultimately have "CountString tokenizer model s c = Some (tokenizer model s, move_to_front h c)"
      using False Some by (simp add: CountString_def)
    with False move_ok [OF ok found] e(2) show ?thesis by (intro that [of "move_to_front h c"]) auto
  next
    case None
    obtain f c1 where base: "load_base tokenizer model c = (f, c1)" by (cases "load_base tokenizer model c")
    note b = load_base_ok [OF ok base]
    show ?thesis
    proof (cases "maxEntryBytes < key_size ?k")
      case True
      with False None base b(1) have "CountString tokenizer model s c = Some (tokenizer model s, c1)"
        by (simp add: CountString_def)
      with False True b(2) show ?thesis by (intro that [of c1]) auto
    next
      case small: False
      then have small: "key_size ?k \<le> maxEntryBytes" by simp
      from evict_spec [OF b(2) this] obtain c2 m where c2: "evict (key_size ?k) c1 = Some c2" "cache_ok tokenizer c2"
        "has_room (key_size ?k) c2" "tc_order c2 = take m (tc_order c)" unfolding b(3) by blast
      have "?k \<notin> set (keys_of c)"
      proof
        assume "?k \<in> set (keys_of c)"
        then obtain h e where "(h, e) \<in> set (tc_order c)" "ce_key e = ?k" by (auto simp: keys_of_def)
        with ok have "tc_entries c ?k = Some h" by (auto simp: cache_ok_def)
        with None show False by simp
      qed
      then have "?k \<notin> set (keys_of c2)" using c2(4) set_take_subset [of m] by (fastforce simp: keys_of_def)
      from remember_ok [OF c2(2,3) this small, of "tokenizer model s"] have "cache_ok tokenizer (remember ?k (tokenizer model s) c2)" by simp
      moreover have "CountString tokenizer model s c = Some (tokenizer model s, remember ?k (tokenizer model s) c2)"
        using False None base b(1) small c2(1) by (simp add: CountString_def Let_def)
      ultimately show ?thesis using False by (intro that [of "remember ?k (tokenizer model s) c2"]) (simp_all add: remember_def)
    qed
  qed
qed

section \<open>Properties\<close>

inductive cache_reach :: "tokenizer \<Rightarrow> token_cache \<Rightarrow> bool" for tokenizer where
  cache_start: "cache_reach tokenizer empty_cache"
| cache_count: "cache_reach tokenizer c \<Longrightarrow> CountString tokenizer model s c = Some (n, c') \<Longrightarrow> cache_reach tokenizer c'"

lemma reach_ok: "cache_reach tokenizer c \<Longrightarrow> cache_ok tokenizer c"
proof (induction rule: cache_reach.induct)
  case cache_start
  show ?case by (rule empty_cache_ok)
next
  case (cache_count c model s n c')
  from CountString_spec [OF cache_count.IH, of model s] obtain c2 where
    "CountString tokenizer model s c = Some (if s = '''' then 0 else tokenizer model s, c2)" "cache_ok tokenizer c2" .
  with cache_count.hyps(2) show ?case by simp
qed

lemma count_texts_spec:
  "cache_reach tokenizer c \<Longrightarrow> \<exists>c2. count_texts tokenizer model ss acc c =
     Some (acc + sum_list (map (\<lambda>s. if s = '''' then 0 else tokenizer model s) ss), c2) \<and> cache_reach tokenizer c2"
proof (induction ss arbitrary: acc c)
  case (Cons s ss)
  from CountString_spec [OF reach_ok [OF Cons.prems], of model s] obtain c1 where
    c1: "CountString tokenizer model s c = Some (if s = '''' then 0 else tokenizer model s, c1)" .
  from Cons.IH [OF cache_count [OF Cons.prems c1], of "acc + (if s = '''' then 0 else tokenizer model s)"] c1
  show ?case by (simp add: add.assoc)
qed simp

lemma count_messages_spec:
  "cache_reach tokenizer c \<Longrightarrow> \<exists>c2. count_messages tokenizer model ms acc c =
     Some (acc + (\<Sum>m \<leftarrow> ms. 4 + (\<Sum>s \<leftarrow> message_texts m. if s = '''' then 0 else tokenizer model s)), c2) \<and> cache_reach tokenizer c2"
proof (induction ms arbitrary: acc c)
  case (Cons m ms)
  from count_texts_spec [OF Cons.prems, of model "message_texts m" "acc + 4"] obtain c1 where
    c1: "count_texts tokenizer model (message_texts m) (acc + 4) c =
      Some (acc + 4 + (\<Sum>s \<leftarrow> message_texts m. if s = '''' then 0 else tokenizer model s), c1)" "cache_reach tokenizer c1" by blast
  from Cons.IH [OF c1(2), of "acc + 4 + (\<Sum>s \<leftarrow> message_texts m. if s = '''' then 0 else tokenizer model s)"] c1(1)
  show ?case by (simp add: add.assoc)
qed simp

text \<open>
  C20. The memo cannot be observed: after any use of the cache, for any models, counting a conversation
  returns, and returns the sum of the tokenizer's own counts with the framing of the messages.
\<close>

theorem cache_transparent:
  assumes "cache_reach tokenizer c"
  shows "map_option fst (CountTokens tokenizer model messages c) =
    Some (3 + (\<Sum>m \<leftarrow> messages. 4 + (\<Sum>s \<leftarrow> message_texts m. if s = '''' then 0 else tokenizer model s)))"
  using count_messages_spec [OF assms, of model messages 3] by (auto simp: CountTokens_def)

text \<open>
  C36. The cache stays within its bounds: its byte count is the sum of the sizes of what it holds, at
  most 8 MiB in at most 2048 entries, no entry above 1 MiB, each text counted once per model, and the
  index holds exactly the listed entries.
\<close>

theorem cache_bounded:
  assumes "cache_reach tokenizer c"
  shows "tc_bytes c = sum_list (map key_size (keys_of c)) \<and> tc_bytes c \<le> 8388608 \<and> length (tc_order c) \<le> 2048 \<and>
    (\<forall>k \<in> set (keys_of c). key_size k \<le> 1048576) \<and> distinct (keys_of c) \<and> dom (tc_entries c) = set (keys_of c)"
proof -
  have ok: "cache_ok tokenizer c" by (rule reach_ok [OF assms])
  have "k \<in> dom (tc_entries c) \<longleftrightarrow> k \<in> set (keys_of c)" for k
  proof -
    have "k \<in> dom (tc_entries c) \<longleftrightarrow> (\<exists>h e. (h, e) \<in> set (tc_order c) \<and> ce_key e = k)" using ok by (simp add: cache_ok_def dom_def)
    then show ?thesis by (force simp: keys_of_def)
  qed
  then show ?thesis using ok by (auto simp: cache_ok_def maxBytes_def maxEntries_def maxEntryBytes_def)
qed

text \<open>
  C27. The eviction loop ends without touching a missing element, leaves room for the new entry, and
  drops only what it must from the least recently used end: what stays is the longest run of the most
  recent entries that leaves room.
\<close>

theorem eviction_ends:
  assumes "cache_reach tokenizer c" and "need \<le> maxEntryBytes"
  shows "\<exists>c2 m. evict need c = Some c2 \<and> has_room need c2 \<and> tc_order c2 = take m (tc_order c) \<and> m \<le> length (tc_order c) \<and>
    (\<forall>j. m < j \<longrightarrow> j \<le> length (tc_order c) \<longrightarrow> \<not> fits need j c)"
  using evict_spec [OF reach_ok [OF assms(1)] assms(2)] by blast

text \<open>
  The text counted last is the most recently used entry, whether it was found or added, unless it
  is too large to be kept.
\<close>

theorem counted_is_recent:
  assumes "cache_reach tokenizer c" and "s \<noteq> ''''" and "key_size \<lparr>ck_model = model, ck_text = s\<rparr> \<le> maxEntryBytes"
    and "CountString tokenizer model s c = Some (n, c2)"
  shows "n = tokenizer model s \<and> (\<exists>h rest. tc_order c2 = (h, \<lparr>ce_key = \<lparr>ck_model = model, ck_text = s\<rparr>, ce_tokens = n\<rparr>) # rest)"
proof -
  from CountString_spec [OF reach_ok [OF assms(1)], of model s] assms(4) have n: "n = tokenizer model s"
    and ok: "cache_ok tokenizer c2" and front: "ce_key (snd (hd (tc_order c2))) = \<lparr>ck_model = model, ck_text = s\<rparr> \<and> tc_order c2 \<noteq> []"
    using assms(2,3) by auto
  from front obtain h e rest where order: "tc_order c2 = (h, e) # rest" by (cases "tc_order c2") auto
  with front have key: "ce_key e = \<lparr>ck_model = model, ck_text = s\<rparr>" by simp
  have "ce_tokens e = tokenizer (ck_model (ce_key e)) (ck_text (ce_key e))" using ok order by (simp add: cache_ok_def)
  with key n have "e = \<lparr>ce_key = \<lparr>ck_model = model, ck_text = s\<rparr>, ce_tokens = n\<rparr>" by (cases e) simp
  with n order show ?thesis by blast
qed

section \<open>Witnesses\<close>

definition length_tokenizer :: tokenizer where
  "length_tokenizer model s = int (length s)"

definition used_cache :: token_cache where
  "used_cache = snd (the (CountString length_tokenizer ''gpt'' ''hello'' empty_cache))"

lemma used_count: "CountString length_tokenizer ''gpt'' ''hello'' empty_cache = Some (5, used_cache)"
proof -
  have "map_option fst (CountString length_tokenizer ''gpt'' ''hello'' empty_cache) = Some 5" by code_simp
  then show ?thesis by (auto simp: used_cache_def)
qed

lemma used_reach: "cache_reach length_tokenizer used_cache"
  by (rule cache_count [OF cache_start used_count])

theorem cache_transparent_witness:
  "map_option fst (CountTokens length_tokenizer ''gpt'' [\<lparr>ms_content = ''hello'', ms_name = '''', ms_calls = [\<lparr>tl_name = ''f'', tl_arguments = ''{}''\<rparr>]\<rparr>] used_cache) = Some 15"
  unfolding cache_transparent [OF used_reach] by (simp add: message_texts_def length_tokenizer_def)

theorem cache_bounded_witness:
  "tc_bytes used_cache = 8 \<and> length (tc_order used_cache) \<le> 2048"
proof -
  have "tc_bytes used_cache = 8" by code_simp
  with cache_bounded [OF used_reach] show ?thesis by blast
qed

theorem eviction_ends_witness:
  "\<exists>c2. evict 10 used_cache = Some c2 \<and> has_room 10 c2"
  using eviction_ends [OF used_reach, of 10] by (auto simp: maxEntryBytes_def)

theorem counted_is_recent_witness:
  "\<exists>h rest. tc_order used_cache = (h, \<lparr>ce_key = \<lparr>ck_model = ''gpt'', ck_text = ''hello''\<rparr>, ce_tokens = 5\<rparr>) # rest"
proof -
  have "key_size \<lparr>ck_model = ''gpt'', ck_text = ''hello''\<rparr> \<le> maxEntryBytes" by code_simp
  from counted_is_recent [OF cache_start _ this used_count] show ?thesis by simp
qed

end
