(* ===== verification/Scip_Symbols.thy ===== *)
theory Scip_Symbols
  imports Chronos_Prelude
begin

text \<open>
  SCIP symbols (\<^verbatim>\<open>indexer/scip/symbol.go\<close>): the parser of the symbol grammar and the questions the
  importer asks of a parsed symbol. Strings are byte strings; a rune above \<^verbatim>\<open>0x7f\<close> is a run of bytes
  above \<^verbatim>\<open>0x7f\<close>, so the tests on runes are the same on bytes. A result that is not ok is \<open>None\<close>.
\<close>

section \<open>Data\<close>

definition SuffixNamespace :: char where "SuffixNamespace = CHR ''/''"
definition SuffixType :: char where "SuffixType = CHR ''#''"
definition SuffixTerm :: char where "SuffixTerm = CHR ''.''"
definition SuffixMeta :: char where "SuffixMeta = CHR '':''"
definition SuffixMacro :: char where "SuffixMacro = CHR ''!''"
definition SuffixMethod :: char where "SuffixMethod = CHR ''m''"
definition SuffixTypeParameter :: char where "SuffixTypeParameter = CHR ''[''"
definition SuffixParameter :: char where "SuffixParameter = CHR ''(''"

lemmas suffix_defs = SuffixNamespace_def SuffixType_def SuffixTerm_def SuffixMeta_def SuffixMacro_def SuffixMethod_def
  SuffixTypeParameter_def SuffixParameter_def

record sym_descriptor =
  ds_name :: string
  ds_suffix :: char

record symbol =
  sy_local :: bool
  sy_scheme :: string
  sy_package :: string
  sy_descriptors :: "sym_descriptor list"

section \<open>Parsing\<close>

text \<open>A field ends at a single space; two spaces stand for one.\<close>

fun spaceField :: "string \<Rightarrow> (string \<times> string) option" where
  "spaceField [] = None"
| "spaceField (c # cs) =
     (if c \<noteq> CHR '' '' then map_option (\<lambda>(f, r). (c # f, r)) (spaceField cs)
      else if has_prefix cs '' '' then map_option (\<lambda>(f, r). (CHR '' '' # f, r)) (spaceField (tl cs))
      else Some ([], cs))"

definition byte_between :: "char \<Rightarrow> char \<Rightarrow> char \<Rightarrow> bool" where
  "byte_between lo hi c = ((of_char lo :: nat) \<le> of_char c \<and> (of_char c :: nat) \<le> of_char hi)"

definition simpleChar :: "char \<Rightarrow> bool" where
  "simpleChar c = (c = CHR ''_'' \<or> c = CHR ''+'' \<or> c = CHR ''-'' \<or> c = CHR ''$'' \<or>
     byte_between CHR ''a'' CHR ''z'' c \<or> byte_between CHR ''A'' CHR ''Z'' c \<or> byte_between CHR ''0'' CHR ''9'' c)"

abbreviation backtick :: char where
  "backtick \<equiv> CHR 0x60"

text \<open>The text up to a single backtick; two backticks stand for one.\<close>

fun escaped :: "string \<Rightarrow> (string \<times> string) option" where
  "escaped [] = None"
| "escaped (c # cs) =
     (if c \<noteq> backtick then map_option (\<lambda>(f, r). (c # f, r)) (escaped cs)
      else if has_prefix cs [backtick] then map_option (\<lambda>(f, r). (backtick # f, r)) (escaped (tl cs))
      else Some ([], cs))"

definition scan_identifier :: "string \<Rightarrow> (string \<times> string) option" where
  "scan_identifier s =
     (if has_prefix s [backtick]
      then (case escaped (tl s) of None \<Rightarrow> None | Some (name, rest) \<Rightarrow> if name = '''' then None else Some (name, rest))
      else if takeWhile simpleChar s = '''' then None
      else Some (takeWhile simpleChar s, dropWhile simpleChar s))"

text \<open>What follows the first occurrence of a text.\<close>

fun after_first :: "string \<Rightarrow> string \<Rightarrow> string option" where
  "after_first sub [] = (if sub = [] then Some [] else None)"
| "after_first sub (c # cs) = (if has_prefix (c # cs) sub then Some (drop (length sub) (c # cs)) else after_first sub cs)"

text \<open>The parser is only called on a text that is not empty.\<close>

definition bracketed :: "char \<Rightarrow> char \<Rightarrow> string \<Rightarrow> (sym_descriptor \<times> string) option" where
  "bracketed close mark s = (case scan_identifier s of
       None \<Rightarrow> None
     | Some (name, rest) \<Rightarrow>
         if has_prefix rest [close] then Some (\<lparr>ds_name = name, ds_suffix = mark\<rparr>, tl rest) else None)"

definition descriptor :: "string \<Rightarrow> (sym_descriptor \<times> string) option" where
  "descriptor s =
     (if s = '''' then None
      else if hd s = CHR ''['' then bracketed CHR '']'' SuffixTypeParameter (tl s)
      else if hd s = CHR ''('' then bracketed CHR '')'' SuffixParameter (tl s)
      else (case scan_identifier s of
              None \<Rightarrow> None
            | Some (name, rest) \<Rightarrow>
                if rest = '''' then None
                else if List.member [CHR ''/'', CHR ''#'', CHR ''.'', CHR '':'', CHR ''!''] (hd rest)
                then Some (\<lparr>ds_name = name, ds_suffix = hd rest\<rparr>, tl rest)
                else if hd rest = CHR ''(''
                then map_option (\<lambda>r. (\<lparr>ds_name = name, ds_suffix = SuffixMethod\<rparr>, r)) (after_first '').'' rest)
                else None))"

lemma escaped_shorter: "escaped s = Some (f, r) \<Longrightarrow> length f + length r < length s"
proof (induction s arbitrary: f r rule: escaped.induct)
  case (2 c cs)
  show ?case
  proof (cases "c \<noteq> backtick")
    case True
    with 2(1) [OF True] 2(3) show ?thesis by auto
  next
    case False
    show ?thesis
    proof (cases "has_prefix cs [backtick]")
      case True
      with False 2(3) obtain g where g: "escaped (tl cs) = Some (g, r)" "f = backtick # g" by auto
      from True have "cs \<noteq> []" by (auto simp: has_prefix_def)
      then have "length (tl cs) < length cs" by (cases cs) auto
      with 2(2) [OF _ True g(1)] False g(2) show ?thesis by simp
    next
      case not: False
      with False 2(3) show ?thesis by simp
    qed
  qed
qed simp

lemma scan_identifier_consumes: "scan_identifier s = Some (name, rest) \<Longrightarrow> length rest < length s"
proof -
  assume ident: "scan_identifier s = Some (name, rest)"
  show ?thesis
  proof (cases "has_prefix s [backtick]")
    case True
    with ident have "escaped (tl s) = Some (name, rest)" by (auto simp: scan_identifier_def split: option.splits if_splits)
    from escaped_shorter [OF this] show ?thesis by simp
  next
    case False
    with ident have ne: "takeWhile simpleChar s \<noteq> ''''" and rest: "rest = dropWhile simpleChar s"
      by (auto simp: scan_identifier_def split: if_splits)
    have "length s = length (takeWhile simpleChar s) + length (dropWhile simpleChar s)"
      by (metis length_append takeWhile_dropWhile_id)
    with ne rest show ?thesis by simp
  qed
qed

lemma after_first_shorter: "after_first sub s = Some r \<Longrightarrow> length r + length sub \<le> length s"
proof (induction sub s rule: after_first.induct)
  case (2 sub c cs)
  show ?case
  proof (cases "has_prefix (c # cs) sub")
    case True
    then have "length sub \<le> length (c # cs)" by (metis has_prefix_iff prefix_length_le)
    with True 2(2) show ?thesis by auto
  next
    case False
    with 2 show ?thesis by simp
  qed
qed (simp split: if_splits)

lemma bracketed_consumes: "bracketed close mark s = Some (d, rest) \<Longrightarrow> length rest + 2 \<le> length s"
proof -
  assume "bracketed close mark s = Some (d, rest)"
  then obtain name r where r: "scan_identifier s = Some (name, r)" "has_prefix r [close]" "rest = tl r"
    by (auto simp: bracketed_def split: option.splits if_splits)
  then have "r \<noteq> ''''" by (auto simp: has_prefix_def)
  then have "length r = Suc (length (tl r))" by (cases r) auto
  with scan_identifier_consumes [OF r(1)] show ?thesis unfolding r(3) by linarith
qed

lemma descriptor_cases:
  assumes "descriptor s = Some (d, rest)"
  obtains (bracket) close mark where "s \<noteq> ''''" and "bracketed close mark (tl s) = Some (d, rest)"
  | (named) name r where "s \<noteq> ''''" and "scan_identifier s = Some (name, r)" and "r \<noteq> ''''" and "rest = tl r"
  | (meth) name r where "s \<noteq> ''''" and "scan_identifier s = Some (name, r)" and "r \<noteq> ''''" and "after_first '').'' r = Some rest"
proof -
  have s: "s \<noteq> ''''" using assms by (auto simp: descriptor_def)
  consider "hd s = CHR ''[''" | "hd s = CHR ''(''" | "hd s \<noteq> CHR ''[''" "hd s \<noteq> CHR ''(''" by blast
  then show ?thesis
  proof cases
    case 1
    with assms s have "bracketed CHR '']'' SuffixTypeParameter (tl s) = Some (d, rest)" by (simp add: descriptor_def)
    with s show ?thesis by (rule bracket)
  next
    case 2
    with assms s have "bracketed CHR '')'' SuffixParameter (tl s) = Some (d, rest)" by (simp add: descriptor_def)
    with s show ?thesis by (rule bracket)
  next
    case 3
    with assms s obtain name r where r: "scan_identifier s = Some (name, r)"
      by (cases "scan_identifier s") (auto simp: descriptor_def)
    note eq = assms [unfolded descriptor_def if_not_P [OF s] if_not_P [OF 3(1)] if_not_P [OF 3(2)] r option.case prod.case]
    from eq have "r \<noteq> ''''" and "rest = tl r \<or> after_first '').'' r = Some rest" by (auto split: if_splits)
    with s r named meth show ?thesis by blast
  qed
qed

lemma descriptor_consumes:
  assumes "descriptor s = Some (d, rest)"
  shows "length rest + 2 \<le> length s"
  using assms
proof (cases rule: descriptor_cases)
  case (bracket close mark)
  from bracketed_consumes [OF bracket(2)] bracket(1) show ?thesis by (cases s) auto
next
  case (named name r)
  with scan_identifier_consumes [OF named(2)] show ?thesis by (cases r) auto
next
  case (meth name r)
  with scan_identifier_consumes [OF meth(2)] after_first_shorter [OF meth(4)] show ?thesis by simp
qed

function descriptors :: "string \<Rightarrow> sym_descriptor list option" where
  "descriptors s =
     (if s = '''' then Some []
      else (case descriptor s of None \<Rightarrow> None | Some (d, rest) \<Rightarrow> map_option (Cons d) (descriptors rest)))"
  by pat_completeness auto
termination
  by (relation "measure length") (auto dest!: descriptor_consumes)

declare descriptors.simps [simp del]

definition ParseSymbol :: "string \<Rightarrow> symbol option" where
  "ParseSymbol s =
     (if has_prefix s ''local '' then Some \<lparr>sy_local = True, sy_scheme = '''', sy_package = '''', sy_descriptors = []\<rparr>
      else (case spaceField s of None \<Rightarrow> None
        | Some (scheme, r1) \<Rightarrow> (case spaceField r1 of None \<Rightarrow> None
        | Some (manager, r2) \<Rightarrow> (case spaceField r2 of None \<Rightarrow> None
        | Some (name, r3) \<Rightarrow> (case spaceField r3 of None \<Rightarrow> None
        | Some (version, r4) \<Rightarrow> (case descriptors r4 of None \<Rightarrow> None
        | Some ds \<Rightarrow> if ds = [] then None
            else Some \<lparr>sy_local = False, sy_scheme = scheme,
              sy_package = manager @ '' '' @ name @ '' '' @ version, sy_descriptors = ds\<rparr>))))))"

section \<open>Questions about a symbol\<close>

definition Last :: "symbol \<Rightarrow> sym_descriptor" where
  "Last s = (if sy_descriptors s = [] then \<lparr>ds_name = '''', ds_suffix = CHR 0x00\<rparr> else last (sy_descriptors s))"

definition Owner :: "symbol \<Rightarrow> string" where
  "Owner s = (if length (sy_descriptors s) < 2 then ''''
     else ds_name (sy_descriptors s ! (length (sy_descriptors s) - 2)))"

definition Callable :: "symbol \<Rightarrow> bool" where
  "Callable s = (ds_suffix (Last s) = SuffixMethod)"

definition IsType :: "symbol \<Rightarrow> bool" where
  "IsType s = (ds_suffix (Last s) = SuffixType)"

definition constructorNames :: "string list" where
  "constructorNames = [''<init>'', ''.ctor'', ''<constructor>'', ''constructor'', ''__init__'']"

definition Constructor :: "symbol \<Rightarrow> bool" where
  "Constructor s = (Callable s \<and>
     (List.member constructorNames (ds_name (Last s)) \<or> ds_name (Last s) = Owner s))"

definition operatorNames :: "string list" where
  "operatorNames = [''invoke'', ''apply'', ''get'', ''set'', ''iterator'', ''hasNext'', ''next'',
     ''contains'', ''not'', ''plus'', ''minus'', ''times'', ''div'', ''rem'',
     ''rangeTo'', ''rangeUntil'', ''compareTo'', ''equals'', ''unaryMinus'', ''unaryPlus'',
     ''inc'', ''dec'', ''getValue'', ''setValue'', ''provideDelegate'', ''plusAssign'', ''minusAssign'']"

definition isDigits :: "string \<Rightarrow> bool" where
  "isDigits s = (list_all (byte_between CHR ''0'' CHR ''9'') s \<and> s \<noteq> '''')"

definition Implicit :: "symbol \<Rightarrow> bool" where
  "Implicit s = (Constructor s \<or> (let name = ds_name (Last s)
     in Callable s \<and> (List.member operatorNames name \<or> has_prefix name ''component'' \<and> isDigits (drop (length ''component'') name))))"

definition identifier_byte :: "char \<Rightarrow> bool" where
  "identifier_byte c = (c = CHR ''_'' \<or> c = CHR ''$'' \<or> byte_between CHR ''a'' CHR ''z'' c \<or>
     byte_between CHR ''A'' CHR ''Z'' c \<or> 127 < (of_char c :: nat))"

definition isIdent :: "string \<Rightarrow> bool" where
  "isIdent s = (s \<noteq> '''' \<and> identifier_byte (hd s) \<and>
     list_all (\<lambda>c. identifier_byte c \<or> byte_between CHR ''0'' CHR ''9'' c) (tl s))"

text \<open>The spellings of a property, through its accessor's name.\<close>

definition accessor :: "string \<Rightarrow> string \<Rightarrow> string list option" where
  "accessor pre name = (let rest = drop (length pre) name
     in if has_prefix name pre \<and> rest \<noteq> '''' \<and> byte_between CHR ''A'' CHR ''Z'' (hd rest)
        then Some [name, rest, char_of (of_char (hd rest) + 32 :: nat) # tl rest, pre] else None)"

definition property_spellings :: "symbol \<Rightarrow> string list option" where
  "property_spellings s =
     (if Callable s then (case accessor ''get'' (ds_name (Last s)) of
          Some xs \<Rightarrow> Some xs | None \<Rightarrow> accessor ''set'' (ds_name (Last s)))
      else None)"

definition Spellings :: "symbol \<Rightarrow> string list" where
  "Spellings s = (let name = ds_name (Last s)
     in if has_prefix name ''$'' then []
        else (case property_spellings s of
            Some xs \<Rightarrow> xs
          | None \<Rightarrow>
              if Callable s \<and> List.member constructorNames name
              then (if isIdent (Owner s) then [Owner s] else []) @ (if isIdent name then [name] else []) @
                   (if name \<noteq> ''constructor'' then [''constructor''] else [])
              else if isIdent name then [name] else []))"

section \<open>Writing symbols\<close>

text \<open>
  The grammar of the protocol (\<^verbatim>\<open>scip.proto\<close>) read as a printer: the specification that the parser is
  checked against. A method carries the disambiguator it is printed with, which the parser drops.
\<close>

definition doubled :: "char \<Rightarrow> string \<Rightarrow> string" where
  "doubled c s = concat (map (\<lambda>x. if x = c then [c, c] else [x]) s)"

definition field_text :: "string \<Rightarrow> string" where
  "field_text f = doubled CHR '' '' f @ '' ''"

definition ident_text :: "string \<Rightarrow> string" where
  "ident_text name = (if list_all simpleChar name then name else backtick # doubled backtick name @ [backtick])"

definition descriptor_text :: "sym_descriptor \<Rightarrow> string \<Rightarrow> string" where
  "descriptor_text d disambiguator =
     (if ds_suffix d = SuffixTypeParameter then ''['' @ ident_text (ds_name d) @ '']''
      else if ds_suffix d = SuffixParameter then ''('' @ ident_text (ds_name d) @ '')''
      else if ds_suffix d = SuffixMethod then ident_text (ds_name d) @ ''('' @ disambiguator @ '').''
      else ident_text (ds_name d) @ [ds_suffix d])"

definition symbol_text :: "string \<Rightarrow> string \<Rightarrow> string \<Rightarrow> string \<Rightarrow> (sym_descriptor \<times> string) list \<Rightarrow> string" where
  "symbol_text scheme manager name version ds =
     field_text scheme @ field_text manager @ field_text name @ field_text version @
     concat (map (\<lambda>(d, disambiguator). descriptor_text d disambiguator) ds)"

definition suffixes :: "char list" where
  "suffixes = [SuffixNamespace, SuffixType, SuffixTerm, SuffixMeta, SuffixMacro, SuffixMethod, SuffixTypeParameter, SuffixParameter]"

definition writable :: "sym_descriptor \<times> string \<Rightarrow> bool" where
  "writable = (\<lambda>(d, disambiguator). ds_name d \<noteq> '''' \<and> ds_suffix d \<in> set suffixes \<and> CHR '')'' \<notin> set disambiguator)"

lemma prefix_cons: "has_prefix (x # xs) [c] \<longleftrightarrow> x = c"
  by (auto simp: has_prefix_def)

lemma doubled_simps [simp]:
  "doubled c [] = []" "doubled c (x # xs) = (if x = c then c # c # doubled c xs else x # doubled c xs)"
  by (simp_all add: doubled_def)

lemma spaceField_text:
  assumes "\<not> has_prefix rest '' ''"
  shows "spaceField (field_text f @ rest) = Some (f, rest)"
  unfolding field_text_def using assms by (induction f) (auto simp: prefix_cons)

lemma escaped_text:
  assumes "\<not> has_prefix rest [backtick]"
  shows "escaped (doubled backtick name @ backtick # rest) = Some (name, rest)"
  using assms by (induction name) (auto simp: prefix_cons)

lemma not_simple: "\<not> simpleChar backtick" "x \<in> {CHR ''['', CHR '']'', CHR ''('', CHR '')'', CHR ''/'', CHR ''#'', CHR ''.'', CHR '':'', CHR ''!'', CHR '' ''} \<Longrightarrow> \<not> simpleChar x"
  by (auto simp: simpleChar_def byte_between_def)

lemma scan_identifier_text:
  assumes "name \<noteq> ''''" and "\<not> simpleChar x" and "x \<noteq> backtick"
  shows "scan_identifier (ident_text name @ x # rest) = Some (name, x # rest)"
proof (cases "list_all simpleChar name")
  case True
  obtain y ys where name: "name = y # ys" using assms(1) by (cases name) auto
  have "y \<noteq> backtick" using True name not_simple(1) by auto
  then have "\<not> has_prefix (name @ x # rest) [backtick]" by (simp add: name prefix_cons)
  moreover have "takeWhile simpleChar (name @ x # rest) = name" "dropWhile simpleChar (name @ x # rest) = x # rest"
    using True assms(2) by (auto simp: list_all_iff takeWhile_append dropWhile_append)
  ultimately show ?thesis using True assms(1) by (simp add: scan_identifier_def ident_text_def)
next
  case False
  have "\<not> has_prefix (x # rest) [backtick]" using assms(3) by (simp add: prefix_cons)
  from escaped_text [OF this, of name] False assms(1) show ?thesis
    by (simp add: scan_identifier_def ident_text_def prefix_cons)
qed

lemma ident_text_head:
  assumes "name \<noteq> ''''"
  obtains x xs where "ident_text name = x # xs" and "x \<notin> {CHR ''['', CHR ''('', CHR '' ''}"
proof (cases "list_all simpleChar name")
  case True
  then obtain y ys where "name = y # ys" "simpleChar y" using assms by (cases name) auto
  with True that not_simple(2) [of y] show ?thesis by (auto simp: ident_text_def)
next
  case False
  with that show ?thesis by (auto simp: ident_text_def)
qed

lemma after_first_text: "CHR '')'' \<notin> set d \<Longrightarrow> after_first '').'' (d @ '').'' @ rest) = Some rest"
  by (induction d) (auto simp: has_prefix_def)

lemma descriptor_text_scan:
  assumes "writable (d, disambiguator)"
  shows "descriptor (descriptor_text d disambiguator @ rest) = Some (d, rest)"
proof -
  obtain name mark where d: "d = \<lparr>ds_name = name, ds_suffix = mark\<rparr>" by (cases d) auto
  from assms have ne: "name \<noteq> ''''" and mark: "mark \<in> set suffixes" and dis: "CHR '')'' \<notin> set disambiguator"
    by (auto simp: writable_def d)
  obtain x xs where head: "ident_text name = x # xs" and x: "x \<notin> {CHR ''['', CHR ''('', CHR '' ''}" by (rule ident_text_head [OF ne])
  have scan: "scan_identifier (ident_text name @ c # t) = Some (name, c # t)"
    if "c \<in> {CHR '']'', CHR ''('', CHR '')'', CHR ''/'', CHR ''#'', CHR ''.'', CHR '':'', CHR ''!''}" for c t
    using that not_simple(2) [of c] by (intro scan_identifier_text [OF ne]) auto
  have plain: "descriptor (ident_text name @ c # t) = (if List.member [CHR ''/'', CHR ''#'', CHR ''.'', CHR '':'', CHR ''!''] c
      then Some (\<lparr>ds_name = name, ds_suffix = c\<rparr>, t)
      else map_option (\<lambda>r. (\<lparr>ds_name = name, ds_suffix = SuffixMethod\<rparr>, r)) (after_first '').'' (c # t)))"
    if "c \<in> {CHR ''('', CHR ''/'', CHR ''#'', CHR ''.'', CHR '':'', CHR ''!''}" for c t
    using scan [of c t] that x by (auto simp: descriptor_def head)
  have meth: "after_first '').'' (CHR ''('' # disambiguator @ '').'' @ rest) = Some rest"
    using after_first_text [of "CHR ''('' # disambiguator" rest] dis by simp
  from mark consider "mark = CHR ''[''" | "mark = CHR ''(''" | "mark = CHR ''m''"
    | "mark \<in> {CHR ''/'', CHR ''#'', CHR ''.'', CHR '':'', CHR ''!''}" by (auto simp: suffixes_def suffix_defs)
  then show ?thesis
  proof cases
    case 1
    then show ?thesis using scan [of "CHR '']''" rest]
      by (simp add: d descriptor_text_def descriptor_def bracketed_def suffix_defs prefix_cons)
  next
    case 2
    then show ?thesis using scan [of "CHR '')''" rest]
      by (simp add: d descriptor_text_def descriptor_def bracketed_def suffix_defs prefix_cons)
  next
    case 3
    then show ?thesis using plain [of "CHR ''(''" "disambiguator @ '').'' @ rest"] meth
      by (simp add: d descriptor_text_def suffix_defs)
  next
    case 4
    then show ?thesis using plain [of mark rest] by (auto simp: d descriptor_text_def suffix_defs)
  qed
qed

lemma descriptor_text_nonempty: "descriptor_text d disambiguator \<noteq> ''''"
  by (simp add: descriptor_text_def)

lemma descriptors_text:
  "\<forall>x \<in> set ds. writable x \<Longrightarrow> descriptors (concat (map (\<lambda>(d, disambiguator). descriptor_text d disambiguator) ds)) = Some (map fst ds)"
proof (induction ds)
  case Nil
  then show ?case by (simp add: descriptors.simps)
next
  case (Cons x ds)
  obtain d dis where x: "x = (d, dis)" by (cases x)
  let ?rest = "concat (map (\<lambda>(d, disambiguator). descriptor_text d disambiguator) ds)"
  have "descriptor (descriptor_text d dis @ ?rest) = Some (d, ?rest)"
    using Cons.prems x by (intro descriptor_text_scan) simp
  moreover have "descriptors ?rest = Some (map fst ds)" using Cons by simp
  ultimately show ?case using descriptor_text_nonempty [of d dis] by (simp add: x descriptors.simps [of "descriptor_text d dis @ ?rest"])
qed

text \<open>A field can be read back when what follows it does not start with a space.\<close>

definition readable_field :: "string \<Rightarrow> bool" where
  "readable_field f = (f \<noteq> '''' \<and> hd f \<noteq> CHR '' '')"

lemma field_text_start: "readable_field f \<Longrightarrow> \<not> has_prefix (field_text f @ rest) '' ''"
  by (cases f) (auto simp: readable_field_def field_text_def has_prefix_def)

lemma descriptors_start:
  assumes "writable (d, dis)"
  shows "\<not> has_prefix (descriptor_text d dis @ rest) '' ''"
proof -
  have "ds_name d \<noteq> ''''" using assms by (simp add: writable_def)
  from ident_text_head [OF this] obtain x xs where "ident_text (ds_name d) = x # xs" "x \<noteq> CHR '' ''" by blast
  then show ?thesis by (simp add: descriptor_text_def has_prefix_def)
qed

lemma field_text_prefix:
  "CHR '' '' \<notin> set p \<Longrightarrow> has_prefix (field_text f @ t) (p @ '' '') \<Longrightarrow> f = p \<or> has_prefix f (p @ '' '')"
proof (induction p arbitrary: f)
  case Nil
  then show ?case by (cases f) (auto simp: field_text_def has_prefix_def split: if_splits)
next
  case (Cons x p)
  then obtain g where f: "f = x # g" by (cases f) (auto simp: field_text_def has_prefix_def split: if_splits)
  have "x \<noteq> CHR '' ''" using Cons.prems(1) by auto
  with f Cons.prems have "has_prefix (field_text g @ t) (p @ '' '')" by (simp add: field_text_def has_prefix_def)
  with Cons.IH [of g] Cons.prems(1) f show ?case by (auto simp: has_prefix_def)
qed

section \<open>Properties\<close>

text \<open>
  C19. Writing a symbol in the grammar and parsing it gives it back: scheme, package and descriptors with
  their kinds, names with spaces and backticks included. The scheme must not read as that of a local
  symbol, the fields of the package must be present and not start with a space, and a method's
  disambiguator, which the parser drops, must not hold a closing parenthesis.
\<close>

theorem symbol_roundtrip:
  assumes "scheme \<noteq> ''local''" and "\<not> has_prefix scheme ''local ''"
    and "readable_field manager" and "readable_field name" and "readable_field version"
    and "ds \<noteq> []" and "\<forall>x \<in> set ds. writable x"
  shows "ParseSymbol (symbol_text scheme manager name version ds) =
    Some \<lparr>sy_local = False, sy_scheme = scheme, sy_package = manager @ '' '' @ name @ '' '' @ version, sy_descriptors = map fst ds\<rparr>"
proof -
  let ?rest = "concat (map (\<lambda>(d, disambiguator). descriptor_text d disambiguator) ds)"
  have start: "\<not> has_prefix ?rest '' ''" using assms(6,7) descriptors_start by (cases ds) auto
  have nonlocal: "\<not> has_prefix (field_text scheme @ t) ''local ''" for t
    using field_text_prefix [of "''local''" scheme t] assms(1,2) by auto
  show ?thesis
    unfolding ParseSymbol_def symbol_text_def
    using nonlocal spaceField_text [OF field_text_start [OF assms(3)]] spaceField_text [OF field_text_start [OF assms(4)]]
      spaceField_text [OF field_text_start [OF assms(5)]] spaceField_text [OF start] descriptors_text [OF assms(7)] assms(6)
    by simp
qed

definition sample_descriptors :: "(sym_descriptor \<times> string) list" where
  "sample_descriptors = [(\<lparr>ds_name = ''a b'', ds_suffix = CHR ''/''\<rparr>, ''''), (\<lparr>ds_name = ''Foo'', ds_suffix = CHR ''#''\<rparr>, ''''),
     (\<lparr>ds_name = ''getBar'', ds_suffix = CHR ''m''\<rparr>, ''+1'')]"

theorem symbol_roundtrip_witness:
  "ParseSymbol (symbol_text ''scip go'' ''gomod'' ''x  y'' ''.'' sample_descriptors) =
    Some \<lparr>sy_local = False, sy_scheme = ''scip go'', sy_package = ''gomod x  y .'', sy_descriptors = map fst sample_descriptors\<rparr>"
proof -
  have "\<forall>x \<in> set sample_descriptors. writable x" by (simp add: sample_descriptors_def writable_def suffixes_def suffix_defs)
  moreover have "sample_descriptors \<noteq> []" by (simp add: sample_descriptors_def)
  ultimately show ?thesis
    using symbol_roundtrip [of "''scip go''" "''gomod''" "''x  y''" "''.''" sample_descriptors]
    by (simp add: readable_field_def has_prefix_def)
qed

lemma spaceField_shorter: "spaceField s = Some (f, r) \<Longrightarrow> length r < length s"
proof (induction s arbitrary: f r rule: spaceField.induct)
  case (2 c cs)
  show ?case
  proof (cases "c \<noteq> CHR '' ''")
    case True
    with 2(3) obtain g where "spaceField cs = Some (g, r)" by auto
    with 2(1) [OF True this] show ?thesis by simp
  next
    case False
    show ?thesis
    proof (cases "has_prefix cs '' ''")
      case True
      with False 2(3) obtain g where g: "spaceField (tl cs) = Some (g, r)" by auto
      with 2(2) [OF _ True g] False show ?thesis by simp
    next
      case not: False
      with False 2(3) show ?thesis by simp
    qed
  qed
qed simp

lemma scan_identifier_name: "scan_identifier s = Some (name, rest) \<Longrightarrow> name \<noteq> ''''"
  by (auto simp: scan_identifier_def split: option.splits if_splits)

lemma bracketed_result: "bracketed close mark s = Some (d, rest) \<Longrightarrow> ds_suffix d = mark \<and> ds_name d \<noteq> ''''"
  using scan_identifier_name [of s] by (auto simp: bracketed_def split: option.splits if_splits)

lemma descriptor_result:
  assumes "descriptor s = Some (d, rest)"
  shows "ds_name d \<noteq> '''' \<and> ds_suffix d \<in> set suffixes"
proof -
  have s: "s \<noteq> ''''" using assms by (auto simp: descriptor_def)
  show ?thesis
  proof (cases "hd s = CHR ''['' \<or> hd s = CHR ''(''")
    case True
    with assms s have "bracketed CHR '']'' SuffixTypeParameter (tl s) = Some (d, rest) \<or> bracketed CHR '')'' SuffixParameter (tl s) = Some (d, rest)"
      by (auto simp: descriptor_def split: if_splits)
    with bracketed_result show ?thesis by (metis insert_iff list.set(2) suffixes_def)
  next
    case False
    with assms s obtain name r where r: "scan_identifier s = Some (name, r)"
      by (cases "scan_identifier s") (auto simp: descriptor_def)
    with False assms s scan_identifier_name [OF r] show ?thesis
      by (auto simp: descriptor_def suffixes_def suffix_defs split: if_splits)
  qed
qed

lemma descriptors_result:
  "descriptors s = Some ds \<Longrightarrow> 2 * length ds \<le> length s \<and> (\<forall>d \<in> set ds. ds_name d \<noteq> '''' \<and> ds_suffix d \<in> set suffixes)"
proof (induction s arbitrary: ds rule: descriptors.induct)
  case (1 s)
  show ?case
  proof (cases "s = ''''")
    case True
    with 1(2) show ?thesis by (simp add: descriptors.simps)
  next
    case False
    with 1(2) obtain d rest es where d: "descriptor s = Some (d, rest)" and es: "descriptors rest = Some es" "ds = d # es"
      by (subst (asm) descriptors.simps) (auto split: option.splits)
    from 1(1) [OF False d refl es(1)] descriptor_consumes [OF d] descriptor_result [OF d] es(2) show ?thesis by auto
  qed
qed

text \<open>
  C37. Parsing ends on every text, and what it accepts is well formed: a symbol that is not local has at
  least one descriptor, each has a name and one of the grammar's kinds, and there are at most half as
  many of them as there are bytes after the four fields.
\<close>

theorem parsed_symbol:
  assumes "ParseSymbol s = Some sm"
  shows "if has_prefix s ''local '' then sm = \<lparr>sy_local = True, sy_scheme = '''', sy_package = '''', sy_descriptors = []\<rparr>
    else \<not> sy_local sm \<and> sy_descriptors sm \<noteq> [] \<and> 2 * length (sy_descriptors sm) + 4 \<le> length s \<and>
      (\<forall>d \<in> set (sy_descriptors sm). ds_name d \<noteq> '''' \<and> ds_suffix d \<in> set suffixes)"
proof (cases "has_prefix s ''local ''")
  case True
  with assms show ?thesis by (simp add: ParseSymbol_def)
next
  case False
  with assms obtain f1 r1 f2 r2 f3 r3 f4 r4 ds where fields: "spaceField s = Some (f1, r1)" "spaceField r1 = Some (f2, r2)"
    "spaceField r2 = Some (f3, r3)" "spaceField r3 = Some (f4, r4)" and ds: "descriptors r4 = Some ds" "ds \<noteq> []"
    and sm: "sm = \<lparr>sy_local = False, sy_scheme = f1, sy_package = f2 @ '' '' @ f3 @ '' '' @ f4, sy_descriptors = ds\<rparr>"
    by (auto simp: ParseSymbol_def split: option.splits if_splits)
  have "length r4 + 4 \<le> length s"
    using spaceField_shorter [OF fields(1)] spaceField_shorter [OF fields(2)] spaceField_shorter [OF fields(3)]
      spaceField_shorter [OF fields(4)] by simp
  with descriptors_result [OF ds(1)] ds(2) sm False show ?thesis by simp
qed

theorem parsed_symbol_witness:
  "\<exists>sm. ParseSymbol ''go mod p v a/b().'' = Some sm \<and> 2 * length (sy_descriptors sm) + 4 \<le> length ''go mod p v a/b().'' \<and>
     \<not> sy_local sm"
proof -
  have ok: "ParseSymbol ''go mod p v a/b().'' \<noteq> None" and outer: "\<not> has_prefix ''go mod p v a/b().'' ''local ''"
    by code_simp+
  from ok obtain sm where sm: "ParseSymbol ''go mod p v a/b().'' = Some sm" by blast
  from parsed_symbol [OF this] outer sm show ?thesis by (simp only: if_False) blast
qed

text \<open>
  The spellings of a symbol are identifiers, so they can be looked for in the source, except when the
  symbol is taken for the accessor of a property.
\<close>

theorem spellings_identifiers:
  assumes "property_spellings s = None" and "x \<in> set (Spellings s)"
  shows "isIdent x"
proof -
  have "isIdent ''constructor''" by code_simp
  with assms show ?thesis by (auto simp: Spellings_def Let_def split: if_splits)
qed

definition sample_symbol :: symbol where
  "sample_symbol = \<lparr>sy_local = False, sy_scheme = ''s'', sy_package = ''a b c'',
     sy_descriptors = [\<lparr>ds_name = ''Foo'', ds_suffix = SuffixType\<rparr>, \<lparr>ds_name = ''<init>'', ds_suffix = SuffixMethod\<rparr>]\<rparr>"

theorem spellings_identifiers_witness:
  "isIdent ''Foo'' \<and> ''Foo'' \<in> set (Spellings sample_symbol) \<and> Constructor sample_symbol"
proof -
  have none: "property_spellings sample_symbol = None" and mem: "''Foo'' \<in> set (Spellings sample_symbol)"
    and cons: "Constructor sample_symbol" by code_simp+
  from spellings_identifiers [OF none mem] mem cons show ?thesis by (intro conjI)
qed


end
