(* ===== verification/Delivery_Domain.thy ===== *)
theory Delivery_Domain
  imports Chronos_Prelude
begin

text \<open>
  The delivery aggregate (\<^verbatim>\<open>internal/execution/delivery_domain.go\<close>): its states and the transition
  table, goals, requirements with their acceptance checks and waivers, decisions, and the
  validation of a requirement. The string types keep their constants as constructors and any
  other string as the last constructor, so the zero value of a state is the empty other.
\<close>

datatype delivery_error =
  ErrDeliveryNotFound | ErrInvalidDelivery | ErrInvalidDeliveryTransition | ErrStaleDeliveryVersion
  | ErrAdmissionConflict | ErrEventConflict | ErrUnsupportedDeliverySchema
  | ErrIncompatibleDeliverySchema | ErrNoRunnableDelivery | ErrStaleLease | ErrDeliveryCancelled
  | ErrOperationConflict | ErrOperationNotFound | ErrEffectNeedsReconciliation
  | ErrUsageConflict | ErrUnknownPricing | ErrUsageOutcomeUnknown | ErrCostAuthority
  | ErrUsageOverflow | ErrNoRows | ErrConstraint | ErrContext

datatype delivery_state =
  DeliveryAdmitted | DeliveryQueued | DeliveryRunning | DeliveryCheckpointing
  | DeliveryWaitingRetry | DeliveryWaitingDecision | DeliveryWaitingCredentials
  | DeliveryWaitingQuota | DeliveryPaused | DeliveryReconciling | DeliveryReplanning
  | DeliveryCancelRequested | DeliverySucceeded | DeliveryFailed | DeliveryCancelled
  | DeliveryStateOther string

datatype requirement_status =
  RequirementAccepted | RequirementSatisfied | RequirementWaived | RequirementStatusOther string

datatype delivery_event_type =
  DeliveryEventAdmitted | DeliveryEventTransitioned | DeliveryEventGoalRevised
  | DeliveryEventRequirementUpdated | DeliveryEventDecisionRequested
  | DeliveryEventDecisionResolved | DeliveryEventOperationPrepared
  | DeliveryEventOperationRunning | DeliveryEventOperationObserved
  | DeliveryEventOperationReconciled | DeliveryEventOther string

record goal =
  g_revision :: int
  g_statement :: string
  g_actor :: string
  g_created :: time

record acceptance_check =
  ac_id :: string
  ac_statement :: string

record waiver =
  w_actor :: string
  w_reason :: string
  w_created :: time

record requirement =
  r_id :: string
  r_goal_revision :: int
  r_statement :: string
  r_status :: requirement_status
  r_checks :: "acceptance_check list"
  r_waiver :: "waiver option"

record resolution =
  rs_actor :: string
  rs_choice :: string
  rs_rationale :: string
  rs_resolved :: time

record decision =
  dc_id :: string
  dc_question :: string
  dc_options :: "string list"
  dc_recommendation :: string
  dc_consequences :: string
  dc_reversible :: bool
  dc_deadline :: "time option"
  dc_blocked :: "string list"
  dc_requested :: time
  dc_resolution :: "resolution option"

text \<open>A delivery is named by tenant, repository and its own identifier (\<^verbatim>\<open>DeliveryScope\<close> and ID).\<close>

type_synonym dkey = "string \<times> string \<times> string"

record delivery =
  d_key :: dkey
  d_admission_key :: string
  d_state :: delivery_state
  d_version :: int
  d_goal_revision :: int
  d_policy :: string
  d_max_cost :: int
  d_created :: time
  d_updated :: time
  d_goals :: "goal list"
  d_requirements :: "requirement list"
  d_decisions :: "decision list"

definition zero_delivery :: delivery where
  "zero_delivery = \<lparr>d_key = ('''', '''', ''''), d_admission_key = '''',
     d_state = DeliveryStateOther '''', d_version = 0, d_goal_revision = 0, d_policy = '''',
     d_max_cost = 0, d_created = 0, d_updated = 0, d_goals = [], d_requirements = [],
     d_decisions = []\<rparr>"

record event_identity =
  ei_id :: string
  ei_idem :: string
  ei_at :: time

record admission =
  a_key :: dkey
  a_admission_key :: string
  a_goal :: goal
  a_requirements :: "requirement list"
  a_policy :: string
  a_max_cost :: int
  a_event :: event_identity

text \<open>\<^verbatim>\<open>DeliveryScope.Validate\<close> and \<^verbatim>\<open>validateDeliveryRef\<close>: no part of the name is empty.\<close>

definition validateDeliveryRef :: "dkey \<Rightarrow> bool" where
  "validateDeliveryRef k = (fst k \<noteq> '''' \<and> fst (snd k) \<noteq> '''' \<and> snd (snd k) \<noteq> '''')"

section \<open>The state machine\<close>

definition isTerminalDeliveryState :: "delivery_state \<Rightarrow> bool" where
  "isTerminalDeliveryState s = (s \<in> {DeliverySucceeded, DeliveryFailed, DeliveryCancelled})"

fun allowed_next :: "delivery_state \<Rightarrow> delivery_state list" where
  "allowed_next DeliveryAdmitted = [DeliveryQueued, DeliveryPaused, DeliveryCancelRequested, DeliveryFailed]"
| "allowed_next DeliveryQueued = [DeliveryRunning, DeliveryPaused, DeliveryReconciling,
     DeliveryReplanning, DeliveryWaitingRetry, DeliveryWaitingDecision, DeliveryWaitingCredentials,
     DeliveryWaitingQuota, DeliveryCancelRequested, DeliveryFailed]"
| "allowed_next DeliveryRunning = [DeliveryQueued, DeliveryCheckpointing, DeliveryWaitingRetry,
     DeliveryWaitingDecision, DeliveryWaitingCredentials, DeliveryWaitingQuota, DeliveryPaused,
     DeliveryReconciling, DeliveryReplanning, DeliveryCancelRequested, DeliverySucceeded,
     DeliveryFailed, DeliveryCancelled]"
| "allowed_next DeliveryCheckpointing = [DeliveryQueued, DeliveryReconciling, DeliveryCancelRequested, DeliveryFailed]"
| "allowed_next DeliveryWaitingRetry = [DeliveryQueued, DeliveryCancelRequested, DeliveryFailed]"
| "allowed_next DeliveryWaitingDecision = [DeliveryQueued, DeliveryCancelRequested, DeliveryFailed]"
| "allowed_next DeliveryWaitingCredentials = [DeliveryQueued, DeliveryCancelRequested, DeliveryFailed]"
| "allowed_next DeliveryWaitingQuota = [DeliveryQueued, DeliveryCancelRequested, DeliveryFailed]"
| "allowed_next DeliveryPaused = [DeliveryQueued, DeliveryCancelRequested, DeliveryFailed]"
| "allowed_next DeliveryReconciling = [DeliveryQueued, DeliveryRunning, DeliveryWaitingRetry,
     DeliveryWaitingDecision, DeliveryReplanning, DeliveryCancelRequested, DeliverySucceeded,
     DeliveryFailed, DeliveryCancelled]"
| "allowed_next DeliveryReplanning = [DeliveryQueued, DeliveryWaitingDecision, DeliveryCancelRequested, DeliveryFailed]"
| "allowed_next DeliveryCancelRequested = [DeliveryReconciling, DeliveryCancelled, DeliveryFailed]"
| "allowed_next s = []"

definition validDeliveryTransition :: "delivery_state \<Rightarrow> delivery_state \<Rightarrow> bool" where
  "validDeliveryTransition from_state to_state =
     (if from_state = to_state \<or> isTerminalDeliveryState from_state then False
      else to_state \<in> set (allowed_next from_state))"

definition Transition :: "delivery_state \<Rightarrow> delivery \<Rightarrow> delivery_error + delivery" where
  "Transition nxt d =
     (if \<not> validDeliveryTransition (d_state d) nxt then Inl ErrInvalidDeliveryTransition
      else Inr (d\<lparr>d_state := nxt\<rparr>))"

section \<open>Requirements\<close>

definition known_status :: "requirement_status \<Rightarrow> bool" where
  "known_status s = (s \<in> {RequirementAccepted, RequirementSatisfied, RequirementWaived})"

fun checks_ok :: "string list \<Rightarrow> acceptance_check list \<Rightarrow> bool" where
  "checks_ok seen [] = True"
| "checks_ok seen (c # cs) =
     (if ac_id c = '''' \<or> ac_statement c = '''' then False
      else if ac_id c \<in> set seen then False
      else checks_ok (ac_id c # seen) cs)"

definition validateRequirement :: "requirement \<Rightarrow> int \<Rightarrow> bool" where
  "validateRequirement r revision =
     (if r_id r = '''' \<or> r_statement r = '''' \<or> r_status r = RequirementStatusOther '''' \<or>
         r_goal_revision r \<noteq> revision then False
      else if \<not> known_status (r_status r) then False
      else if (r_status r = RequirementWaived) \<noteq> (r_waiver r \<noteq> None) then False
      else if (case r_waiver r of None \<Rightarrow> False | Some w \<Rightarrow> w_actor w = '''' \<or> w_reason w = '''') then False
      else checks_ok [] (r_checks r))"

text \<open>
  The duplicate check that admission and goal revision run over a list of requirements; the
  source validates each requirement before looking at its identifier.
\<close>

fun requirements_ok :: "int \<Rightarrow> string list \<Rightarrow> requirement list \<Rightarrow> bool" where
  "requirements_ok revision seen [] = True"
| "requirements_ok revision seen (r # rs) =
     (if \<not> validateRequirement r revision then False
      else if r_id r \<in> set seen then False
      else requirements_ok revision (r_id r # seen) rs)"

lemma checks_ok_distinct:
  "checks_ok seen cs \<Longrightarrow> distinct (map ac_id cs) \<and> set (map ac_id cs) \<inter> set seen = {}"
  by (induction seen cs rule: checks_ok.induct) (auto split: if_splits)

lemma requirements_ok_distinct:
  "requirements_ok n seen rs \<Longrightarrow>
     distinct (map r_id rs) \<and> set (map r_id rs) \<inter> set seen = {} \<and>
     list_all (\<lambda>r. validateRequirement r n) rs"
  by (induction n seen rs rule: requirements_ok.induct) (auto split: if_splits)

lemma validateRequirement_revision: "validateRequirement r n \<Longrightarrow> r_goal_revision r = n"
  by (simp add: validateRequirement_def split: if_splits)

lemma valid_transition_neq: "validDeliveryTransition s t \<Longrightarrow> s \<noteq> t \<and> \<not> isTerminalDeliveryState s"
  by (simp add: validDeliveryTransition_def split: if_splits)

lemma Transition_Inr:
  "Transition nxt d = Inr d' \<longleftrightarrow> validDeliveryTransition (d_state d) nxt \<and> d' = d\<lparr>d_state := nxt\<rparr>"
  by (auto simp: Transition_def)

fun known_state :: "delivery_state \<Rightarrow> bool" where
  "known_state (DeliveryStateOther s) = False"
| "known_state s = True"

text \<open>A path of the table: each state is a valid successor of the one before.\<close>

fun delivery_path :: "delivery_state \<Rightarrow> delivery_state list \<Rightarrow> bool" where
  "delivery_path s [] = True"
| "delivery_path s (t # ts) = (validDeliveryTransition s t \<and> delivery_path t ts)"

text \<open>
  The transition table: the terminal states are exactly the known states without a successor,
  every live state can fail in one step and can be cancelled in at most two more steps once cancellation
  is requested, success is entered only from running or reconciling, and running only from
  queued or reconciling; no transition leads to a state outside the fifteen.
\<close>

theorem transition_table:
  "(known_state s \<longrightarrow> isTerminalDeliveryState s = (\<forall>t. \<not> validDeliveryTransition s t)) \<and>
   (known_state s \<and> \<not> isTerminalDeliveryState s \<longrightarrow>
      validDeliveryTransition s DeliveryFailed \<and>
      (s = DeliveryCancelRequested \<or> delivery_path s [DeliveryCancelRequested, DeliveryCancelled])) \<and>
   (validDeliveryTransition s DeliverySucceeded \<longrightarrow> s = DeliveryRunning \<or> s = DeliveryReconciling) \<and>
   (validDeliveryTransition s DeliveryRunning \<longrightarrow> s = DeliveryQueued \<or> s = DeliveryReconciling) \<and>
   (validDeliveryTransition s t \<longrightarrow> known_state t)"
proof -
  have fails: "known_state s \<Longrightarrow> \<not> isTerminalDeliveryState s \<Longrightarrow> validDeliveryTransition s DeliveryFailed"
    by (cases s) (auto simp: validDeliveryTransition_def isTerminalDeliveryState_def)
  have stuck: "isTerminalDeliveryState s \<Longrightarrow> \<not> validDeliveryTransition s t" for t
    by (simp add: validDeliveryTransition_def)
  have cancels: "known_state s \<Longrightarrow> \<not> isTerminalDeliveryState s \<Longrightarrow>
      s = DeliveryCancelRequested \<or> delivery_path s [DeliveryCancelRequested, DeliveryCancelled]"
    by (cases s) (auto simp: validDeliveryTransition_def isTerminalDeliveryState_def)
  have entered1: "validDeliveryTransition s DeliverySucceeded \<Longrightarrow> s = DeliveryRunning \<or> s = DeliveryReconciling"
    by (cases s) (simp_all add: validDeliveryTransition_def isTerminalDeliveryState_def)
  have entered2: "validDeliveryTransition s DeliveryRunning \<Longrightarrow> s = DeliveryQueued \<or> s = DeliveryReconciling"
    by (cases s) (simp_all add: validDeliveryTransition_def isTerminalDeliveryState_def)
  have known: "validDeliveryTransition s t \<Longrightarrow> known_state t"
  proof -
    have "list_all known_state (allowed_next s)" by (cases s) simp_all
    moreover assume "validDeliveryTransition s t"
    then have "t \<in> set (allowed_next s)" by (simp add: validDeliveryTransition_def split: if_splits)
    ultimately show ?thesis by (simp add: list_all_iff)
  qed
  have c1: "known_state s \<longrightarrow> isTerminalDeliveryState s = (\<forall>t. \<not> validDeliveryTransition s t)"
    using fails stuck by metis
  have c2: "known_state s \<and> \<not> isTerminalDeliveryState s \<longrightarrow>
      validDeliveryTransition s DeliveryFailed \<and>
      (s = DeliveryCancelRequested \<or> delivery_path s [DeliveryCancelRequested, DeliveryCancelled])"
    using fails cancels by metis
  show ?thesis
    by (rule conjI [OF c1 conjI [OF c2 conjI [OF impI [OF entered1] conjI [OF impI [OF entered2] impI [OF known]]]]])
qed

theorem transition_table_witness:
  "validDeliveryTransition DeliveryQueued DeliveryFailed \<and> known_state DeliveryRunning"
proof -
  have "known_state DeliveryQueued \<and> \<not> isTerminalDeliveryState DeliveryQueued"
    and "validDeliveryTransition DeliveryQueued DeliveryRunning" by code_simp+
  with transition_table [of DeliveryQueued DeliveryRunning] show ?thesis by simp
qed

end
