(* ===== verification/Timestamps.thy ===== *)
theory Timestamps
  imports Chronos_Prelude "HOL-Library.Product_Lexorder"
begin

text \<open>
  The timestamps of the delivery tables (\<^verbatim>\<open>timestamp\<close> and \<^verbatim>\<open>parseTimestamp\<close> of
  \<^verbatim>\<open>internal/execution/delivery_store.go\<close>). They are stored as TEXT in \<^verbatim>\<open>RFC3339Nano\<close>, which prints
  the date and time to the second in nineteen fixed-width characters, then a fraction without
  its trailing zeros (nothing at all for a whole second), then a Z. SQL compares them as text.

  A text is represented by the pair of the second its first nineteen characters name and the
  characters after them: those nineteen characters have one width and compare as the second
  does for the years 0 to 9999, so the text order is the order on pairs, with Isabelle's
  lexicographic order on the rest.
\<close>

type_synonym ts_text = "int \<times> string"

definition second :: int where
  "second = 1000000000"

fun frac_digits :: "nat \<Rightarrow> nat \<Rightarrow> string" where
  "frac_digits 0 n = []"
| "frac_digits (Suc k) n = digit_char (n div 10 ^ k) # frac_digits k (n mod 10 ^ k)"

definition trim_zeros :: "string \<Rightarrow> string" where
  "trim_zeros s = rev (dropWhile (\<lambda>c. c = CHR ''0'') (rev s))"

definition frac_text :: "nat \<Rightarrow> string" where
  "frac_text n = (if n = 0 then ''Z'' else CHR ''.'' # trim_zeros (frac_digits 9 n) @ ''Z'')"

definition timestamp :: "time \<Rightarrow> ts_text" where
  "timestamp t = (t div second, frac_text (nat (t mod second)))"

fun frac_value :: "nat \<Rightarrow> string \<Rightarrow> nat" where
  "frac_value 0 s = 0"
| "frac_value (Suc k) [] = 0"
| "frac_value (Suc k) (c # s) = char_digit c * 10 ^ k + frac_value k s"

definition parse_frac :: "string \<Rightarrow> nat" where
  "parse_frac s = (if s = ''Z'' then 0 else frac_value 9 (butlast (tl s)))"

definition parseTimestamp :: "ts_text \<Rightarrow> time" where
  "parseTimestamp x = fst x * second + int (parse_frac (snd x))"

text \<open>SQL's comparison of two timestamp columns.\<close>

definition text_le :: "ts_text \<Rightarrow> ts_text \<Rightarrow> bool" where
  "text_le a b = (fst a < fst b \<or> (fst a = fst b \<and> snd a \<le> snd b))"

section \<open>Printing and parsing\<close>

lemma frac_value_digits: "n < 10 ^ k \<Longrightarrow> frac_value k (frac_digits k n) = n"
proof (induction k arbitrary: n)
  case (Suc k)
  then have "n div 10 ^ k < 10" by (simp add: less_mult_imp_div_less mult.commute)
  with Suc.IH [of "n mod 10 ^ k"] show ?case
    by (simp add: char_digit_digit_char mult.commute [of _ "10 ^ k"])
qed simp

lemma frac_value_append_zeros:
  "list_all (\<lambda>c. c = CHR ''0'') z \<Longrightarrow> frac_value k (s @ z) = frac_value k s"
proof (induction k s arbitrary: z rule: frac_value.induct)
  case (2 k)
  then show ?case
    by (induction z arbitrary: k) (case_tac k, auto simp: char_digit_def)+
qed auto

lemma frac_value_trim: "frac_value k (trim_zeros s) = frac_value k s"
proof -
  have "s = trim_zeros s @ rev (takeWhile (\<lambda>c. c = CHR ''0'') (rev s))"
    unfolding trim_zeros_def by (metis rev_append rev_rev_ident takeWhile_dropWhile_id)
  moreover have "list_all (\<lambda>c. c = CHR ''0'') (rev (takeWhile (\<lambda>c. c = CHR ''0'') (rev s)))"
    by (auto simp: list_all_iff dest: set_takeWhileD)
  ultimately show ?thesis by (metis frac_value_append_zeros)
qed

lemma parse_frac_text: "n < 10 ^ 9 \<Longrightarrow> parse_frac (frac_text n) = n"
  by (simp add: parse_frac_def frac_text_def frac_value_trim frac_value_digits
      butlast_append del: frac_digits.simps power.simps frac_value.simps)

lemma parse_timestamp [simp]: "parseTimestamp (timestamp t) = t"
proof -
  have "nat (t mod second) < 10 ^ 9" by (simp add: second_def nat_less_iff)
  then show ?thesis
    by (simp add: parseTimestamp_def timestamp_def parse_frac_text second_def)
qed

lemma timestamp_inject [simp]: "timestamp a = timestamp b \<longleftrightarrow> a = b"
  by (metis parse_timestamp)

section \<open>Comparing\<close>

lemma text_le_total: "text_le a b \<or> text_le b a"
  by (auto simp: text_le_def)

lemma text_le_refl [simp]: "text_le a a"
  by (simp add: text_le_def)

lemma text_le_trans: "text_le a b \<Longrightarrow> text_le b c \<Longrightarrow> text_le a c"
  by (auto simp: text_le_def)

lemma fst_timestamp [simp]: "fst (timestamp t) = t div second"
  by (simp add: timestamp_def)

lemma text_le_within_second: "text_le (timestamp a) (timestamp b) \<Longrightarrow> a < b + second"
  and not_text_le_within_second: "\<not> text_le (timestamp a) (timestamp b) \<Longrightarrow> b < a + second"
  by (auto simp: text_le_def second_def; linarith)+

lemma text_le_earlier_second: "a div second < b div second \<Longrightarrow>
    text_le (timestamp a) (timestamp b) \<and> \<not> text_le (timestamp b) (timestamp a)"
  by (auto simp: text_le_def)

text \<open>
  The text order is not the order of time. The stored form of a whole second sorts after the
  stored form of any instant later in that second, so a comparison such as
  \<^verbatim>\<open>lease_expires_at > now\<close> can be wrong; it is never wrong by a second or more.
\<close>

theorem timestamp_order_skew:
  "(0 < n \<and> n < 1000000000 \<longrightarrow>
      \<not> text_le (timestamp (s * second)) (timestamp (s * second + n))) \<and>
   (text_le (timestamp a) (timestamp b) \<longrightarrow> a < b + second) \<and>
   (\<not> text_le (timestamp a) (timestamp b) \<longrightarrow> b < a + second)"
proof (intro conjI impI)
  assume n: "0 < n \<and> n < 1000000000"
  have "(s * second + n) div second = s" "(s * second + n) mod second = n"
    using n by (simp_all add: second_def)
  moreover have "frac_text (nat n) = CHR ''.'' # trim_zeros (frac_digits 9 (nat n)) @ ''Z''"
    using n by (simp add: frac_text_def)
  moreover have "\<not> ''Z'' \<le> CHR ''.'' # trim_zeros (frac_digits 9 (nat n)) @ ''Z''"
    by (simp add: less_eq_char_def less_char_def)
  moreover have "frac_text 0 = ''Z''" by (simp add: frac_text_def)
  ultimately show "\<not> text_le (timestamp (s * second)) (timestamp (s * second + n))"
    by (simp add: text_le_def timestamp_def second_def)
qed (auto dest: text_le_within_second not_text_le_within_second)

theorem timestamp_order_skew_witness:
  "\<not> text_le (timestamp (10 * second)) (timestamp (10 * second + 500000000))
   \<and> (5::int) < 2 * second + second"
proof -
  have "text_le (timestamp 5) (timestamp (2 * second))"
    using text_le_earlier_second [of 5 "2 * second"] by (simp add: second_def)
  with timestamp_order_skew [of 500000000 10 5 "2 * second"] show ?thesis by simp
qed

end
