(* ===== verification/Delivery_Tables.thy ===== *)
theory Delivery_Tables
  imports Delivery_Domain Timestamps
begin

text \<open>
  The tables of the delivery store (the schema in \<^verbatim>\<open>internal/execution/delivery_store.go\<close>) as lists of
  rows in insertion order, the event payloads and request fingerprints, and transactions. JSON
  documents written and read back by the program are kept as the values they encode, and a
  request fingerprint (the SHA-256 of a canonical JSON) as the request it is computed from:
  two fingerprints are equal when the requests are.
\<close>

section \<open>Payloads and fingerprints\<close>

datatype operation_status =
  OperationPrepared | OperationRunning | OperationObserved | OperationReconciled | OperationStatusOther string

datatype payload =
    PAdmitted delivery
  | PTransitioned delivery_state delivery_state int
  | PGoalRevised goal "requirement list" int
  | PRequirementUpdated string int requirement_status "waiver option" int
  | PDecisionRequested decision int
  | PDecisionResolved string resolution int
  | POperation string string operation_status int int
  | PRaw string

datatype request =
    ReqTransition delivery_state
  | ReqGoal goal "requirement list"
  | ReqRequirement string requirement_status "waiver option"
  | ReqDecision decision
  | ReqResolution string resolution

datatype fingerprint = FPNone | FP delivery_event_type int request

datatype admission_fp = AdmissionFP string goal "requirement list" string int string string

section \<open>Rows\<close>

record delivery_row =
  dr_key :: dkey
  dr_admission_key :: string
  dr_fingerprint :: admission_fp
  dr_state :: delivery_state
  dr_version :: int
  dr_goal_revision :: int
  dr_policy :: string
  dr_max_cost :: int
  dr_created :: ts_text
  dr_updated :: ts_text

record goal_row =
  gr_key :: dkey
  gr_revision :: int
  gr_statement :: string
  gr_actor :: string
  gr_created :: ts_text

record requirement_row =
  rr_key :: dkey
  rr_revision :: int
  rr_id :: string
  rr_statement :: string
  rr_status :: requirement_status
  rr_waiver :: "waiver option"

record check_row =
  ck_key :: dkey
  ck_revision :: int
  ck_requirement :: string
  ck_id :: string
  ck_position :: nat
  ck_statement :: string

record decision_row =
  dw_key :: dkey
  dw_id :: string
  dw_question :: string
  dw_options :: "string list"
  dw_recommendation :: string
  dw_consequences :: string
  dw_reversible :: bool
  dw_deadline :: "ts_text option"
  dw_blocked :: "string list"
  dw_requested :: ts_text

record resolution_row =
  rw_key :: dkey
  rw_id :: string
  rw_actor :: string
  rw_choice :: string
  rw_rationale :: string
  rw_resolved :: ts_text

record event_row =
  er_key :: dkey
  er_seq :: int
  er_id :: string
  er_idem :: string
  er_type :: delivery_event_type
  er_at :: ts_text
  er_payload :: payload
  er_fingerprint :: fingerprint

datatype queue_status = QReady | QLeased | QWaiting | QDone | QCancelled

record queue_row =
  q_key :: dkey
  q_status :: queue_status
  q_available :: ts_text
  q_signal :: string
  q_owner :: "string option"
  q_epoch :: int
  q_acquired :: "ts_text option"
  q_expires :: "ts_text option"
  q_heartbeat :: "ts_text option"
  q_result :: string
  q_created :: ts_text
  q_updated :: ts_text

datatype outcome_kind =
  OutcomeNone | OutcomeSucceeded | OutcomeFailed | OutcomeRetry | OutcomeWaiting
  | OutcomeCancelled | OutcomeLeaseLost | OutcomeOther string

record attempt_row =
  at_key :: dkey
  at_attempt :: int
  at_owner :: string
  at_epoch :: int
  at_started :: ts_text
  at_finished :: "ts_text option"
  at_outcome :: outcome_kind
  at_checkpoint :: string
  at_result :: string
  at_error :: string
  at_active :: int

datatype replay_class =
  ReplayRead | ReplayFingerprintedWrite | ReplayIdempotentExternal | ReplayUnknown | ReplayOther string

record operation_row =
  op_key :: dkey
  op_id :: string
  op_effect :: string
  op_kind :: string
  op_role :: string
  op_node :: string
  op_descriptor :: string
  op_class :: replay_class
  op_input :: string
  op_arguments :: string
  op_path :: string
  op_input_state :: string
  op_expected :: string
  op_output :: string
  op_revision :: int
  op_status :: operation_status
  op_owner :: string
  op_epoch :: int
  op_attempt :: int
  op_prepared :: ts_text
  op_updated :: ts_text
  op_result :: string
  op_error :: string

datatype usage_status = UsageReserved | UsageReconciled | UsageUnknown | UsageCancelled

record usage_row =
  u_key :: dkey
  u_call :: string
  u_node :: string
  u_status :: usage_status
  u_provider :: string
  u_model :: string
  u_estimate :: int
  u_reserved :: int
  u_known_price :: bool
  u_input :: int
  u_output :: int
  u_cache_read :: int
  u_cache_creation :: int
  u_cost :: int
  u_cost_known :: bool
  u_active :: int
  u_provider_ns :: int

section \<open>The store and its transactions\<close>

record store =
  t_deliveries :: "delivery_row list"
  t_goals :: "goal_row list"
  t_requirements :: "requirement_row list"
  t_checks :: "check_row list"
  t_decisions :: "decision_row list"
  t_resolutions :: "resolution_row list"
  t_events :: "event_row list"
  t_queue :: "queue_row list"
  t_attempts :: "attempt_row list"
  t_operations :: "operation_row list"
  t_usage :: "usage_row list"

definition empty_store :: store where
  "empty_store = \<lparr>t_deliveries = [], t_goals = [], t_requirements = [], t_checks = [],
     t_decisions = [], t_resolutions = [], t_events = [], t_queue = [], t_attempts = [],
     t_operations = [], t_usage = []\<rparr>"

text \<open>
  A transaction reads and writes the store and may fail. \<^verbatim>\<open>defer tx.Rollback()\<close> makes a failure
  leave the store as it was; \<^verbatim>\<open>tx.Commit()\<close> publishes the new one.
\<close>

type_synonym 'a tx = "store \<Rightarrow> delivery_error + 'a \<times> store"

definition tx_return :: "'a \<Rightarrow> 'a tx" where
  "tx_return x st = Inr (x, st)"

definition tx_fail :: "delivery_error \<Rightarrow> 'a tx" where
  "tx_fail e st = Inl e"

definition tx_bind :: "'a tx \<Rightarrow> ('a \<Rightarrow> 'b tx) \<Rightarrow> 'b tx" where
  "tx_bind f g st = (case f st of Inl e \<Rightarrow> Inl e | Inr (x, st') \<Rightarrow> g x st')"

definition tx_read :: "(store \<Rightarrow> delivery_error + 'a) \<Rightarrow> 'a tx" where
  "tx_read f st = (case f st of Inl e \<Rightarrow> Inl e | Inr x \<Rightarrow> Inr (x, st))"

definition tx_require :: "bool \<Rightarrow> delivery_error \<Rightarrow> unit tx" where
  "tx_require b e st = (if b then Inr ((), st) else Inl e)"

definition tx_modify :: "(store \<Rightarrow> store) \<Rightarrow> unit tx" where
  "tx_modify f st = Inr ((), f st)"

definition run_tx :: "'a tx \<Rightarrow> store \<Rightarrow> (delivery_error + 'a) \<times> store" where
  "run_tx f st = (case f st of Inl e \<Rightarrow> (Inl e, st) | Inr (x, st') \<Rightarrow> (Inr x, st'))"

named_theorems tx_simps \<open>when a transaction succeeds\<close>

lemma tx_return_Inr [tx_simps]: "tx_return x st = Inr (y, st') \<longleftrightarrow> y = x \<and> st' = st"
  by (auto simp: tx_return_def)

lemma tx_fail_Inr [tx_simps]: "tx_fail e st \<noteq> Inr p"
  by (simp add: tx_fail_def)

lemma tx_bind_Inr [tx_simps]:
  "tx_bind f g st = Inr (y, st'') \<longleftrightarrow> (\<exists>x st'. f st = Inr (x, st') \<and> g x st' = Inr (y, st''))"
  by (auto simp: tx_bind_def split: sum.splits)

lemma tx_read_Inr [tx_simps]: "tx_read f st = Inr (x, st') \<longleftrightarrow> f st = Inr x \<and> st' = st"
  by (auto simp: tx_read_def split: sum.splits)

lemma tx_require_Inr [tx_simps]: "tx_require b e st = Inr (x, st') \<longleftrightarrow> b \<and> st' = st"
  by (auto simp: tx_require_def)

lemma tx_modify_Inr [tx_simps]: "tx_modify f st = Inr (x, st') \<longleftrightarrow> st' = f st"
  by (auto simp: tx_modify_def)

lemma run_tx_Inr: "run_tx f st = (Inr x, st') \<longleftrightarrow> f st = Inr (x, st')"
  by (auto simp: run_tx_def split: sum.splits)

lemma run_tx_Inl: "run_tx f st = (Inl e, st') \<longleftrightarrow> f st = Inl e \<and> st' = st"
  by (auto simp: run_tx_def split: sum.splits)

text \<open>
  The interface of a component with its transactions: each of them keeps an invariant of the store
  and moves it up an order. The client's facts are about the committed store, whether or not the
  transaction succeeded.
\<close>

locale transactional =
  fixes inv :: "store \<Rightarrow> bool" and le :: "store \<Rightarrow> store \<Rightarrow> bool" and tx :: "'a tx"
  assumes le_refl: "le st st"
    and tx_law: "inv st \<Longrightarrow> tx st = Inr (x, st') \<Longrightarrow> inv st' \<and> le st st'"
begin

lemma run_inv: "inv st \<Longrightarrow> inv (snd (run_tx tx st))"
  by (auto simp: run_tx_def dest: tx_law split: sum.splits)

lemma run_le: "inv st \<Longrightarrow> le st (snd (run_tx tx st))"
  by (auto simp: run_tx_def le_refl dest: tx_law split: sum.splits)

lemma error_keeps_store: "fst (run_tx tx st) = Inl e \<Longrightarrow> snd (run_tx tx st) = st"
  by (auto simp: run_tx_def split: sum.splits)

end

end
