(* ===== verification/Delivery_Store.thy ===== *)
theory Delivery_Store
  imports Delivery_Tables "HOL-Library.Multiset"
begin

text \<open>
  The durable delivery repository (\<^verbatim>\<open>internal/execution/delivery_store.go\<close>): loading an aggregate
  from its rows, the event log of a delivery and its replay, admission, and the compare-and-swap
  mutations with their idempotency by event identity and request fingerprint. Every operation is
  a transaction on the tables. The clock and \<^verbatim>\<open>time.Now\<close> are arguments.
\<close>

section \<open>Small helpers\<close>

definition or_time :: "time \<Rightarrow> time \<Rightarrow> time" where
  "or_time t dflt = (if t = 0 then dflt else t)"

primrec tx_each :: "('a \<Rightarrow> unit tx) \<Rightarrow> 'a list \<Rightarrow> unit tx" where
  "tx_each f [] = tx_return ()"
| "tx_each f (x # xs) = tx_bind (f x) (\<lambda>_. tx_each f xs)"

text \<open>The strings of the state constants, which event identities are built from.\<close>

fun state_text :: "delivery_state \<Rightarrow> string" where
  "state_text DeliveryAdmitted = ''admitted''"
| "state_text DeliveryQueued = ''queued''"
| "state_text DeliveryRunning = ''running''"
| "state_text DeliveryCheckpointing = ''checkpointing''"
| "state_text DeliveryWaitingRetry = ''waiting_retry''"
| "state_text DeliveryWaitingDecision = ''waiting_decision''"
| "state_text DeliveryWaitingCredentials = ''waiting_credentials''"
| "state_text DeliveryWaitingQuota = ''waiting_quota''"
| "state_text DeliveryPaused = ''paused''"
| "state_text DeliveryReconciling = ''reconciling''"
| "state_text DeliveryReplanning = ''replanning''"
| "state_text DeliveryCancelRequested = ''cancel_requested''"
| "state_text DeliverySucceeded = ''succeeded''"
| "state_text DeliveryFailed = ''failed''"
| "state_text DeliveryCancelled = ''cancelled''"
| "state_text (DeliveryStateOther s) = s"

definition queueEventIdentity :: "string \<Rightarrow> string \<Rightarrow> int \<Rightarrow> time \<Rightarrow> event_identity" where
  "queueEventIdentity did action epoch at =
     (let key = ''queue:'' @ did @ '':'' @ action @ '':'' @ int_text epoch
      in \<lparr>ei_id = key, ei_idem = key, ei_at = at\<rparr>)"

section \<open>Loading\<close>

definition goal_of_row :: "goal_row \<Rightarrow> goal" where
  "goal_of_row r = \<lparr>g_revision = gr_revision r, g_statement = gr_statement r,
     g_actor = gr_actor r, g_created = parseTimestamp (gr_created r)\<rparr>"

definition loadGoals :: "dkey \<Rightarrow> store \<Rightarrow> goal list" where
  "loadGoals k st =
     map goal_of_row (sort_key gr_revision (filter (\<lambda>r. gr_key r = k) (t_goals st)))"

definition loadAcceptanceChecks :: "dkey \<Rightarrow> int \<Rightarrow> string \<Rightarrow> store \<Rightarrow> acceptance_check list" where
  "loadAcceptanceChecks k revision rid st =
     map (\<lambda>c. \<lparr>ac_id = ck_id c, ac_statement = ck_statement c\<rparr>)
       (sort_key ck_position
         (filter (\<lambda>c. ck_key c = k \<and> ck_revision c = revision \<and> ck_requirement c = rid) (t_checks st)))"

definition requirement_of_row :: "dkey \<Rightarrow> store \<Rightarrow> requirement_row \<Rightarrow> requirement" where
  "requirement_of_row k st r = \<lparr>r_id = rr_id r, r_goal_revision = rr_revision r,
     r_statement = rr_statement r, r_status = rr_status r,
     r_checks = loadAcceptanceChecks k (rr_revision r) (rr_id r) st, r_waiver = rr_waiver r\<rparr>"

definition loadRequirements :: "dkey \<Rightarrow> store \<Rightarrow> requirement list" where
  "loadRequirements k st =
     map (requirement_of_row k st)
       (sort_key (\<lambda>r. (rr_revision r, rr_id r)) (filter (\<lambda>r. rr_key r = k) (t_requirements st)))"

definition resolution_of_row :: "resolution_row \<Rightarrow> resolution" where
  "resolution_of_row w = \<lparr>rs_actor = rw_actor w, rs_choice = rw_choice w,
     rs_rationale = rw_rationale w, rs_resolved = parseTimestamp (rw_resolved w)\<rparr>"

definition decision_of_row :: "dkey \<Rightarrow> store \<Rightarrow> decision_row \<Rightarrow> decision" where
  "decision_of_row k st r = \<lparr>dc_id = dw_id r, dc_question = dw_question r,
     dc_options = dw_options r, dc_recommendation = dw_recommendation r,
     dc_consequences = dw_consequences r, dc_reversible = dw_reversible r,
     dc_deadline = map_option parseTimestamp (dw_deadline r), dc_blocked = dw_blocked r,
     dc_requested = parseTimestamp (dw_requested r),
     dc_resolution = map_option resolution_of_row
       (row_find (\<lambda>w. rw_key w = k \<and> rw_id w = dw_id r) (t_resolutions st))\<rparr>"

definition loadDecisions :: "dkey \<Rightarrow> store \<Rightarrow> decision list" where
  "loadDecisions k st =
     map (decision_of_row k st)
       (sort_key (\<lambda>r. (dw_requested r, dw_id r)) (filter (\<lambda>r. dw_key r = k) (t_decisions st)))"

definition delivery_of_row :: "store \<Rightarrow> delivery_row \<Rightarrow> delivery" where
  "delivery_of_row st r = \<lparr>d_key = dr_key r, d_admission_key = dr_admission_key r,
     d_state = dr_state r, d_version = dr_version r, d_goal_revision = dr_goal_revision r,
     d_policy = dr_policy r, d_max_cost = dr_max_cost r,
     d_created = parseTimestamp (dr_created r), d_updated = parseTimestamp (dr_updated r),
     d_goals = loadGoals (dr_key r) st, d_requirements = loadRequirements (dr_key r) st,
     d_decisions = loadDecisions (dr_key r) st\<rparr>"

definition loadDelivery :: "dkey \<Rightarrow> store \<Rightarrow> delivery_error + delivery" where
  "loadDelivery k st = (case row_find (\<lambda>r. dr_key r = k) (t_deliveries st) of
       None \<Rightarrow> Inl ErrDeliveryNotFound
     | Some r \<Rightarrow> Inr (delivery_of_row st r))"

section \<open>The event log of a delivery\<close>

record delivery_event =
  de_id :: string
  de_seq :: int
  de_type :: delivery_event_type
  de_idem :: string
  de_at :: time
  de_payload :: payload

definition event_of_row :: "event_row \<Rightarrow> delivery_event" where
  "event_of_row e = \<lparr>de_id = er_id e, de_seq = er_seq e, de_type = er_type e,
     de_idem = er_idem e, de_at = parseTimestamp (er_at e), de_payload = er_payload e\<rparr>"

definition log_rows :: "dkey \<Rightarrow> store \<Rightarrow> event_row list" where
  "log_rows k st = filter (\<lambda>e. er_key e = k) (t_events st)"

definition loadDeliveryEventsThrough :: "dkey \<Rightarrow> int \<Rightarrow> store \<Rightarrow> delivery_event list" where
  "loadDeliveryEventsThrough k sequence st =
     map event_of_row (sort_key er_seq (filter (\<lambda>e. er_key e = k \<and> er_seq e \<le> sequence) (t_events st)))"

definition max_seq :: "event_row list \<Rightarrow> int" where
  "max_seq rows = fold (\<lambda>e n. max n (er_seq e)) rows 0"

definition appendDeliveryEvent ::
  "dkey \<Rightarrow> delivery_event_type \<Rightarrow> payload \<Rightarrow> event_identity \<Rightarrow> fingerprint \<Rightarrow> event_row tx" where
  "appendDeliveryEvent k ty p i fp st =
     (case row_find (\<lambda>e. er_key e = k \<and> (er_idem e = ei_idem i \<or> er_id e = ei_id i)) (t_events st) of
        Some x \<Rightarrow>
          if er_id x \<noteq> ei_id i \<or> er_idem x \<noteq> ei_idem i \<or> er_type x \<noteq> ty \<or> er_payload x \<noteq> p \<or>
             er_at x \<noteq> timestamp (ei_at i)
          then Inl ErrEventConflict else Inr (x, st)
      | None \<Rightarrow>
          (let row = \<lparr>er_key = k, er_seq = max_seq (log_rows k st) + 1, er_id = ei_id i,
                 er_idem = ei_idem i, er_type = ty, er_at = timestamp (ei_at i), er_payload = p,
                 er_fingerprint = fp\<rparr>
           in Inr (row, st\<lparr>t_events := t_events st @ [row]\<rparr>)))"

subsection \<open>Decoding a payload\<close>

text \<open>
  \<^verbatim>\<open>json.Unmarshal\<close> into a struct leaves the fields a document does not have at their zero values,
  so each field has a reader for every payload; a document the program did not write fails.
\<close>

fun p_decodes :: "payload \<Rightarrow> bool" where
  "p_decodes (PRaw s) = False"
| "p_decodes p = True"

fun p_version :: "payload \<Rightarrow> int" where
  "p_version (PTransitioned f t v) = v"
| "p_version (PGoalRevised g rs v) = v"
| "p_version (PRequirementUpdated i n s w v) = v"
| "p_version (PDecisionRequested d v) = v"
| "p_version (PDecisionResolved i r v) = v"
| "p_version p = 0"

fun p_delivery :: "payload \<Rightarrow> delivery" where
  "p_delivery (PAdmitted d) = d"
| "p_delivery p = zero_delivery"

fun p_from_to :: "payload \<Rightarrow> delivery_state \<times> delivery_state" where
  "p_from_to (PTransitioned f t v) = (f, t)"
| "p_from_to p = (DeliveryStateOther '''', DeliveryStateOther '''')"

fun p_goal :: "payload \<Rightarrow> goal \<times> requirement list" where
  "p_goal (PGoalRevised g rs v) = (g, rs)"
| "p_goal p = (\<lparr>g_revision = 0, g_statement = '''', g_actor = '''', g_created = 0\<rparr>, [])"

fun p_requirement :: "payload \<Rightarrow> string \<times> int \<times> requirement_status \<times> waiver option" where
  "p_requirement (PRequirementUpdated i n s w v) = (i, n, s, w)"
| "p_requirement p = ('''', 0, RequirementStatusOther '''', None)"

definition zero_decision :: decision where
  "zero_decision = \<lparr>dc_id = '''', dc_question = '''', dc_options = [], dc_recommendation = '''',
     dc_consequences = '''', dc_reversible = False, dc_deadline = None, dc_blocked = [],
     dc_requested = 0, dc_resolution = None\<rparr>"

fun p_decision :: "payload \<Rightarrow> decision" where
  "p_decision (PDecisionRequested d v) = d"
| "p_decision p = zero_decision"

fun p_resolution :: "payload \<Rightarrow> string \<times> resolution" where
  "p_resolution (PDecisionResolved i r v) = (i, r)"
| "p_resolution p = ('''', \<lparr>rs_actor = '''', rs_choice = '''', rs_rationale = '''', rs_resolved = 0\<rparr>)"

subsection \<open>Replay\<close>

definition set_requirement ::
  "string \<Rightarrow> int \<Rightarrow> requirement_status \<Rightarrow> waiver option \<Rightarrow> requirement \<Rightarrow> requirement" where
  "set_requirement rid revision status w r =
     (if r_id r = rid \<and> r_goal_revision r = revision then r\<lparr>r_status := status, r_waiver := w\<rparr> else r)"

definition replay_transitioned :: "delivery \<Rightarrow> delivery_event \<Rightarrow> delivery_error + delivery" where
  "replay_transitioned d e =
     (let p = de_payload e; f = fst (p_from_to p); t = snd (p_from_to p)
      in if \<not> p_decodes p \<or> d_state d \<noteq> f \<or> \<not> validDeliveryTransition f t \<or> p_version p \<noteq> d_version d + 1
         then Inl ErrInvalidDelivery
         else Inr (d\<lparr>d_state := t, d_version := p_version p, d_updated := de_at e\<rparr>))"

definition replay_goal :: "delivery \<Rightarrow> delivery_event \<Rightarrow> delivery_error + delivery" where
  "replay_goal d e =
     (let p = de_payload e; g = fst (p_goal p)
      in if \<not> p_decodes p \<or> p_version p \<noteq> d_version d + 1 \<or> g_revision g \<noteq> d_goal_revision d + 1
         then Inl ErrInvalidDelivery
         else Inr (d\<lparr>d_goals := d_goals d @ [g], d_requirements := d_requirements d @ snd (p_goal p),
                d_goal_revision := g_revision g, d_version := p_version p, d_updated := de_at e\<rparr>))"

definition replay_requirement :: "delivery \<Rightarrow> delivery_event \<Rightarrow> delivery_error + delivery" where
  "replay_requirement d e =
     (let p = de_payload e; (rid, n, s, w) = p_requirement p
      in if \<not> p_decodes p \<or> p_version p \<noteq> d_version d + 1 then Inl ErrInvalidDelivery
         else if \<not> list_ex (\<lambda>r. r_id r = rid \<and> r_goal_revision r = n) (d_requirements d)
         then Inl ErrInvalidDelivery
         else Inr (d\<lparr>d_requirements := map (set_requirement rid n s w) (d_requirements d),
                d_version := p_version p, d_updated := de_at e\<rparr>))"

definition replay_decision :: "delivery \<Rightarrow> delivery_event \<Rightarrow> delivery_error + delivery" where
  "replay_decision d e =
     (let p = de_payload e
      in if \<not> p_decodes p \<or> p_version p \<noteq> d_version d + 1 then Inl ErrInvalidDelivery
         else Inr (d\<lparr>d_decisions := d_decisions d @ [p_decision p], d_version := p_version p,
                d_updated := de_at e\<rparr>))"

definition replay_resolution :: "delivery \<Rightarrow> delivery_event \<Rightarrow> delivery_error + delivery" where
  "replay_resolution d e =
     (let p = de_payload e; did = fst (p_resolution p); res = snd (p_resolution p)
      in if \<not> p_decodes p \<or> p_version p \<noteq> d_version d + 1 then Inl ErrInvalidDelivery
         else if \<not> list_ex (\<lambda>x. dc_id x = did \<and> dc_resolution x = None) (d_decisions d)
         then Inl ErrInvalidDelivery
         else Inr (d\<lparr>d_decisions := map (\<lambda>x. if dc_id x = did \<and> dc_resolution x = None
                     then x\<lparr>dc_resolution := Some res\<rparr> else x) (d_decisions d),
                d_version := p_version p, d_updated := de_at e\<rparr>))"

text \<open>One turn of the loop of \<^verbatim>\<open>ReplayDelivery\<close>: the event at index \<open>i\<close>.\<close>

definition replay_step :: "nat \<Rightarrow> delivery \<Rightarrow> delivery_event \<Rightarrow> delivery_error + delivery" where
  "replay_step i d e =
     (if de_seq e \<noteq> int i + 1 then Inl ErrInvalidDelivery
      else (case de_type e of
          DeliveryEventAdmitted \<Rightarrow>
            if i \<noteq> 0 \<or> \<not> p_decodes (de_payload e) then Inl ErrInvalidDelivery
            else Inr (p_delivery (de_payload e))
        | DeliveryEventTransitioned \<Rightarrow> replay_transitioned d e
        | DeliveryEventGoalRevised \<Rightarrow> replay_goal d e
        | DeliveryEventRequirementUpdated \<Rightarrow> replay_requirement d e
        | DeliveryEventDecisionRequested \<Rightarrow> replay_decision d e
        | DeliveryEventDecisionResolved \<Rightarrow> replay_resolution d e
        | _ \<Rightarrow> Inr d))"

fun replay_from :: "nat \<Rightarrow> delivery \<Rightarrow> delivery_event list \<Rightarrow> delivery_error + delivery" where
  "replay_from i d [] = Inr d"
| "replay_from i d (e # es) =
     (case replay_step i d e of Inl err \<Rightarrow> Inl err | Inr d' \<Rightarrow> replay_from (Suc i) d' es)"

definition ReplayDelivery :: "delivery_event list \<Rightarrow> delivery_error + delivery" where
  "ReplayDelivery es = (case replay_from 0 zero_delivery es of
       Inl err \<Rightarrow> Inl err
     | Inr d \<Rightarrow> if snd (snd (d_key d)) = '''' then Inl ErrInvalidDelivery else Inr d)"

section \<open>Inserting goals\<close>

definition insertCheck :: "dkey \<Rightarrow> requirement \<Rightarrow> nat \<times> acceptance_check \<Rightarrow> unit tx" where
  "insertCheck k r pc = tx_bind
     (tx_read (\<lambda>st. if row_find (\<lambda>c. ck_key c = k \<and> ck_revision c = r_goal_revision r \<and>
          ck_requirement c = r_id r \<and> (ck_id c = ac_id (snd pc) \<or> ck_position c = fst pc)) (t_checks st) = None
        then Inr () else Inl ErrConstraint))
     (\<lambda>_. tx_modify (\<lambda>st. st\<lparr>t_checks := t_checks st @ [\<lparr>ck_key = k,
        ck_revision = r_goal_revision r, ck_requirement = r_id r, ck_id = ac_id (snd pc),
        ck_position = fst pc, ck_statement = ac_statement (snd pc)\<rparr>]\<rparr>))"

definition insertRequirement :: "dkey \<Rightarrow> requirement \<Rightarrow> unit tx" where
  "insertRequirement k r = tx_bind
     (tx_read (\<lambda>st. if row_find (\<lambda>x. rr_key x = k \<and> rr_revision x = r_goal_revision r \<and> rr_id x = r_id r)
          (t_requirements st) = None then Inr () else Inl ErrConstraint))
     (\<lambda>_. tx_bind (tx_modify (\<lambda>st. st\<lparr>t_requirements := t_requirements st @ [\<lparr>rr_key = k,
        rr_revision = r_goal_revision r, rr_id = r_id r, rr_statement = r_statement r,
        rr_status = r_status r, rr_waiver = r_waiver r\<rparr>]\<rparr>))
     (\<lambda>_. tx_each (insertCheck k r) (List.enumerate 0 (r_checks r))))"

definition insertGoal :: "dkey \<Rightarrow> goal \<Rightarrow> requirement list \<Rightarrow> unit tx" where
  "insertGoal k g rs = tx_bind
     (tx_read (\<lambda>st. if row_find (\<lambda>x. gr_key x = k \<and> gr_revision x = g_revision g) (t_goals st) = None
        then Inr () else Inl ErrConstraint))
     (\<lambda>_. tx_bind (tx_modify (\<lambda>st. st\<lparr>t_goals := t_goals st @ [\<lparr>gr_key = k,
        gr_revision = g_revision g, gr_statement = g_statement g, gr_actor = g_actor g,
        gr_created = timestamp (g_created g)\<rparr>]\<rparr>))
     (\<lambda>_. tx_each (insertRequirement k) rs))"

section \<open>Transitions inside a transaction\<close>

definition set_delivery_row :: "dkey \<Rightarrow> (delivery_row \<Rightarrow> delivery_row) \<Rightarrow> store \<Rightarrow> store" where
  "set_delivery_row k f st = st\<lparr>t_deliveries := row_update (\<lambda>r. dr_key r = k) f (t_deliveries st)\<rparr>"

definition transitionInTx :: "delivery \<Rightarrow> delivery_state \<Rightarrow> event_identity \<Rightarrow> delivery tx" where
  "transitionInTx d nxt i = tx_bind (tx_read (\<lambda>_. Transition nxt d)) (\<lambda>d1.
     let d2 = d1\<lparr>d_version := d_version d1 + 1, d_updated := ei_at i\<rparr>
     in tx_bind (tx_modify (set_delivery_row (d_key d) (\<lambda>r. r\<lparr>dr_state := d_state d2,
            dr_version := d_version d2, dr_updated := timestamp (d_updated d2)\<rparr>)))
        (\<lambda>_. tx_bind (appendDeliveryEvent (d_key d) DeliveryEventTransitioned
            (PTransitioned (d_state d) nxt (d_version d2)) i FPNone)
        (\<lambda>_. tx_return d2)))"

section \<open>Admission\<close>

definition stamp_requirement :: "int \<Rightarrow> time \<Rightarrow> requirement \<Rightarrow> requirement" where
  "stamp_requirement revision at r = r\<lparr>r_goal_revision := revision,
     r_waiver := map_option (\<lambda>w. w\<lparr>w_created := or_time (w_created w) at\<rparr>) (r_waiver r)\<rparr>"

definition strip_requirement :: "requirement \<Rightarrow> requirement" where
  "strip_requirement r = r\<lparr>r_waiver := map_option (\<lambda>w. w\<lparr>w_created := 0\<rparr>) (r_waiver r)\<rparr>"

definition normalizeAdmission :: "admission \<Rightarrow> time \<Rightarrow> delivery_error + (admission \<times> admission_fp)" where
  "normalizeAdmission a now =
     (if \<not> validateDeliveryRef (a_key a) \<or> a_admission_key a = '''' \<or> g_statement (a_goal a) = '''' \<or>
         g_actor (a_goal a) = '''' \<or> ei_id (a_event a) = '''' \<or> ei_idem (a_event a) = '''' \<or> a_max_cost a < 0
      then Inl ErrInvalidDelivery
      else
        (let at = or_time (ei_at (a_event a)) now;
             g = (a_goal a)\<lparr>g_revision := 1, g_created := or_time (g_created (a_goal a)) at\<rparr>;
             rs = map (stamp_requirement 1 at) (a_requirements a);
             a' = a\<lparr>a_goal := g, a_requirements := rs, a_event := (a_event a)\<lparr>ei_at := at\<rparr>\<rparr>
         in if \<not> requirements_ok 1 [] rs then Inl ErrInvalidDelivery
            else Inr (a', AdmissionFP (snd (snd (a_key a))) (g\<lparr>g_created := 0\<rparr>)
              (map strip_requirement rs) (a_policy a) (a_max_cost a) (ei_id (a_event a)) (ei_idem (a_event a)))))"

definition queue_row_of :: "dkey \<Rightarrow> time \<Rightarrow> time \<Rightarrow> time \<Rightarrow> queue_row" where
  "queue_row_of k available created updated = \<lparr>q_key = k, q_status = QReady,
     q_available = timestamp available, q_signal = '''', q_owner = None, q_epoch = 0,
     q_acquired = None, q_expires = None, q_heartbeat = None, q_result = '''',
     q_created = timestamp created, q_updated = timestamp updated\<rparr>"

definition insertQueueRow :: "queue_row \<Rightarrow> unit tx" where
  "insertQueueRow q = tx_bind
     (tx_read (\<lambda>st. if row_find (\<lambda>x. q_key x = q_key q) (t_queue st) = None then Inr () else Inl ErrConstraint))
     (\<lambda>_. tx_modify (\<lambda>st. st\<lparr>t_queue := t_queue st @ [q]\<rparr>))"

definition ensureQueueRow :: "queue_row \<Rightarrow> unit tx" where
  "ensureQueueRow q = tx_modify (\<lambda>st.
     if row_find (\<lambda>x. q_key x = q_key q) (t_queue st) = None then st\<lparr>t_queue := t_queue st @ [q]\<rparr> else st)"

definition admitted_delivery :: "admission \<Rightarrow> delivery" where
  "admitted_delivery a = \<lparr>d_key = a_key a, d_admission_key = a_admission_key a,
     d_state = DeliveryAdmitted, d_version = 1, d_goal_revision = 1, d_policy = a_policy a,
     d_max_cost = a_max_cost a, d_created = ei_at (a_event a), d_updated = ei_at (a_event a),
     d_goals = [a_goal a], d_requirements = a_requirements a, d_decisions = []\<rparr>"

definition delivery_row_of :: "delivery \<Rightarrow> admission_fp \<Rightarrow> delivery_row" where
  "delivery_row_of d fp = \<lparr>dr_key = d_key d, dr_admission_key = d_admission_key d,
     dr_fingerprint = fp, dr_state = d_state d, dr_version = d_version d,
     dr_goal_revision = d_goal_revision d, dr_policy = d_policy d, dr_max_cost = d_max_cost d,
     dr_created = timestamp (d_created d), dr_updated = timestamp (d_updated d)\<rparr>"

text \<open>A repeated admission: the same content returns the delivery, other content conflicts.\<close>

definition admit_again :: "admission \<Rightarrow> admission_fp \<Rightarrow> bool \<Rightarrow> delivery_row \<Rightarrow> delivery tx" where
  "admit_again a fp runnable r =
     (if dr_key r \<noteq> a_key a \<or> dr_fingerprint r \<noteq> fp then tx_fail ErrAdmissionConflict
      else tx_bind (tx_read (loadDelivery (a_key a))) (\<lambda>d.
        if \<not> runnable then tx_return d
        else tx_bind
          (if d_state d = DeliveryAdmitted
           then transitionInTx d DeliveryQueued
             (queueEventIdentity (snd (snd (d_key d))) ''admit'' 0 (ei_at (a_event a)))
           else tx_return d)
          (\<lambda>d'. tx_bind (ensureQueueRow (queue_row_of (d_key d') (d_created d') (d_created d') (d_created d')))
            (\<lambda>_. tx_return d'))))"

definition admit_queue :: "admission \<Rightarrow> delivery \<Rightarrow> delivery tx" where
  "admit_queue a d =
     (let d2 = d\<lparr>d_state := DeliveryQueued, d_version := d_version d + 1\<rparr>
      in tx_bind (appendDeliveryEvent (a_key a) DeliveryEventTransitioned
           (PTransitioned (d_state d) DeliveryQueued (d_version d2))
           (queueEventIdentity (snd (snd (a_key a))) ''admit'' 0 (ei_at (a_event a))) FPNone)
         (\<lambda>_. tx_bind (tx_modify (set_delivery_row (a_key a)
             (\<lambda>r. r\<lparr>dr_state := d_state d2, dr_version := d_version d2\<rparr>)))
         (\<lambda>_. tx_bind (insertQueueRow (queue_row_of (a_key a) (d_created d2) (d_created d2) (d_created d2)))
         (\<lambda>_. tx_return d2))))"

definition admit_new :: "admission \<Rightarrow> admission_fp \<Rightarrow> bool \<Rightarrow> delivery tx" where
  "admit_new a fp runnable =
     (let d = admitted_delivery a
      in tx_bind (tx_modify (\<lambda>st. st\<lparr>t_deliveries := t_deliveries st @ [delivery_row_of d fp]\<rparr>))
         (\<lambda>_. tx_bind (insertGoal (a_key a) (a_goal a) (a_requirements a))
         (\<lambda>_. tx_bind (appendDeliveryEvent (a_key a) DeliveryEventAdmitted (PAdmitted d) (a_event a) FPNone)
         (\<lambda>_. if runnable then admit_queue a d else tx_return d))))"

definition admit_tx :: "admission \<Rightarrow> admission_fp \<Rightarrow> bool \<Rightarrow> delivery tx" where
  "admit_tx a fp runnable st =
     (case row_find (\<lambda>r. fst (dr_key r) = fst (a_key a) \<and> fst (snd (dr_key r)) = fst (snd (a_key a)) \<and>
          dr_admission_key r = a_admission_key a) (t_deliveries st) of
        Some r \<Rightarrow> admit_again a fp runnable r st
      | None \<Rightarrow>
          (case row_find (\<lambda>r. dr_key r = a_key a) (t_deliveries st) of
             Some r \<Rightarrow> Inl ErrAdmissionConflict
           | None \<Rightarrow> admit_new a fp runnable st))"

definition admit :: "admission \<Rightarrow> bool \<Rightarrow> time \<Rightarrow> store \<Rightarrow> (delivery_error + delivery) \<times> store" where
  "admit a runnable now st = (case normalizeAdmission a now of
       Inl e \<Rightarrow> (Inl e, st)
     | Inr (a', fp) \<Rightarrow> run_tx (admit_tx a' fp runnable) st)"

section \<open>Mutations\<close>

text \<open>
  A retry of a mutation is recognised by the identity of its event. The same request returns the
  aggregate as it was right after the first attempt; another request under that identity conflicts.
\<close>

definition loadExistingMutation ::
  "dkey \<Rightarrow> delivery_event_type \<Rightarrow> event_identity \<Rightarrow> fingerprint \<Rightarrow> store \<Rightarrow> delivery_error + delivery option" where
  "loadExistingMutation k ty i fp st =
     (case row_find (\<lambda>e. er_key e = k \<and> (er_id e = ei_id i \<or> er_idem e = ei_idem i)) (t_events st) of
        None \<Rightarrow> Inr None
      | Some x \<Rightarrow>
          if er_id x \<noteq> ei_id i \<or> er_idem x \<noteq> ei_idem i \<or> er_type x \<noteq> ty \<or> er_fingerprint x \<noteq> fp
          then Inl ErrEventConflict
          else map_sum (\<lambda>e. e) Some (ReplayDelivery (loadDeliveryEventsThrough k (er_seq x) st)))"

text \<open>
  \<^verbatim>\<open>resolveMutationFailure\<close> rereads the store, up to a hundred times, while another writer may be
  committing. The reads are given: one triple of snapshots for each round (the identity lookup,
  the version read and the second identity lookup), ending early when the context is done.
\<close>

type_synonym observations = "(store \<times> store \<times> store) list"

fun resolveMutationFailure ::
  "nat \<Rightarrow> observations \<Rightarrow> dkey \<Rightarrow> int \<Rightarrow> delivery_event_type \<Rightarrow> event_identity \<Rightarrow> fingerprint \<Rightarrow>
   delivery_error \<Rightarrow> delivery_error + delivery" where
  "resolveMutationFailure 0 obs k v ty i fp original = Inl original"
| "resolveMutationFailure (Suc n) [] k v ty i fp original = Inl ErrContext"
| "resolveMutationFailure (Suc n) ((s1, s2, s3) # obs) k v ty i fp original =
     (case loadExistingMutation k ty i fp s1 of
        Inl e \<Rightarrow> Inl e
      | Inr (Some d) \<Rightarrow> Inr d
      | Inr None \<Rightarrow>
          (case loadDelivery k s2 of
             Inr cur \<Rightarrow>
               if d_version cur \<noteq> v then
                 (case loadExistingMutation k ty i fp s3 of
                    Inl e \<Rightarrow> Inl e
                  | Inr (Some d) \<Rightarrow> Inr d
                  | Inr None \<Rightarrow> Inl ErrStaleDeliveryVersion)
               else resolveMutationFailure n obs k v ty i fp original
           | Inl e \<Rightarrow> resolveMutationFailure n obs k v ty i fp original))"

text \<open>A mutation changes the aggregate inside the transaction and yields the event's payload.\<close>

type_synonym mutation = "delivery \<Rightarrow> ((int \<Rightarrow> payload) \<times> delivery) tx"

text \<open>Failures that are returned as they are, and failures that are resolved by rereading.\<close>

datatype mut_failure = Direct delivery_error | Resolve delivery_error

definition mutation_error :: "delivery_error \<Rightarrow> mut_failure" where
  "mutation_error e =
     (if e \<in> {ErrInvalidDelivery, ErrInvalidDeliveryTransition, ErrDeliveryNotFound} then Direct e else Resolve e)"

definition apply_mutation ::
  "dkey \<Rightarrow> int \<Rightarrow> delivery_event_type \<Rightarrow> event_identity \<Rightarrow> fingerprint \<Rightarrow> mutation \<Rightarrow> delivery \<Rightarrow> store \<Rightarrow>
   mut_failure + (delivery \<times> store)" where
  "apply_mutation k v ty i fp mu d st = (case mu d st of
       Inl e \<Rightarrow> Inl (mutation_error e)
     | Inr ((pv, d1), st1) \<Rightarrow>
         (let d2 = d1\<lparr>d_version := d_version d1 + 1, d_updated := ei_at i\<rparr>;
              sel = (\<lambda>r. dr_key r = k \<and> dr_version r = v);
              st2 = st1\<lparr>t_deliveries := row_update sel (\<lambda>r. r\<lparr>dr_state := d_state d2,
                 dr_version := d_version d2, dr_goal_revision := d_goal_revision d2,
                 dr_updated := timestamp (d_updated d2)\<rparr>) (t_deliveries st1)\<rparr>
          in if row_count sel (t_deliveries st1) \<noteq> 1 then Inl (Direct ErrStaleDeliveryVersion)
             else (case appendDeliveryEvent k ty (pv (d_version d2)) i fp st2 of
                     Inl e \<Rightarrow> Inl (Resolve e)
                   | Inr (row, st3) \<Rightarrow> Inr (d2, st3))))"

definition mutate ::
  "observations \<Rightarrow> time \<Rightarrow> dkey \<Rightarrow> int \<Rightarrow> delivery_event_type \<Rightarrow> event_identity \<Rightarrow> fingerprint \<Rightarrow> mutation \<Rightarrow>
   store \<Rightarrow> (delivery_error + delivery) \<times> store" where
  "mutate obs now k v ty i0 fp mu st =
     (if \<not> validateDeliveryRef k \<or> v < 1 \<or> ei_id i0 = '''' \<or> ei_idem i0 = '''' then (Inl ErrInvalidDelivery, st)
      else
        (let i = i0\<lparr>ei_at := or_time (ei_at i0) now\<rparr>
         in case loadExistingMutation k ty i fp st of
              Inl e \<Rightarrow> (Inl e, st)
            | Inr (Some d) \<Rightarrow> (Inr d, st)
            | Inr None \<Rightarrow>
                (case loadDelivery k st of
                   Inl e \<Rightarrow> (Inl e, st)
                 | Inr d \<Rightarrow>
                     if d_version d \<noteq> v then (Inl ErrStaleDeliveryVersion, st)
                     else (case apply_mutation k v ty i fp mu d st of
                             Inr (d2, st2) \<Rightarrow> (Inr d2, st2)
                           | Inl (Direct e) \<Rightarrow> (Inl e, st)
                           | Inl (Resolve e) \<Rightarrow> (resolveMutationFailure 100 obs k v ty i fp e, st)))))"

subsection \<open>The five aggregate mutations\<close>

definition transition_mutation :: "delivery_state \<Rightarrow> mutation" where
  "transition_mutation nxt d = tx_bind (tx_read (\<lambda>_. Transition nxt d))
     (\<lambda>d'. tx_return (PTransitioned (d_state d) nxt, d'))"

definition store_Transition ::
  "observations \<Rightarrow> time \<Rightarrow> dkey \<Rightarrow> int \<Rightarrow> delivery_state \<Rightarrow> event_identity \<Rightarrow> store \<Rightarrow>
   (delivery_error + delivery) \<times> store" where
  "store_Transition obs now k v nxt i st =
     mutate obs now k v DeliveryEventTransitioned i
       (FP DeliveryEventTransitioned v (ReqTransition nxt)) (transition_mutation nxt) st"

definition goal_mutation :: "goal \<Rightarrow> requirement list \<Rightarrow> mutation" where
  "goal_mutation g rs d =
     (if g_revision g \<noteq> d_goal_revision d + 1 \<or> g_statement g = '''' \<or> g_actor g = ''''
      then tx_fail ErrInvalidDelivery
      else if \<not> requirements_ok (g_revision g) [] rs then tx_fail ErrInvalidDelivery
      else tx_bind (insertGoal (d_key d) g rs) (\<lambda>_. tx_return
        (PGoalRevised g rs, d\<lparr>d_goal_revision := g_revision g, d_goals := d_goals d @ [g],
           d_requirements := d_requirements d @ rs\<rparr>)))"

definition ReviseGoal ::
  "observations \<Rightarrow> time \<Rightarrow> dkey \<Rightarrow> int \<Rightarrow> goal \<Rightarrow> requirement list \<Rightarrow> event_identity \<Rightarrow> store \<Rightarrow>
   (delivery_error + delivery) \<times> store" where
  "ReviseGoal obs now k v g0 rs0 i0 st =
     (let at = or_time (ei_at i0) now; i = i0\<lparr>ei_at := at\<rparr>;
          g = g0\<lparr>g_created := or_time (g_created g0) at\<rparr>;
          rs = map (stamp_requirement (g_revision g) at) rs0
      in mutate obs now k v DeliveryEventGoalRevised i
           (FP DeliveryEventGoalRevised v (ReqGoal (g\<lparr>g_created := 0\<rparr>) (map strip_requirement rs)))
           (goal_mutation g rs) st)"

definition requirement_mutation :: "string \<Rightarrow> requirement_status \<Rightarrow> waiver option \<Rightarrow> mutation" where
  "requirement_mutation rid status w d =
     (if rid = '''' \<or> \<not> known_status status \<or> (status = RequirementWaived) \<noteq> (w \<noteq> None)
      then tx_fail ErrInvalidDelivery
      else if (case w of None \<Rightarrow> False | Some x \<Rightarrow> w_actor x = '''' \<or> w_reason x = '''')
      then tx_fail ErrInvalidDelivery
      else
        (let sel = (\<lambda>r. rr_key r = d_key d \<and> rr_revision r = d_goal_revision d \<and> rr_id r = rid)
         in tx_bind (tx_read (\<lambda>st. if row_count sel (t_requirements st) = 1 then Inr () else Inl ErrDeliveryNotFound))
            (\<lambda>_. tx_bind (tx_modify (\<lambda>st. st\<lparr>t_requirements :=
                row_update sel (\<lambda>r. r\<lparr>rr_status := status, rr_waiver := w\<rparr>) (t_requirements st)\<rparr>))
            (\<lambda>_. tx_return (PRequirementUpdated rid (d_goal_revision d) status w,
               d\<lparr>d_requirements := map (set_requirement rid (d_goal_revision d) status w) (d_requirements d)\<rparr>)))))"

definition UpdateRequirement ::
  "observations \<Rightarrow> time \<Rightarrow> dkey \<Rightarrow> int \<Rightarrow> string \<Rightarrow> requirement_status \<Rightarrow> waiver option \<Rightarrow> event_identity \<Rightarrow>
   store \<Rightarrow> (delivery_error + delivery) \<times> store" where
  "UpdateRequirement obs now k v rid status w0 i0 st =
     (let at = or_time (ei_at i0) now; i = i0\<lparr>ei_at := at\<rparr>;
          w = map_option (\<lambda>x. x\<lparr>w_created := or_time (w_created x) at\<rparr>) w0
      in mutate obs now k v DeliveryEventRequirementUpdated i
           (FP DeliveryEventRequirementUpdated v
             (ReqRequirement rid status (map_option (\<lambda>x. x\<lparr>w_created := 0\<rparr>) w)))
           (requirement_mutation rid status w) st)"

definition insert_decision_row :: "dkey \<Rightarrow> decision \<Rightarrow> unit tx" where
  "insert_decision_row k d = tx_bind
     (tx_read (\<lambda>st. if row_find (\<lambda>r. dw_key r = k \<and> dw_id r = dc_id d) (t_decisions st) = None
        then Inr () else Inl ErrConstraint))
     (\<lambda>_. tx_modify (\<lambda>st. st\<lparr>t_decisions := t_decisions st @ [\<lparr>dw_key = k, dw_id = dc_id d,
        dw_question = dc_question d, dw_options = dc_options d,
        dw_recommendation = dc_recommendation d, dw_consequences = dc_consequences d,
        dw_reversible = dc_reversible d, dw_deadline = map_option timestamp (dc_deadline d),
        dw_blocked = dc_blocked d, dw_requested = timestamp (dc_requested d)\<rparr>]\<rparr>))"

definition request_mutation :: "decision \<Rightarrow> mutation" where
  "request_mutation dec d =
     (if dc_id dec = '''' \<or> dc_question dec = '''' \<or> dc_resolution dec \<noteq> None then tx_fail ErrInvalidDelivery
      else tx_bind (insert_decision_row (d_key d) dec)
        (\<lambda>_. tx_return (PDecisionRequested dec, d\<lparr>d_decisions := d_decisions d @ [dec]\<rparr>)))"

definition RequestDecision ::
  "observations \<Rightarrow> time \<Rightarrow> dkey \<Rightarrow> int \<Rightarrow> decision \<Rightarrow> event_identity \<Rightarrow> store \<Rightarrow>
   (delivery_error + delivery) \<times> store" where
  "RequestDecision obs now k v dec0 i0 st =
     (let at = or_time (ei_at i0) now; i = i0\<lparr>ei_at := at\<rparr>;
          dec = dec0\<lparr>dc_requested := or_time (dc_requested dec0) at\<rparr>
      in mutate obs now k v DeliveryEventDecisionRequested i
           (FP DeliveryEventDecisionRequested v (ReqDecision (dec\<lparr>dc_requested := 0\<rparr>)))
           (request_mutation dec) st)"

text \<open>\<^verbatim>\<open>INSERT ... SELECT\<close>: nothing is inserted for an unknown decision, and a second resolution
  of a decision violates the primary key.\<close>

definition insert_resolution_row :: "dkey \<Rightarrow> string \<Rightarrow> resolution \<Rightarrow> unit tx" where
  "insert_resolution_row k did res = tx_bind
     (tx_read (\<lambda>st. if row_find (\<lambda>r. dw_key r = k \<and> dw_id r = did) (t_decisions st) = None
        then Inl ErrDeliveryNotFound
        else if row_find (\<lambda>w. rw_key w = k \<and> rw_id w = did) (t_resolutions st) \<noteq> None
        then Inl ErrConstraint else Inr ()))
     (\<lambda>_. tx_modify (\<lambda>st. st\<lparr>t_resolutions := t_resolutions st @ [\<lparr>rw_key = k, rw_id = did,
        rw_actor = rs_actor res, rw_choice = rs_choice res, rw_rationale = rs_rationale res,
        rw_resolved = timestamp (rs_resolved res)\<rparr>]\<rparr>))"

definition resolve_mutation :: "string \<Rightarrow> resolution \<Rightarrow> mutation" where
  "resolve_mutation did res d =
     (if did = '''' \<or> rs_actor res = '''' \<or> rs_choice res = '''' then tx_fail ErrInvalidDelivery
      else tx_bind (insert_resolution_row (d_key d) did res)
        (\<lambda>_. tx_return (PDecisionResolved did res, d\<lparr>d_decisions :=
           map (\<lambda>x. if dc_id x = did then x\<lparr>dc_resolution := Some res\<rparr> else x) (d_decisions d)\<rparr>)))"

definition ResolveDecision ::
  "observations \<Rightarrow> time \<Rightarrow> dkey \<Rightarrow> int \<Rightarrow> string \<Rightarrow> resolution \<Rightarrow> event_identity \<Rightarrow> store \<Rightarrow>
   (delivery_error + delivery) \<times> store" where
  "ResolveDecision obs now k v did res0 i0 st =
     (let at = or_time (ei_at i0) now; i = i0\<lparr>ei_at := at\<rparr>;
          res = res0\<lparr>rs_resolved := or_time (rs_resolved res0) at\<rparr>
      in mutate obs now k v DeliveryEventDecisionResolved i
           (FP DeliveryEventDecisionResolved v (ReqResolution did (res\<lparr>rs_resolved := 0\<rparr>)))
           (resolve_mutation did res) st)"

subsection \<open>Other events and queries\<close>

definition aggregate_event :: "delivery_event_type \<Rightarrow> bool" where
  "aggregate_event ty = (ty \<in> {DeliveryEventAdmitted, DeliveryEventTransitioned, DeliveryEventGoalRevised,
     DeliveryEventRequirementUpdated, DeliveryEventDecisionRequested, DeliveryEventDecisionResolved})"

definition AppendEvent ::
  "time \<Rightarrow> dkey \<Rightarrow> delivery_event_type \<Rightarrow> string \<Rightarrow> event_identity \<Rightarrow> store \<Rightarrow>
   (delivery_error + delivery_event) \<times> store" where
  "AppendEvent now k ty raw i0 st =
     (if \<not> validateDeliveryRef k \<or> ty = DeliveryEventOther '''' \<or> ei_id i0 = '''' \<or> ei_idem i0 = ''''
      then (Inl ErrInvalidDelivery, st)
      else if aggregate_event ty then (Inl ErrInvalidDelivery, st)
      else run_tx (tx_bind (tx_read (loadDelivery k))
        (\<lambda>_. tx_bind (appendDeliveryEvent k ty (PRaw raw) (i0\<lparr>ei_at := or_time (ei_at i0) now\<rparr>) FPNone)
        (\<lambda>row. tx_return (event_of_row row)))) st)"

definition store_Load :: "dkey \<Rightarrow> store \<Rightarrow> delivery_error + delivery" where
  "store_Load k st = (if \<not> validateDeliveryRef k then Inl ErrInvalidDelivery else loadDelivery k st)"

definition store_Events :: "dkey \<Rightarrow> store \<Rightarrow> delivery_error + delivery_event list" where
  "store_Events k st =
     (if \<not> validateDeliveryRef k then Inl ErrInvalidDelivery
      else (case store_Load k st of
              Inl e \<Rightarrow> Inl e
            | Inr d \<Rightarrow> Inr (map event_of_row (sort_key er_seq (log_rows k st)))))"

record delivery_summary =
  ds_id :: string
  ds_state :: delivery_state
  ds_version :: int
  ds_goal_revision :: int
  ds_created :: time
  ds_updated :: time

definition summary_of_row :: "delivery_row \<Rightarrow> delivery_summary" where
  "summary_of_row r = \<lparr>ds_id = snd (snd (dr_key r)), ds_state = dr_state r, ds_version = dr_version r,
     ds_goal_revision = dr_goal_revision r, ds_created = parseTimestamp (dr_created r),
     ds_updated = parseTimestamp (dr_updated r)\<rparr>"

definition listByStates ::
  "string \<times> string \<Rightarrow> delivery_state list \<Rightarrow> store \<Rightarrow> delivery_error + delivery_summary list" where
  "listByStates scope states st =
     (if fst scope = '''' \<or> snd scope = '''' then Inl ErrInvalidDelivery
      else Inr (map summary_of_row (sort_key (\<lambda>r. (dr_created r, snd (snd (dr_key r))))
        (filter (\<lambda>r. (fst (dr_key r), fst (snd (dr_key r))) = scope \<and>
           (states \<noteq> [] \<longrightarrow> dr_state r \<in> set states)) (t_deliveries st)))))"

definition store_List :: "string \<times> string \<Rightarrow> store \<Rightarrow> delivery_error + delivery_summary list" where
  "store_List scope st = listByStates scope [] st"

definition ListRunnable :: "string \<times> string \<Rightarrow> store \<Rightarrow> delivery_error + delivery_summary list" where
  "ListRunnable scope st = listByStates scope [DeliveryAdmitted, DeliveryQueued, DeliveryReconciling,
     DeliveryReplanning, DeliveryCancelRequested] st"

definition ListWaiting :: "string \<times> string \<Rightarrow> store \<Rightarrow> delivery_error + delivery_summary list" where
  "ListWaiting scope st = listByStates scope [DeliveryWaitingRetry, DeliveryWaitingDecision,
     DeliveryWaitingCredentials, DeliveryWaitingQuota, DeliveryPaused] st"

section \<open>Schema migrations\<close>

text \<open>
  A migration is a version with the checksum of its SQL; the migration table holds those applied.
  The SQL itself is not interpreted: \<open>applies\<close> says whether executing it succeeded.
\<close>

definition deliverySchemaVersion :: int where
  "deliverySchemaVersion = 13"

definition latest_version :: "(int \<times> 'c) list \<Rightarrow> int" where
  "latest_version table = fold (\<lambda>r n. max n (fst r)) table 0"

fun migrate_from :: "(int \<Rightarrow> bool) \<Rightarrow> int \<Rightarrow> (int \<times> 'c) list \<Rightarrow> (int \<times> 'c) list \<Rightarrow> delivery_error + (int \<times> 'c) list" where
  "migrate_from applies latest [] table = Inr table"
| "migrate_from applies latest ((v, c) # ms) table = (case map_of table v of
       Some c' \<Rightarrow> if c' \<noteq> c then Inl ErrIncompatibleDeliverySchema else migrate_from applies latest ms table
     | None \<Rightarrow>
         if v \<le> latest then Inl ErrIncompatibleDeliverySchema
         else if \<not> applies v then Inl ErrConstraint
         else migrate_from applies latest ms (table @ [(v, c)]))"

definition Migrate ::
  "(int \<Rightarrow> bool) \<Rightarrow> (int \<times> 'c) list \<Rightarrow> (int \<times> 'c) list \<Rightarrow> (delivery_error + unit) \<times> (int \<times> 'c) list" where
  "Migrate applies deliveryMigrations table =
     (if deliverySchemaVersion < latest_version table then (Inl ErrUnsupportedDeliverySchema, table)
      else (case migrate_from applies (latest_version table) deliveryMigrations table of
              Inl e \<Rightarrow> (Inl e, table)
            | Inr table' \<Rightarrow> (Inr (), table')))"

definition refuseNewerSchema :: "(int \<times> 'c) list option \<Rightarrow> delivery_error + unit" where
  "refuseNewerSchema table = (case table of
       None \<Rightarrow> Inr ()
     | Some rows \<Rightarrow> if deliverySchemaVersion < latest_version rows then Inl ErrUnsupportedDeliverySchema else Inr ())"

end
