(* ===== verification/Delivery_Queue.thy ===== *)
theory Delivery_Queue
  imports Delivery_Store
begin

text \<open>
  The work queue of deliveries and its leases (\<^verbatim>\<open>internal/execution/delivery_queue.go\<close>, and the
  fence of \<^verbatim>\<open>delivery_integration.go\<close>). A claim fences the previous owner by raising the epoch of
  the queue row; every later write of a worker names the epoch it was given. Each operation takes
  the instants that its calls of the clock return.
\<close>

record lease =
  le_delivery :: delivery
  le_owner :: string
  le_epoch :: int
  le_attempt :: int
  le_acquired :: time
  le_expires :: time
  le_heartbeat :: time

record outcome =
  oc_kind :: outcome_kind
  oc_result :: string
  oc_err :: "string option"
  oc_retry :: time
  oc_wait :: delivery_state
  oc_signal :: string
  oc_active :: int

fun kind_text :: "outcome_kind \<Rightarrow> string" where
  "kind_text OutcomeNone = ''''"
| "kind_text OutcomeSucceeded = ''succeeded''"
| "kind_text OutcomeFailed = ''failed''"
| "kind_text OutcomeRetry = ''retry''"
| "kind_text OutcomeWaiting = ''waiting''"
| "kind_text OutcomeCancelled = ''cancelled''"
| "kind_text OutcomeLeaseLost = ''lease_expired''"
| "kind_text (OutcomeOther s) = s"

abbreviation delivery_id :: "dkey \<Rightarrow> string" where
  "delivery_id k \<equiv> snd (snd k)"

section \<open>Row predicates and updates\<close>

definition due :: "ts_text option \<Rightarrow> time \<Rightarrow> bool" where
  "due x now = (case x of None \<Rightarrow> False | Some t \<Rightarrow> text_le t (timestamp now))"

definition live :: "ts_text option \<Rightarrow> time \<Rightarrow> bool" where
  "live x now = (case x of None \<Rightarrow> False | Some t \<Rightarrow> \<not> text_le t (timestamp now))"

definition claimable :: "time \<Rightarrow> queue_row \<Rightarrow> bool" where
  "claimable now q =
     ((q_status q = QReady \<or> (q_status q = QWaiting \<and> q_signal q = ''retry'')) \<and>
        text_le (q_available q) (timestamp now)
      \<or> q_status q = QLeased \<and> due (q_expires q) now)"

definition holds_lease :: "lease \<Rightarrow> time \<Rightarrow> queue_row \<Rightarrow> bool" where
  "holds_lease l now q =
     (q_key q = d_key (le_delivery l) \<and> q_status q = QLeased \<and> q_owner q = Some (le_owner l) \<and>
      q_epoch q = le_epoch l \<and> live (q_expires q) now)"

definition set_queue :: "(queue_row \<Rightarrow> bool) \<Rightarrow> (queue_row \<Rightarrow> queue_row) \<Rightarrow> store \<Rightarrow> store" where
  "set_queue p f st = st\<lparr>t_queue := row_update p f (t_queue st)\<rparr>"

definition set_attempts :: "(attempt_row \<Rightarrow> bool) \<Rightarrow> (attempt_row \<Rightarrow> attempt_row) \<Rightarrow> store \<Rightarrow> store" where
  "set_attempts p f st = st\<lparr>t_attempts := row_update p f (t_attempts st)\<rparr>"

definition clear_lease :: "queue_row \<Rightarrow> queue_row" where
  "clear_lease q = q\<lparr>q_owner := None, q_acquired := None, q_expires := None, q_heartbeat := None\<rparr>"

definition verifyLease :: "lease \<Rightarrow> time \<Rightarrow> unit tx" where
  "verifyLease l now = tx_read (\<lambda>st.
     if row_find (holds_lease l now) (t_queue st) = None then Inl ErrStaleLease else Inr ())"

text \<open>\<^verbatim>\<open>requireChanged\<close>: exactly one row was matched by the UPDATE.\<close>

definition requireChanged :: "nat \<Rightarrow> unit tx" where
  "requireChanged n = tx_require (n = 1) ErrStaleLease"

definition update_queue_one :: "(queue_row \<Rightarrow> bool) \<Rightarrow> (queue_row \<Rightarrow> queue_row) \<Rightarrow> unit tx" where
  "update_queue_one p f = tx_bind (tx_read (\<lambda>st. Inr (row_count p (t_queue st))))
     (\<lambda>n. tx_bind (tx_modify (set_queue p f)) (\<lambda>_. requireChanged n))"

section \<open>Putting work on the queue\<close>

definition QueueAdmitted :: "time \<Rightarrow> dkey \<Rightarrow> int \<Rightarrow> delivery tx" where
  "QueueAdmitted now k v = tx_bind (tx_require (validateDeliveryRef k \<and> 1 \<le> v) ErrInvalidDelivery)
     (\<lambda>_. tx_bind (tx_read (loadDelivery k))
     (\<lambda>d. tx_bind (tx_require (d_version d = v) ErrStaleDeliveryVersion)
     (\<lambda>_. tx_bind (tx_require (d_state d = DeliveryAdmitted) ErrInvalidDeliveryTransition)
     (\<lambda>_. tx_bind (transitionInTx d DeliveryQueued (queueEventIdentity (delivery_id k) ''promote'' v now))
     (\<lambda>d'. tx_bind (insertQueueRow (queue_row_of k now (d_created d') now))
     (\<lambda>_. tx_return d'))))))"

section \<open>Claiming\<close>

definition next_claim :: "time \<Rightarrow> store \<Rightarrow> queue_row option" where
  "next_claim now st =
     (case sort_key (\<lambda>q. (q_available q, q_created q, delivery_id (q_key q)))
             (filter (claimable now) (t_queue st)) of
        [] \<Rightarrow> None
      | q # qs \<Rightarrow> Some q)"

definition lease_row :: "string \<Rightarrow> time \<Rightarrow> time \<Rightarrow> queue_row \<Rightarrow> queue_row" where
  "lease_row owner now expires q = q\<lparr>q_status := QLeased, q_signal := '''', q_owner := Some owner,
     q_epoch := q_epoch q + 1, q_acquired := Some (timestamp now), q_expires := Some (timestamp expires),
     q_heartbeat := Some (timestamp now), q_updated := timestamp now\<rparr>"

definition expire_attempt :: "time \<Rightarrow> attempt_row \<Rightarrow> attempt_row" where
  "expire_attempt now a = a\<lparr>at_finished := Some (timestamp now), at_outcome := OutcomeLeaseLost,
     at_error := ''lease expired before completion''\<rparr>"

definition max_attempt :: "dkey \<Rightarrow> store \<Rightarrow> int" where
  "max_attempt k st = fold (\<lambda>a n. max n (at_attempt a)) (filter (\<lambda>a. at_key a = k) (t_attempts st)) 0"

definition insertAttempt :: "dkey \<Rightarrow> int \<Rightarrow> string \<Rightarrow> int \<Rightarrow> time \<Rightarrow> unit tx" where
  "insertAttempt k n owner epoch now = tx_bind
     (tx_read (\<lambda>st. if row_find (\<lambda>a. at_key a = k \<and> (at_attempt a = n \<or> at_epoch a = epoch)) (t_attempts st) = None
        then Inr () else Inl ErrConstraint))
     (\<lambda>_. tx_modify (\<lambda>st. st\<lparr>t_attempts := t_attempts st @ [\<lparr>at_key = k, at_attempt = n, at_owner = owner,
        at_epoch = epoch, at_started = timestamp now, at_finished = None, at_outcome = OutcomeNone,
        at_checkpoint = '''', at_result = '''', at_error = '''', at_active = 0\<rparr>]\<rparr>))"

text \<open>Moving the claimed delivery to running: a due retry is queued first.\<close>

definition claim_transitions :: "dkey \<Rightarrow> int \<Rightarrow> time \<Rightarrow> delivery \<Rightarrow> delivery tx" where
  "claim_transitions k epoch now d = tx_bind
     (if d_state d = DeliveryWaitingRetry
      then transitionInTx d DeliveryQueued (queueEventIdentity (delivery_id k) ''retry-due'' epoch now)
      else tx_return d)
     (\<lambda>d1. if d_state d1 = DeliveryRunning then tx_return d1
       else if d_state d1 \<noteq> DeliveryQueued then tx_fail ErrInvalidDeliveryTransition
       else transitionInTx d1 DeliveryRunning (queueEventIdentity (delivery_id k) ''claim'' epoch now))"

definition claim_row :: "string \<Rightarrow> time \<Rightarrow> time \<Rightarrow> queue_row \<Rightarrow> lease tx" where
  "claim_row owner now expires q =
     (let k = q_key q; epoch = q_epoch q + 1
      in tx_bind (tx_modify (set_queue (\<lambda>x. q_key x = k \<and> claimable now x) (lease_row owner now expires)))
         (\<lambda>_. tx_bind (tx_modify (set_attempts (\<lambda>a. at_key a = k \<and> at_finished a = None) (expire_attempt now)))
         (\<lambda>_. tx_bind (tx_read (loadDelivery k))
         (\<lambda>d. tx_bind (claim_transitions k epoch now d)
         (\<lambda>d'. tx_bind (tx_read (\<lambda>st. Inr (max_attempt k st + 1)))
         (\<lambda>n. tx_bind (insertAttempt k n owner epoch now)
         (\<lambda>_. tx_return \<lparr>le_delivery = d', le_owner = owner, le_epoch = epoch, le_attempt = n,
            le_acquired = now, le_expires = expires, le_heartbeat = now\<rparr>)))))))"

definition Claim :: "time \<Rightarrow> string \<Rightarrow> time \<Rightarrow> lease tx" where
  "Claim now owner duration = tx_bind (tx_require (owner \<noteq> '''' \<and> 0 < duration) ErrInvalidDelivery)
     (\<lambda>_. tx_bind (tx_read (\<lambda>st. case next_claim now st of None \<Rightarrow> Inl ErrNoRunnableDelivery | Some q \<Rightarrow> Inr q))
     (\<lambda>q. claim_row owner now (now + duration) q))"

section \<open>Work under a lease\<close>

definition Heartbeat :: "time \<Rightarrow> lease \<Rightarrow> time \<Rightarrow> lease tx" where
  "Heartbeat now l duration = tx_bind (tx_require (0 < duration) ErrInvalidDelivery)
     (\<lambda>_. tx_bind (update_queue_one (holds_lease l now)
        (\<lambda>q. q\<lparr>q_expires := Some (timestamp (now + duration)), q_heartbeat := Some (timestamp now),
               q_updated := timestamp now\<rparr>))
     (\<lambda>_. tx_return (l\<lparr>le_heartbeat := now, le_expires := now + duration\<rparr>)))"

definition updateAttempt :: "time \<Rightarrow> lease \<Rightarrow> (attempt_row \<Rightarrow> attempt_row) \<Rightarrow> unit tx" where
  "updateAttempt now l f =
     (let sel = (\<lambda>st a. at_key a = d_key (le_delivery l) \<and> at_attempt a = le_attempt l \<and>
            at_owner a = le_owner l \<and> at_epoch a = le_epoch l \<and>
            row_find (holds_lease l now) (t_queue st) \<noteq> None)
      in tx_bind (tx_read (\<lambda>st. Inr (row_count (sel st) (t_attempts st))))
         (\<lambda>n. tx_bind (tx_modify (\<lambda>st. set_attempts (sel st) f st)) (\<lambda>_. requireChanged n)))"

definition Checkpoint :: "time \<Rightarrow> lease \<Rightarrow> string \<Rightarrow> unit tx" where
  "Checkpoint now l v = updateAttempt now l (\<lambda>a. a\<lparr>at_checkpoint := v\<rparr>)"

definition PublishResult :: "time \<Rightarrow> lease \<Rightarrow> string \<Rightarrow> unit tx" where
  "PublishResult now l v = updateAttempt now l (\<lambda>a. a\<lparr>at_result := v\<rparr>)"

definition TransitionLease :: "time \<Rightarrow> time \<Rightarrow> lease \<Rightarrow> delivery_state \<Rightarrow> delivery tx" where
  "TransitionLease now1 now2 l nxt = tx_bind (verifyLease l now1)
     (\<lambda>_. tx_bind (tx_read (loadDelivery (d_key (le_delivery l))))
     (\<lambda>d. transitionInTx d nxt
        (queueEventIdentity (delivery_id (d_key d)) (''transition-'' @ state_text nxt) (le_epoch l) now2)))"

definition Release :: "time \<Rightarrow> lease \<Rightarrow> unit tx" where
  "Release now l = tx_bind (verifyLease l now)
     (\<lambda>_. tx_bind (tx_read (loadDelivery (d_key (le_delivery l))))
     (\<lambda>d. tx_bind (if d_state d \<noteq> DeliveryQueued
          then transitionInTx d DeliveryQueued (queueEventIdentity (delivery_id (d_key d)) ''release'' (le_epoch l) now)
          else tx_return d)
     (\<lambda>d'. tx_modify (set_queue (\<lambda>q. q_key q = d_key d')
        (\<lambda>q. (clear_lease q)\<lparr>q_status := QReady, q_available := timestamp now, q_updated := timestamp now\<rparr>)))))"

definition validateOutcome ::
  "outcome \<Rightarrow> time \<Rightarrow> delivery_error + (delivery_state \<times> queue_status \<times> time \<times> string)" where
  "validateOutcome oc now = (case oc_kind oc of
       OutcomeSucceeded \<Rightarrow> Inr (DeliverySucceeded, QDone, now, '''')
     | OutcomeFailed \<Rightarrow> Inr (DeliveryFailed, QDone, now, '''')
     | OutcomeCancelled \<Rightarrow> Inr (DeliveryCancelled, QCancelled, now, '''')
     | OutcomeRetry \<Rightarrow>
         if oc_retry oc = 0 \<or> oc_retry oc < now then Inl ErrInvalidDelivery
         else Inr (DeliveryWaitingRetry, QWaiting, oc_retry oc, ''retry'')
     | OutcomeWaiting \<Rightarrow>
         if oc_signal oc = '''' \<or> oc_wait oc \<notin> {DeliveryWaitingDecision, DeliveryWaitingCredentials,
              DeliveryWaitingQuota, DeliveryPaused} then Inl ErrInvalidDelivery
         else Inr (oc_wait oc, QWaiting, now, oc_signal oc)
     | _ \<Rightarrow> Inl ErrInvalidDelivery)"

definition finish_attempt :: "time \<Rightarrow> lease \<Rightarrow> outcome \<Rightarrow> unit tx" where
  "finish_attempt now l oc =
     (let sel = (\<lambda>a. at_key a = d_key (le_delivery l) \<and> at_attempt a = le_attempt l \<and>
            at_owner a = le_owner l \<and> at_epoch a = le_epoch l);
          upd = (\<lambda>a. a\<lparr>at_finished := Some (timestamp now), at_outcome := oc_kind oc,
            at_result := (if oc_result oc = '''' then at_result a else oc_result oc),
            at_error := (case oc_err oc of None \<Rightarrow> '''' | Some e \<Rightarrow> e), at_active := oc_active oc\<rparr>)
      in tx_bind (tx_read (\<lambda>st. Inr (row_count sel (t_attempts st))))
         (\<lambda>n. tx_bind (tx_modify (set_attempts sel upd)) (\<lambda>_. requireChanged n)))"

definition Finalize :: "time \<Rightarrow> lease \<Rightarrow> outcome \<Rightarrow> delivery tx" where
  "Finalize now l oc = tx_bind (tx_require (0 \<le> oc_active oc) ErrInvalidDelivery)
     (\<lambda>_. tx_bind (verifyLease l now)
     (\<lambda>_. tx_bind (tx_read (loadDelivery (d_key (le_delivery l))))
     (\<lambda>d. tx_bind (tx_read (\<lambda>_. validateOutcome oc now))
     (\<lambda>(nxt, status, available, signal). tx_bind
        (if d_state d \<noteq> nxt
         then transitionInTx d nxt
           (queueEventIdentity (delivery_id (d_key d)) (''outcome-'' @ kind_text (oc_kind oc)) (le_epoch l) now)
         else tx_return d)
     (\<lambda>d'. tx_bind (finish_attempt now l oc)
     (\<lambda>_. tx_bind (tx_modify (set_queue (\<lambda>q. q_key q = d_key d')
        (\<lambda>q. (clear_lease q)\<lparr>q_status := status, q_available := timestamp available, q_signal := signal,
           q_result := (if oc_result oc = '''' then q_result q else oc_result oc), q_updated := timestamp now\<rparr>)))
     (\<lambda>_. tx_return d')))))))"

section \<open>Signals and cancellation\<close>

definition SignalWaiting :: "time \<Rightarrow> dkey \<Rightarrow> string \<Rightarrow> unit tx" where
  "SignalWaiting now k signal =
     tx_bind (tx_require (validateDeliveryRef k \<and> signal \<noteq> '''' \<and> signal \<noteq> ''retry'') ErrInvalidDelivery)
     (\<lambda>_. tx_bind (update_queue_one
        (\<lambda>q. q_key q = k \<and> q_status q = QWaiting \<and> q_signal q = signal)
        (\<lambda>q. q\<lparr>q_status := QReady, q_available := timestamp now, q_signal := '''', q_updated := timestamp now\<rparr>))
     (\<lambda>_. tx_bind (tx_read (loadDelivery k))
     (\<lambda>d. tx_bind (transitionInTx d DeliveryQueued
        (queueEventIdentity (delivery_id k) (''signal-'' @ signal) (d_version d) now))
     (\<lambda>_. tx_return ()))))"

definition Cancel :: "time \<Rightarrow> dkey \<Rightarrow> unit tx" where
  "Cancel now k = tx_bind (tx_require (validateDeliveryRef k) ErrInvalidDelivery)
     (\<lambda>_. tx_bind (tx_read (loadDelivery k))
     (\<lambda>d. if d_state d = DeliveryCancelRequested \<or> d_state d = DeliveryCancelled then tx_return ()
       else if isTerminalDeliveryState (d_state d) then tx_fail ErrDeliveryCancelled
       else tx_bind (transitionInTx d DeliveryCancelRequested
           (queueEventIdentity (delivery_id k) ''cancel'' (d_version d) now))
         (\<lambda>_. tx_bind (tx_modify (set_attempts (\<lambda>a. at_key a = k \<and> at_finished a = None)
             (\<lambda>a. a\<lparr>at_finished := Some (timestamp now), at_outcome := OutcomeCancelled,
                at_error := ''explicit cancellation''\<rparr>)))
         (\<lambda>_. update_queue_one (\<lambda>q. q_key q = k)
            (\<lambda>q. (clear_lease q)\<lparr>q_status := QCancelled, q_signal := ''cancel'', q_epoch := q_epoch q + 1,
               q_updated := timestamp now\<rparr>)))))"

text \<open>
  \<^verbatim>\<open>WithLeaseEffect\<close> extends the lease, runs an external effect while the transaction is open and
  commits when the effect succeeded; the effect itself is outside the store.
\<close>

definition WithLeaseEffect :: "time \<Rightarrow> lease \<Rightarrow> time \<Rightarrow> bool \<Rightarrow> unit tx" where
  "WithLeaseEffect now l duration effect_ok =
     tx_bind (tx_require (0 < duration) ErrInvalidDelivery)
     (\<lambda>_. tx_bind (update_queue_one (holds_lease l now)
        (\<lambda>q. q\<lparr>q_expires := Some (timestamp (now + duration)), q_heartbeat := Some (timestamp now),
               q_updated := timestamp now\<rparr>))
     (\<lambda>_. tx_require effect_ok ErrContext))"

record attempt_record =
  ar_attempt :: int
  ar_owner :: string
  ar_epoch :: int
  ar_started :: time
  ar_finished :: "time option"
  ar_outcome :: outcome_kind
  ar_checkpoint :: string
  ar_result :: string
  ar_error :: string

definition Attempts :: "dkey \<Rightarrow> store \<Rightarrow> delivery_error + attempt_record list" where
  "Attempts k st =
     (if \<not> validateDeliveryRef k then Inl ErrInvalidDelivery
      else Inr (map (\<lambda>a. \<lparr>ar_attempt = at_attempt a, ar_owner = at_owner a, ar_epoch = at_epoch a,
           ar_started = parseTimestamp (at_started a), ar_finished = map_option parseTimestamp (at_finished a),
           ar_outcome = at_outcome a, ar_checkpoint = at_checkpoint a, ar_result = at_result a,
           ar_error = at_error a\<rparr>)
         (sort_key at_attempt (filter (\<lambda>a. at_key a = k) (t_attempts st)))))"

end
