(* ===== verification/Delivery_View.thy ===== *)
theory Delivery_View
  imports Delivery_Queue
begin

text \<open>
  What the tables hold of one delivery: its rows in each table, as \<open>view k\<close>. An operation on one
  delivery leaves the views of the others alone, and the aggregate of a delivery is a function of
  its view. The tables' interfaces are interpretations of \<open>keyed_rows\<close>.
\<close>

declare split_paired_All [simp del] split_paired_Ex [simp del]

section \<open>Tables by delivery\<close>

interpretation deliveries: keyed_rows dr_key "\<lambda>f. \<forall>r. dr_key (f r) = dr_key r"
  by unfold_locales simp

interpretation goals: keyed_rows gr_key "\<lambda>f. \<forall>r. gr_key (f r) = gr_key r"
  by unfold_locales simp

interpretation requirements: keyed_rows rr_key "\<lambda>f. \<forall>r. rr_key (f r) = rr_key r"
  by unfold_locales simp

interpretation queue: keyed_rows q_key "\<lambda>f. \<forall>r. q_key (f r) = q_key r"
  by unfold_locales simp

interpretation attempts: keyed_rows at_key "\<lambda>f. \<forall>r. at_key (f r) = at_key r"
  by unfold_locales simp

record dview =
  v_rows :: "delivery_row list"
  v_goals :: "goal_row list"
  v_reqs :: "requirement_row list"
  v_checks :: "check_row list"
  v_decs :: "decision_row list"
  v_ress :: "resolution_row list"
  v_log :: "event_row list"

definition view :: "dkey \<Rightarrow> store \<Rightarrow> dview" where
  "view k st = \<lparr>v_rows = filter (\<lambda>r. dr_key r = k) (t_deliveries st),
     v_goals = filter (\<lambda>r. gr_key r = k) (t_goals st),
     v_reqs = filter (\<lambda>r. rr_key r = k) (t_requirements st),
     v_checks = filter (\<lambda>r. ck_key r = k) (t_checks st),
     v_decs = filter (\<lambda>r. dw_key r = k) (t_decisions st),
     v_ress = filter (\<lambda>r. rw_key r = k) (t_resolutions st),
     v_log = log_rows k st\<rparr>"

lemma view_frame [store_simps]:
  "view k (st\<lparr>t_queue := q\<rparr>) = view k st" "view k (st\<lparr>t_attempts := a\<rparr>) = view k st"
  "view k (st\<lparr>t_operations := os\<rparr>) = view k st" "view k (st\<lparr>t_usage := u\<rparr>) = view k st"
  "view k (set_queue p f st) = view k st" "view k (set_attempts p' f' st) = view k st"
  by (simp_all add: view_def log_rows_def set_queue_def set_attempts_def)

lemma view_set_delivery [store_simps]:
  assumes "\<forall>r. dr_key (f r) = dr_key r"
  shows "view k (set_delivery_row k' f st) =
    (if k = k' then (view k st)\<lparr>v_rows := map f (v_rows (view k st))\<rparr> else view k st)"
proof -
  have "row_update (\<lambda>r. dr_key r = k) f (filter (\<lambda>r. dr_key r = k) rs) = map f (filter (\<lambda>r. dr_key r = k) rs)" for rs
    by (induction rs) (auto simp: row_update_def)
  then show ?thesis
    using deliveries.rows_update_other [OF assms]
    by (auto simp: view_def log_rows_def set_delivery_row_def deliveries.rows_update [OF assms])
qed

lemma view_event [store_simps]:
  "view k (st\<lparr>t_events := t_events st @ [e]\<rparr>) =
    (if er_key e = k then (view k st)\<lparr>v_log := v_log (view k st) @ [e]\<rparr> else view k st)"
  by (simp add: view_def log_rows_def)

lemma row_find_filter: "row_find p rows = (case filter p rows of [] \<Rightarrow> None | r # rs \<Rightarrow> Some r)"
  by (induction rows) (auto simp: row_find_def)

lemma loadDelivery_view:
  "loadDelivery k st = (case v_rows (view k st) of [] \<Rightarrow> Inl ErrDeliveryNotFound | r # rs \<Rightarrow> Inr (delivery_of_row st r))"
  by (simp add: loadDelivery_def row_find_filter view_def split: list.splits)

end
