(* ===== verification/Delivery_Replay.thy ===== *)
theory Delivery_Replay
  imports Delivery_View
begin

text \<open>
  Replaying a delivery's log and what ties the log to the tables. \<open>log_ok\<close> says that a log is
  numbered from one and replays to an aggregate; \<open>tables_ok\<close> that the rows of a view hold that
  aggregate, in insertion order; \<open>consistent\<close> joins them and also covers unknown deliveries.
\<close>

section \<open>Replay, one event at a time\<close>

lemma replay_from_snoc:
  "replay_from i d (es @ [e]) =
    (case replay_from i d es of Inl err \<Rightarrow> Inl err | Inr d' \<Rightarrow> replay_step (i + length es) d' e)"
  by (induction es arbitrary: i d) (auto split: sum.splits)

lemma replay_from_append:
  "replay_from i d (es @ es') =
    (case replay_from i d es of Inl err \<Rightarrow> Inl err | Inr d' \<Rightarrow> replay_from (i + length es) d' es')"
  by (induction es arbitrary: i d) (auto split: sum.splits)

lemmas replay_defs = replay_step_def replay_transitioned_def replay_goal_def replay_requirement_def
  replay_decision_def replay_resolution_def

text \<open>What no event after the first changes, and how the version moves.\<close>

lemma replay_step_frame:
  assumes "replay_step i d e = Inr d'" and "0 < i"
  shows "d_key d' = d_key d \<and> d_admission_key d' = d_admission_key d \<and> d_policy d' = d_policy d \<and>
     d_max_cost d' = d_max_cost d \<and> d_created d' = d_created d \<and>
     d_version d \<le> d_version d' \<and> d_version d' \<le> d_version d + 1 \<and> d_goal_revision d \<le> d_goal_revision d'"
  using assms by (cases "de_type e") (auto simp: replay_defs Let_def split: if_splits prod.splits)

lemma replay_step_state:
  assumes "replay_step i d e = Inr d'" and "0 < i"
  shows "d_state d' = d_state d \<or> validDeliveryTransition (d_state d) (d_state d')"
  using assms by (cases "de_type e") (auto simp: replay_defs Let_def split: if_splits prod.splits)

lemma replay_step_transitioned:
  assumes "replay_step i d e = Inr d'" and "0 < i" and "de_type e = DeliveryEventTransitioned"
  shows "p_version (de_payload e) = d_version d'"
  using assms by (auto simp: replay_defs Let_def split: if_splits)

lemma replay_from_frame:
  assumes "replay_from i d es = Inr d'" and "0 < i"
  shows "d_key d' = d_key d \<and> d_admission_key d' = d_admission_key d \<and> d_policy d' = d_policy d \<and>
     d_max_cost d' = d_max_cost d \<and> d_created d' = d_created d \<and>
     d_version d \<le> d_version d' \<and> d_version d' \<le> d_version d + int (length es) \<and>
     d_goal_revision d \<le> d_goal_revision d'"
  using assms
proof (induction es arbitrary: i d)
  case (Cons e es)
  then obtain d1 where d1: "replay_step i d e = Inr d1" "replay_from (Suc i) d1 es = Inr d'"
    by (auto split: sum.splits)
  from replay_step_frame [OF d1(1) Cons.prems(2)] Cons.IH [OF d1(2)] show ?case by auto
qed simp

section \<open>A well-formed log\<close>

definition aggregate_of :: "event_row list \<Rightarrow> delivery_error + delivery" where
  "aggregate_of log = replay_from 0 zero_delivery (map event_of_row log)"

definition log_ok :: "event_row list \<Rightarrow> delivery \<Rightarrow> bool" where
  "log_ok log d =
     (log \<noteq> [] \<and> aggregate_of log = Inr d \<and>
      map er_seq log = map (\<lambda>i. int i + 1) [0..<length log] \<and>
      (\<forall>e \<in> set log. er_type e = DeliveryEventTransitioned \<longrightarrow> p_version (er_payload e) \<le> d_version d))"

lemma seqs_max:
  assumes "map er_seq log = map (\<lambda>i. int i + 1) [0..<length log]"
  shows "max_seq log = int (length log)"
  using assms
proof (induction log rule: rev_induct)
  case (snoc e log)
  then have "map er_seq log = map (\<lambda>i. int i + 1) [0..<length log]" and "er_seq e = int (length log) + 1"
    by simp_all
  with snoc.IH show ?case by (simp add: max_seq_def)
qed (simp add: max_seq_def)

lemma seqs_sorted:
  assumes "map er_seq log = map (\<lambda>i. int i + 1) [0..<length log]"
  shows "sort_key er_seq log = log"
  by (rule sort_key_id_if_sorted) (simp add: assms sorted_map sorted_wrt_iff_nth_less)

lemma seqs_through:
  assumes "map er_seq log = map (\<lambda>i. int i + 1) [0..<length log]" and "n \<le> length log"
  shows "filter (\<lambda>e. er_seq e \<le> int n) log = take n log"
proof -
  have "er_seq (log ! i) = int i + 1" if "i < length log" for i
    using assms(1) that by (metis (no_types, lifting) add_0 diff_zero length_map length_upt nth_map nth_upt)
  then have "filter (\<lambda>e. er_seq e \<le> int n) (take n log) = take n log"
    and "filter (\<lambda>e. er_seq e \<le> int n) (drop n log) = []"
    using assms(2) by (auto simp: filter_empty_conv filter_id_conv in_set_conv_nth)
  then show ?thesis
    by (metis append_Nil2 append_take_drop_id filter_append)
qed

lemma log_ok_snoc:
  assumes ok: "log_ok log d"
    and seq: "er_seq e = int (length log) + 1"
    and step: "replay_step (length log) d (event_of_row e) = Inr d'"
  shows "log_ok (log @ [e]) d'"
proof -
  have pos: "0 < length log" using ok by (simp add: log_ok_def)
  have agg: "aggregate_of (log @ [e]) = Inr d'"
    using ok step by (simp add: log_ok_def aggregate_of_def replay_from_snoc)
  have le: "d_version d \<le> d_version d'"
    using replay_step_frame [OF step pos] by simp
  have "er_type e = DeliveryEventTransitioned \<Longrightarrow> p_version (er_payload e) = d_version d'"
    using replay_step_transitioned [OF step pos] by (simp add: event_of_row_def)
  with ok seq agg le show ?thesis by (auto simp: log_ok_def)
qed

lemma log_ok_first:
  assumes "er_seq e = 1" and "er_type e = DeliveryEventAdmitted" and "er_payload e = PAdmitted d"
  shows "log_ok [e] d"
  using assms by (simp add: log_ok_def aggregate_of_def replay_step_def event_of_row_def)

text \<open>Events that replay passes over: those of operations and those appended by a caller.\<close>

lemma replay_step_other:
  assumes "\<not> aggregate_event (de_type e)" and "de_seq e = int i + 1"
  shows "replay_step i d e = Inr d"
  using assms by (cases "de_type e") (simp_all add: replay_step_def aggregate_event_def)

lemma log_ok_other:
  assumes "log_ok log d" and "er_seq e = int (length log) + 1" and "\<not> aggregate_event (er_type e)"
  shows "log_ok (log @ [e]) d"
  using assms by (intro log_ok_snoc) (simp_all add: replay_step_other event_of_row_def)

section \<open>The rows of an aggregate\<close>

definition req_of :: "check_row list \<Rightarrow> requirement_row \<Rightarrow> requirement" where
  "req_of checks r = \<lparr>r_id = rr_id r, r_goal_revision = rr_revision r, r_statement = rr_statement r,
     r_status = rr_status r, r_checks = map (\<lambda>c. \<lparr>ac_id = ck_id c, ac_statement = ck_statement c\<rparr>)
       (sort_key ck_position (filter (\<lambda>c. ck_revision c = rr_revision r \<and> ck_requirement c = rr_id r) checks)),
     r_waiver = rr_waiver r\<rparr>"

definition dec_of :: "resolution_row list \<Rightarrow> decision_row \<Rightarrow> decision" where
  "dec_of ress r = \<lparr>dc_id = dw_id r, dc_question = dw_question r, dc_options = dw_options r,
     dc_recommendation = dw_recommendation r, dc_consequences = dw_consequences r,
     dc_reversible = dw_reversible r, dc_deadline = map_option parseTimestamp (dw_deadline r),
     dc_blocked = dw_blocked r, dc_requested = parseTimestamp (dw_requested r),
     dc_resolution = map_option resolution_of_row (row_find (\<lambda>w. rw_id w = dw_id r) ress)\<rparr>"

definition scalars_ok :: "dkey \<Rightarrow> delivery_row \<Rightarrow> delivery \<Rightarrow> bool" where
  "scalars_ok k r d =
     (dr_key r = k \<and> d_key d = k \<and> d_admission_key d = dr_admission_key r \<and> d_state d = dr_state r \<and>
      d_version d = dr_version r \<and> d_goal_revision d = dr_goal_revision r \<and> d_policy d = dr_policy r \<and>
      d_max_cost d = dr_max_cost r \<and> d_created d = parseTimestamp (dr_created r) \<and>
      d_updated d = parseTimestamp (dr_updated r))"

definition goals_ok :: "dview \<Rightarrow> delivery \<Rightarrow> bool" where
  "goals_ok v d =
     (d_goals d = map goal_of_row (v_goals v) \<and> sorted (map gr_revision (v_goals v)) \<and>
      (\<forall>g \<in> set (v_goals v). gr_revision g \<le> d_goal_revision d))"

abbreviation rr_ident :: "requirement_row \<Rightarrow> int \<times> string" where
  "rr_ident r \<equiv> (rr_revision r, rr_id r)"

definition reqs_ok :: "dview \<Rightarrow> delivery \<Rightarrow> bool" where
  "reqs_ok v d =
     (d_requirements d = map (req_of (v_checks v)) (v_reqs v) \<and> distinct (map rr_ident (v_reqs v)) \<and>
      (\<forall>r \<in> set (v_reqs v). rr_revision r \<le> d_goal_revision d) \<and>
      (\<forall>c \<in> set (v_checks v). (ck_revision c, ck_requirement c) \<in> set (map rr_ident (v_reqs v))))"

definition decs_ok :: "dview \<Rightarrow> delivery \<Rightarrow> bool" where
  "decs_ok v d =
     (d_decisions d = map (dec_of (v_ress v)) (v_decs v) \<and> distinct (map dw_id (v_decs v)) \<and>
      (\<forall>w \<in> set (v_ress v). rw_id w \<in> set (map dw_id (v_decs v))))"

definition tables_ok :: "dkey \<Rightarrow> dview \<Rightarrow> delivery \<Rightarrow> bool" where
  "tables_ok k v d =
     ((\<exists>r. v_rows v = [r] \<and> scalars_ok k r d) \<and> goals_ok v d \<and> reqs_ok v d \<and> decs_ok v d)"

definition no_rows :: "dview \<Rightarrow> bool" where
  "no_rows v = (v_rows v = [] \<and> v_goals v = [] \<and> v_reqs v = [] \<and> v_checks v = [] \<and> v_decs v = [] \<and>
     v_ress v = [] \<and> v_log v = [])"

definition consistent :: "dkey \<Rightarrow> dview \<Rightarrow> bool" where
  "consistent k v = (no_rows v \<or> (\<exists>d. log_ok (v_log v) d \<and> tables_ok k v d))"

definition store_ok :: "store \<Rightarrow> bool" where
  "store_ok st = (\<forall>k. consistent k (view k st))"

section \<open>Loading is replaying\<close>

text \<open>
  The queries order requirements and decisions by their identifiers, the log by time of their
  events: the aggregates agree up to that order.
\<close>

definition same_aggregate :: "delivery \<Rightarrow> delivery \<Rightarrow> bool" where
  "same_aggregate d d' =
     (d\<lparr>d_requirements := [], d_decisions := []\<rparr> = d'\<lparr>d_requirements := [], d_decisions := []\<rparr> \<and>
      mset (d_requirements d) = mset (d_requirements d') \<and> mset (d_decisions d) = mset (d_decisions d'))"

lemma same_aggregate_scalars:
  "same_aggregate d d' \<Longrightarrow> d_key d' = d_key d \<and> d_state d' = d_state d \<and> d_version d' = d_version d \<and>
     d_goal_revision d' = d_goal_revision d \<and> d_goals d' = d_goals d \<and> d_max_cost d' = d_max_cost d \<and>
     d_created d' = d_created d \<and> d_updated d' = d_updated d"
  by (cases d; cases d') (simp add: same_aggregate_def)

lemma same_aggregate_refl [simp]: "same_aggregate d d"
  by (simp add: same_aggregate_def)

lemma requirement_of_row_view:
  "rr_key r = k \<Longrightarrow> requirement_of_row k st r = req_of (v_checks (view k st)) r"
  by (simp add: requirement_of_row_def req_of_def loadAcceptanceChecks_def view_def conj_assoc)

lemma decision_of_row_view:
  "decision_of_row k st r = dec_of (v_ress (view k st)) r"
proof -
  have find: "row_find (\<lambda>w. rw_key w = k \<and> rw_id w = i) ws = row_find (\<lambda>w. rw_id w = i) (filter (\<lambda>w. rw_key w = k) ws)" for i ws
    by (induction ws) (simp_all add: row_find_Cons)
  show ?thesis
    unfolding decision_of_row_def dec_of_def view_def by (simp add: find)
qed

lemma loadGoals_view:
  "loadGoals k st = map goal_of_row (sort_key gr_revision (v_goals (view k st)))"
  by (simp add: loadGoals_def view_def)

lemma loadRequirements_view:
  "mset (loadRequirements k st) = mset (map (req_of (v_checks (view k st))) (v_reqs (view k st)))"
proof -
  have "mset (loadRequirements k st) = image_mset (requirement_of_row k st) (mset (v_reqs (view k st)))"
    by (simp add: loadRequirements_def view_def)
  also have "\<dots> = image_mset (req_of (v_checks (view k st))) (mset (v_reqs (view k st)))"
    by (rule image_mset_cong) (simp add: requirement_of_row_view view_def)
  finally show ?thesis by simp
qed

lemma loadDecisions_view:
  "mset (loadDecisions k st) = mset (map (dec_of (v_ress (view k st))) (v_decs (view k st)))"
proof -
  have "decision_of_row k st = dec_of (v_ress (view k st))"
    by (rule ext) (rule decision_of_row_view)
  then show ?thesis by (simp add: loadDecisions_def view_def)
qed

lemma delivery_of_row_same:
  assumes "tables_ok k (view k st) d" and "v_rows (view k st) = [r]"
  shows "same_aggregate d (delivery_of_row st r)"
proof -
  have r: "scalars_ok k r d" and g: "goals_ok (view k st) d" and q: "reqs_ok (view k st) d"
    and c: "decs_ok (view k st) d"
    using assms by (auto simp: tables_ok_def)
  have "loadGoals k st = d_goals d"
    using g by (simp add: loadGoals_view goals_ok_def sort_key_id_if_sorted)
  moreover have "mset (loadRequirements k st) = mset (d_requirements d)"
    using q by (simp add: loadRequirements_view reqs_ok_def)
  moreover have "mset (loadDecisions k st) = mset (d_decisions d)"
    using c by (simp add: loadDecisions_view decs_ok_def)
  ultimately show ?thesis
    using r by (cases d) (simp add: same_aggregate_def delivery_of_row_def scalars_ok_def)
qed

lemma store_okD: "store_ok st \<Longrightarrow> consistent k (view k st)"
  by (simp only: store_ok_def)

lemma consistent_cases:
  assumes "store_ok st"
  shows "no_rows (view k st) \<or>
    (\<exists>d r. log_ok (v_log (view k st)) d \<and> tables_ok k (view k st) d \<and> v_rows (view k st) = [r] \<and> scalars_ok k r d)"
  using store_okD [OF assms, of k] by (auto simp: consistent_def tables_ok_def)

lemma store_ok_load:
  assumes "store_ok st" and "loadDelivery k st = Inr dl"
  obtains d where "log_ok (v_log (view k st)) d" and "tables_ok k (view k st) d" and "same_aggregate d dl"
proof -
  from assms(2) obtain r rs where r: "v_rows (view k st) = r # rs" "dl = delivery_of_row st r"
    by (auto simp: loadDelivery_view split: list.splits)
  with consistent_cases [OF assms(1), of k]
  obtain d where d: "log_ok (v_log (view k st)) d" "tables_ok k (view k st) d"
    by (auto simp: no_rows_def)
  with r have "v_rows (view k st) = [r]" by (auto simp: tables_ok_def)
  from delivery_of_row_same [OF d(2) this] r d that show ?thesis by simp
qed

lemma store_ok_load_error:
  assumes "store_ok st" and "loadDelivery k st = Inl e"
  shows "e = ErrDeliveryNotFound \<and> no_rows (view k st)"
proof -
  have "v_rows (view k st) = [] \<and> e = ErrDeliveryNotFound"
    using assms(2) by (auto simp: loadDelivery_view split: list.splits)
  with consistent_cases [OF assms(1), of k] show ?thesis by auto
qed

end
