(* ===== verification/Delivery_Laws.thy ===== *)
theory Delivery_Laws
  imports Delivery_Replay
begin

text \<open>
  The laws of the two primitives by which the queue, the journal and the repository change an
  aggregate: a transition and an appended event. A good store is a consistent one whose logs extend
  those of an earlier store; a transaction keeps goodness when every success leaves a good store.
\<close>

section \<open>Good stores\<close>

definition grows :: "store \<Rightarrow> store \<Rightarrow> bool" where
  "grows st st' = (\<forall>k. prefix (v_log (view k st)) (v_log (view k st')))"

definition good :: "store \<Rightarrow> store \<Rightarrow> bool" where
  "good st0 st = (store_ok st \<and> grows st0 st)"

lemma grows_refl [simp]: "grows st st"
  by (simp add: grows_def)

lemma grows_trans: "grows st st' \<Longrightarrow> grows st' st'' \<Longrightarrow> grows st st''"
  unfolding grows_def by (meson prefix_order.trans)

lemma good_refl: "store_ok st \<Longrightarrow> good st st"
  by (simp add: good_def)

lemma good_frame: "(\<And>k. view k st' = view k st) \<Longrightarrow> good st0 st' = good st0 st"
  by (simp add: good_def store_ok_def grows_def)

text \<open>A store differs from a good one in one view only.\<close>

lemma good_change:
  assumes "good st0 st"
    and "\<And>k'. k' \<noteq> k \<Longrightarrow> view k' st' = view k' st"
    and "consistent k (view k st')" and "prefix (v_log (view k st)) (v_log (view k st'))"
  shows "good st0 st'"
proof -
  have "consistent k' (view k' st')" for k'
    using assms by (cases "k' = k") (auto simp: good_def store_okD)
  moreover have "prefix (v_log (view k' st0)) (v_log (view k' st'))" for k'
  proof (cases "k' = k")
    case True
    have "prefix (v_log (view k st0)) (v_log (view k st))"
      using assms(1) unfolding good_def grows_def by blast
    with assms(4) True show ?thesis using prefix_order.trans by blast
  next
    case False
    have "prefix (v_log (view k' st0)) (v_log (view k' st))"
      using assms(1) unfolding good_def grows_def by blast
    with assms(2) [OF False] show ?thesis by simp
  qed
  ultimately show ?thesis unfolding good_def store_ok_def grows_def by simp
qed

definition current :: "delivery \<Rightarrow> store \<Rightarrow> bool" where
  "current d st = (\<exists>r. v_rows (view (d_key d) st) = [r] \<and> d_state d = dr_state r \<and> d_version d = dr_version r)"

lemma current_frame: "(\<And>k. view k st' = view k st) \<Longrightarrow> current d st' = current d st"
  by (simp add: current_def)

lemma good_frames [store_simps]:
  "good st0 (st\<lparr>t_queue := q\<rparr>) = good st0 st" "good st0 (st\<lparr>t_attempts := a\<rparr>) = good st0 st"
  "good st0 (st\<lparr>t_operations := os\<rparr>) = good st0 st" "good st0 (st\<lparr>t_usage := u\<rparr>) = good st0 st"
  "good st0 (set_queue p f st) = good st0 st" "good st0 (set_attempts p' f' st) = good st0 st"
  by (rule good_frame, rule view_frame)+

lemma current_frames [store_simps]:
  "current d (st\<lparr>t_queue := q\<rparr>) = current d st" "current d (st\<lparr>t_attempts := a\<rparr>) = current d st"
  "current d (st\<lparr>t_operations := os\<rparr>) = current d st" "current d (st\<lparr>t_usage := u\<rparr>) = current d st"
  "current d (set_queue p f st) = current d st" "current d (set_attempts p' f' st) = current d st"
  by (rule current_frame, rule view_frame)+

lemma current_scalars: "current d st \<Longrightarrow> d_key d' = d_key d \<Longrightarrow> d_state d' = d_state d \<Longrightarrow>
    d_version d' = d_version d \<Longrightarrow> current d' st"
  by (simp add: current_def)

lemma load_current:
  assumes "store_ok st" and "loadDelivery k st = Inr d"
  shows "current d st \<and> d_key d = k"
proof -
  from store_ok_load [OF assms] obtain d0 where "tables_ok k (view k st) d0" "same_aggregate d0 d" by blast
  moreover from this(2) have "d_key d = d_key d0" "d_state d = d_state d0" "d_version d = d_version d0"
    by (simp_all add: same_aggregate_scalars)
  ultimately show ?thesis by (auto simp: tables_ok_def scalars_ok_def current_def)
qed

section \<open>Appending an event\<close>

lemma appendE:
  assumes "appendDeliveryEvent k ty p i fp st = Inr (row, st')"
  obtains (old) "st' = st" and "row \<in> set (v_log (view k st))" and "er_type row = ty" and "er_payload row = p"
      and "er_id row = ei_id i" and "er_idem row = ei_idem i" and "er_at row = timestamp (ei_at i)"
      and "row_find (\<lambda>e. er_key e = k \<and> (er_idem e = ei_idem i \<or> er_id e = ei_id i)) (t_events st) = Some row"
    | (new) "st' = st\<lparr>t_events := t_events st @ [row]\<rparr>"
      and "row = \<lparr>er_key = k, er_seq = max_seq (v_log (view k st)) + 1, er_id = ei_id i,
         er_idem = ei_idem i, er_type = ty, er_at = timestamp (ei_at i), er_payload = p, er_fingerprint = fp\<rparr>"
      and "row_find (\<lambda>e. er_key e = k \<and> (er_idem e = ei_idem i \<or> er_id e = ei_id i)) (t_events st) = None"
proof (cases "row_find (\<lambda>e. er_key e = k \<and> (er_idem e = ei_idem i \<or> er_id e = ei_id i)) (t_events st)")
  case None
  with assms show ?thesis
    by (intro new) (auto simp: appendDeliveryEvent_def view_def Let_def)
next
  case (Some x)
  from row_find_SomeD [OF Some] have "x \<in> set (v_log (view k st))"
    by (simp add: view_def log_rows_def)
  with Some assms show ?thesis
    by (intro old) (auto simp: appendDeliveryEvent_def Let_def split: if_splits)
qed

lemma log_seq: "log_ok log d \<Longrightarrow> max_seq log = int (length log)"
  by (simp add: log_ok_def seqs_max)

text \<open>An event that replay passes over, for any delivery of the store.\<close>

lemma append_other_good:
  assumes "good st0 st" and "v_rows (view k st) \<noteq> []" and "\<not> aggregate_event ty"
    and "appendDeliveryEvent k ty p i fp st = Inr (row, st')"
  shows "good st0 st' \<and> (\<forall>d. current d st' = current d st)"
  using assms(4)
proof (cases rule: appendE)
  case old
  with assms(1) show ?thesis by simp
next
  case new
  have "store_ok st" using assms(1) by (simp add: good_def)
  with assms(2) consistent_cases [of st k] obtain d where
    d: "log_ok (v_log (view k st)) d" "tables_ok k (view k st) d"
    by (auto simp: no_rows_def)
  have views: "view k' st' = (if k' = k then (view k st)\<lparr>v_log := v_log (view k st) @ [row]\<rparr> else view k' st)" for k'
    using new by (simp add: view_event)
  have "log_ok (v_log (view k st) @ [row]) d"
    using d(1) assms(3) new by (intro log_ok_other) (simp_all add: log_seq)
  with d(2) have "consistent k (view k st')"
    unfolding views by (auto simp: consistent_def tables_ok_def goals_ok_def reqs_ok_def decs_ok_def)
  then have "good st0 st'"
    by (intro good_change [OF assms(1), of k]) (simp_all add: views)
  moreover have "current d st' = current d st" for d
    by (simp add: current_def views)
  ultimately show ?thesis by blast
qed

section \<open>Transitions\<close>

text \<open>An event of a transition to a version that is not reached yet is a new event.\<close>

lemma transition_event_new:
  assumes "log_ok log d" and "d_version d < p_version p" and "row \<in> set log"
    and "er_type row = DeliveryEventTransitioned"
  shows "er_payload row \<noteq> p"
  using assms by (auto simp: log_ok_def)

lemma replay_step_transition:
  assumes "de_seq e = int i + 1" and "de_type e = DeliveryEventTransitioned"
    and "de_payload e = PTransitioned (d_state d) nxt (d_version d + 1)"
    and "validDeliveryTransition (d_state d) nxt"
  shows "replay_step i d e = Inr (d\<lparr>d_state := nxt, d_version := d_version d + 1, d_updated := de_at e\<rparr>)"
  using assms by (simp add: replay_step_def replay_transitioned_def)

lemma transition_consistent:
  assumes "log_ok log d" and "tables_ok k v d" and "v_rows v = [r]" and "v_log v = log"
    and "validDeliveryTransition (d_state d) nxt"
    and "er_seq e = int (length log) + 1" and "er_type e = DeliveryEventTransitioned"
    and "er_payload e = PTransitioned (d_state d) nxt (d_version d + 1)"
  shows "consistent k (v\<lparr>v_rows := [r\<lparr>dr_state := nxt, dr_version := d_version d + 1, dr_updated := er_at e\<rparr>],
    v_log := log @ [e]\<rparr>)"
proof -
  let ?d = "d\<lparr>d_state := nxt, d_version := d_version d + 1, d_updated := parseTimestamp (er_at e)\<rparr>"
  have "replay_step (length log) d (event_of_row e) = Inr ?d"
    by (subst replay_step_transition) (simp_all add: assms event_of_row_def)
  with assms have "log_ok (log @ [e]) ?d" by (intro log_ok_snoc)
  moreover have "tables_ok k (v\<lparr>v_rows := [r\<lparr>dr_state := nxt, dr_version := d_version d + 1,
      dr_updated := er_at e\<rparr>], v_log := log @ [e]\<rparr>) ?d"
    using assms(2,3) by (auto simp: tables_ok_def scalars_ok_def goals_ok_def reqs_ok_def decs_ok_def)
  ultimately show ?thesis by (auto simp: consistent_def)
qed

lemma transitionInTx_good:
  assumes good: "good st0 st" and cur: "current d st"
    and run: "transitionInTx d nxt i st = Inr (d', st')"
  shows "good st0 st' \<and> current d' st' \<and> d_key d' = d_key d \<and> d_state d' = nxt \<and>
     d_version d' = d_version d + 1 \<and> validDeliveryTransition (d_state d) nxt \<and> d_created d' = d_created d"
proof -
  let ?k = "d_key d" and ?at = "timestamp (ei_at i)"
  let ?f = "\<lambda>r. r\<lparr>dr_state := nxt, dr_version := d_version d + 1, dr_updated := ?at\<rparr>"
  let ?st1 = "set_delivery_row ?k ?f st"
  from cur obtain r where r: "v_rows (view ?k st) = [r]" "dr_state r = d_state d" "dr_version r = d_version d"
    by (auto simp: current_def)
  with consistent_cases [of st ?k] good obtain d0 where
    d0: "log_ok (v_log (view ?k st)) d0" "tables_ok ?k (view ?k st) d0"
    by (auto simp: no_rows_def good_def)
  with r have same: "d_state d0 = d_state d" "d_version d0 = d_version d"
    by (auto simp: tables_ok_def scalars_ok_def)
  from run obtain row where
    valid: "validDeliveryTransition (d_state d) nxt" and
    app: "appendDeliveryEvent ?k DeliveryEventTransitioned (PTransitioned (d_state d) nxt (d_version d + 1))
       i FPNone ?st1 = Inr (row, st')" and
    d': "d' = d\<lparr>d_state := nxt, d_version := d_version d + 1, d_updated := ei_at i\<rparr>"
    by (auto simp: transitionInTx_def tx_simps Transition_Inr Let_def)
  have v1: "view k ?st1 = (if k = ?k then (view ?k st)\<lparr>v_rows := [?f r]\<rparr> else view k st)" for k
    using r(1) by (subst view_set_delivery) simp_all
  from app show ?thesis
  proof (cases rule: appendE)
    case old
    then show ?thesis
      using transition_event_new [OF d0(1), of "PTransitioned (d_state d) nxt (d_version d + 1)" row]
      by (simp add: v1 same)
  next
    case new
    have views: "view k st' = (if k = ?k then (view ?k st)\<lparr>v_rows := [?f r], v_log := v_log (view ?k st) @ [row]\<rparr>
        else view k st)" for k
      using new by (simp add: view_event v1)
    have "consistent ?k ((view ?k st)\<lparr>v_rows := [r\<lparr>dr_state := nxt, dr_version := d_version d0 + 1,
        dr_updated := er_at row\<rparr>], v_log := v_log (view ?k st) @ [row]\<rparr>)"
      using new valid by (intro transition_consistent [OF d0 r(1)]) (simp_all add: same v1 log_seq [OF d0(1)])
    moreover have "er_at row = ?at" using new by simp
    ultimately have "consistent ?k (view ?k st')"
      by (simp add: views same)
    then have "good st0 st'"
      by (intro good_change [OF good, of ?k]) (simp_all add: views)
    moreover have "current d' st'"
      by (simp add: current_def views d')
    ultimately show ?thesis using valid d' by simp
  qed
qed

section \<open>Keeping a store good\<close>

definition keeps :: "'a tx \<Rightarrow> bool" where
  "keeps f = (\<forall>st0 st x st'. good st0 st \<longrightarrow> f st = Inr (x, st') \<longrightarrow> good st0 st')"

lemma keepsI: "(\<And>st0 st x st'. good st0 st \<Longrightarrow> f st = Inr (x, st') \<Longrightarrow> good st0 st') \<Longrightarrow> keeps f"
  by (auto simp: keeps_def)

lemma keepsD: "keeps f \<Longrightarrow> f st = Inr (x, st') \<Longrightarrow> good st0 st \<Longrightarrow> good st0 st'"
  by (auto simp: keeps_def)

lemma good_load: "loadDelivery k st = Inr d \<Longrightarrow> good st0 st \<Longrightarrow> current d st \<and> d_key d = k"
  by (auto simp: good_def dest: load_current)

lemma good_transition:
  "transitionInTx d nxt i st = Inr (d', st') \<Longrightarrow> good st0 st \<Longrightarrow> current d st \<Longrightarrow>
     good st0 st' \<and> current d' st' \<and> d_key d' = d_key d \<and> d_state d' = nxt"
  using transitionInTx_good by blast

lemma keeps_transactional: "keeps f \<Longrightarrow> transactional store_ok grows f"
proof
  assume f: "keeps f"
  show "grows st st" for st by simp
  show "store_ok st' \<and> grows st st'" if "store_ok st" and "f st = Inr (x, st')" for st x st'
    using keepsD [OF f that(2) good_refl [OF that(1)]] by (simp add: good_def)
qed

end
