(* ===== verification/Delivery_Mutations.thy ===== *)
theory Delivery_Mutations
  imports Delivery_Laws
begin

text \<open>
  What admission and the five aggregate mutations do to a delivery's view, and that each of them
  keeps stores good: the rows they write hold the aggregate that replaying the event they append
  gives.
\<close>

section \<open>Inserting a goal\<close>

definition check_row_of :: "dkey \<Rightarrow> requirement \<Rightarrow> nat \<times> acceptance_check \<Rightarrow> check_row" where
  "check_row_of k r pc = \<lparr>ck_key = k, ck_revision = r_goal_revision r, ck_requirement = r_id r,
     ck_id = ac_id (snd pc), ck_position = fst pc, ck_statement = ac_statement (snd pc)\<rparr>"

definition check_rows :: "dkey \<Rightarrow> requirement \<Rightarrow> check_row list" where
  "check_rows k r = map (check_row_of k r) (List.enumerate 0 (r_checks r))"

definition req_row_of :: "dkey \<Rightarrow> requirement \<Rightarrow> requirement_row" where
  "req_row_of k r = \<lparr>rr_key = k, rr_revision = r_goal_revision r, rr_id = r_id r,
     rr_statement = r_statement r, rr_status = r_status r, rr_waiver = r_waiver r\<rparr>"

definition goal_row_of :: "dkey \<Rightarrow> goal \<Rightarrow> goal_row" where
  "goal_row_of k g = \<lparr>gr_key = k, gr_revision = g_revision g, gr_statement = g_statement g,
     gr_actor = g_actor g, gr_created = timestamp (g_created g)\<rparr>"

lemma insertCheck_effect:
  "insertCheck k r pc st = Inr (u, st') \<Longrightarrow> st' = st\<lparr>t_checks := t_checks st @ [check_row_of k r pc]\<rparr>"
  by (auto simp: insertCheck_def check_row_of_def tx_simps)

lemma insertChecks_effect:
  "tx_each (insertCheck k r) pcs st = Inr (u, st') \<Longrightarrow>
     st' = st\<lparr>t_checks := t_checks st @ map (check_row_of k r) pcs\<rparr>"
proof (induction pcs arbitrary: st)
  case (Cons pc pcs)
  from Cons.prems obtain st1 where
    "insertCheck k r pc st = Inr ((), st1)" "tx_each (insertCheck k r) pcs st1 = Inr (u, st')"
    by (auto simp: tx_simps)
  with Cons.IH [OF this(2)] insertCheck_effect [OF this(1)] show ?case by simp
qed (simp add: tx_simps)

lemma insertRequirement_effect:
  "insertRequirement k r st = Inr (u, st') \<Longrightarrow>
     st' = st\<lparr>t_requirements := t_requirements st @ [req_row_of k r], t_checks := t_checks st @ check_rows k r\<rparr>"
  by (auto simp: insertRequirement_def req_row_of_def check_rows_def tx_simps dest!: insertChecks_effect)

lemma insertRequirements_effect:
  "tx_each (insertRequirement k) rs st = Inr (u, st') \<Longrightarrow>
     st' = st\<lparr>t_requirements := t_requirements st @ map (req_row_of k) rs,
              t_checks := t_checks st @ concat (map (check_rows k) rs)\<rparr>"
proof (induction rs arbitrary: st)
  case (Cons r rs)
  from Cons.prems obtain st1 where
    "insertRequirement k r st = Inr ((), st1)" "tx_each (insertRequirement k) rs st1 = Inr (u, st')"
    by (auto simp: tx_simps)
  with Cons.IH [OF this(2)] insertRequirement_effect [OF this(1)] show ?case by simp
qed (simp add: tx_simps)

lemma insertGoal_effect:
  "insertGoal k g rs st = Inr (u, st') \<Longrightarrow>
     st' = st\<lparr>t_goals := t_goals st @ [goal_row_of k g],
              t_requirements := t_requirements st @ map (req_row_of k) rs,
              t_checks := t_checks st @ concat (map (check_rows k) rs)\<rparr>"
  by (auto simp: insertGoal_def goal_row_of_def tx_simps dest!: insertRequirements_effect)

lemma check_rows_key: "c \<in> set (check_rows k r) \<Longrightarrow> ck_key c = k \<and> ck_revision c = r_goal_revision r \<and> ck_requirement c = r_id r"
  by (auto simp: check_rows_def check_row_of_def)

lemma view_insertGoal:
  "view k' (st\<lparr>t_goals := t_goals st @ [goal_row_of k g],
       t_requirements := t_requirements st @ map (req_row_of k) rs,
       t_checks := t_checks st @ concat (map (check_rows k) rs)\<rparr>) =
    (if k' = k then (view k st)\<lparr>v_goals := v_goals (view k st) @ [goal_row_of k g],
       v_reqs := v_reqs (view k st) @ map (req_row_of k) rs,
       v_checks := v_checks (view k st) @ concat (map (check_rows k) rs)\<rparr> else view k' st)"
proof -
  have "filter (\<lambda>r. rr_key r = k') (map (req_row_of k) rs) = (if k' = k then map (req_row_of k) rs else [])"
    by (auto simp: req_row_of_def filter_empty_conv filter_id_conv)
  moreover have "filter (\<lambda>c. ck_key c = k') (concat (map (check_rows k) rs)) =
      (if k' = k then concat (map (check_rows k) rs) else [])"
    by (auto simp: filter_empty_conv filter_id_conv dest!: check_rows_key)
  ultimately show ?thesis
    by (simp add: view_def log_rows_def goal_row_of_def)
qed

section \<open>Reading it back\<close>

lemma enumerate_sorted: "sort_key ck_position (check_rows k r) = check_rows k r"
proof (rule sort_key_id_if_sorted)
  have "map ck_position (check_rows k r) = map fst (List.enumerate 0 (r_checks r))"
    by (simp add: check_rows_def check_row_of_def comp_def)
  then show "sorted (map ck_position (check_rows k r))" by simp
qed

lemma check_eta: "\<lparr>ac_id = ac_id c, ac_statement = ac_statement c\<rparr> = c"
  by (cases c) simp

lemma check_rows_read:
  "map (\<lambda>c. \<lparr>ac_id = ck_id c, ac_statement = ck_statement c\<rparr>) (check_rows k r) = r_checks r"
proof -
  have "map (\<lambda>c. \<lparr>ac_id = ck_id c, ac_statement = ck_statement c\<rparr>) (check_rows k r) =
      map snd (List.enumerate 0 (r_checks r))"
    by (simp add: check_rows_def check_row_of_def comp_def check_eta)
  then show ?thesis by simp
qed

lemma filter_check_rows:
  "filter (\<lambda>c. ck_revision c = n \<and> ck_requirement c = i) (check_rows k r) =
    (if r_goal_revision r = n \<and> r_id r = i then check_rows k r else [])"
proof -
  have "filter (\<lambda>c. ck_revision c = n \<and> ck_requirement c = i) (check_rows k r) =
      filter (\<lambda>c. r_goal_revision r = n \<and> r_id r = i) (check_rows k r)"
    using check_rows_key by (intro filter_cong) auto
  then show ?thesis by simp
qed

lemma checks_of_new:
  assumes "distinct (map r_id rs)" and "r \<in> set rs" and "\<forall>r \<in> set rs. r_goal_revision r = n"
  shows "filter (\<lambda>c. ck_revision c = n \<and> ck_requirement c = r_id r) (concat (map (check_rows k) rs)) = check_rows k r"
  using assms
proof (induction rs)
  case (Cons q rs)
  have q: "filter (\<lambda>c. ck_revision c = n \<and> ck_requirement c = r_id r) (check_rows k q) =
      (if r_id q = r_id r then check_rows k q else [])"
    using Cons.prems(3) by (simp add: filter_check_rows)
  show ?case
  proof (cases "r = q")
    case True
    have rids: "ck_requirement c \<in> r_id ` set rs" if "c \<in> set (concat (map (check_rows k) rs))" for c
      using that check_rows_key by fastforce
    have "r_id r \<notin> r_id ` set rs" using Cons.prems(1) True by simp
    with rids have "filter (\<lambda>c. ck_revision c = n \<and> ck_requirement c = r_id r) (concat (map (check_rows k) rs)) = []"
      by (intro filter_False ballI notI) metis
    with q True show ?thesis by simp
  next
    case False
    with Cons.prems have r: "r \<in> set rs" by simp
    with Cons.prems(1) have "r_id q \<noteq> r_id r" by auto
    with q Cons r show ?thesis by simp
  qed
qed simp

lemma req_of_new:
  assumes "distinct (map r_id rs)" and "r \<in> set rs" and "\<forall>r \<in> set rs. r_goal_revision r = n"
    and "\<forall>c \<in> set checks. ck_revision c \<noteq> n"
  shows "req_of (checks @ concat (map (check_rows k) rs)) (req_row_of k r) = r"
proof -
  have rev: "r_goal_revision r = n" using assms(2,3) by simp
  have old: "filter (\<lambda>c. ck_revision c = n \<and> ck_requirement c = r_id r) checks = []"
    using assms(4) by (auto simp: filter_empty_conv)
  show ?thesis
    by (simp add: req_of_def req_row_of_def rev checks_of_new [OF assms(1-3)] old enumerate_sorted check_rows_read)
qed

lemma req_of_old:
  assumes "\<forall>r \<in> set rs. r_goal_revision r = n" and "rr_revision q \<noteq> n"
  shows "req_of (checks @ concat (map (check_rows k) rs)) q = req_of checks q"
proof -
  have "filter (\<lambda>c. ck_revision c = rr_revision q \<and> ck_requirement c = rr_id q) (concat (map (check_rows k) rs)) = []"
    using assms by (auto simp: filter_empty_conv dest: check_rows_key)
  then show ?thesis by (simp add: req_of_def)
qed

lemma goal_of_goal_row [simp]: "goal_of_row (goal_row_of k g) = g"
  by (simp add: goal_of_row_def goal_row_of_def)

section \<open>A new goal revision\<close>

lemma requirements_ok_facts:
  assumes "requirements_ok n [] rs"
  shows "distinct (map r_id rs)" and "\<forall>r \<in> set rs. r_goal_revision r = n"
  using requirements_ok_distinct [OF assms] by (auto simp: list_all_iff validateRequirement_revision)

lemma reqs_extend:
  assumes ok: "reqs_ok v d" and new: "requirements_ok n [] rs" and lt: "d_goal_revision d < n"
    and v': "v_reqs v' = v_reqs v @ map (req_row_of k) rs"
      "v_checks v' = v_checks v @ concat (map (check_rows k) rs)"
    and d': "d_requirements d' = d_requirements d @ rs" "d_goal_revision d' = n"
  shows "reqs_ok v' d'"
proof -
  note rs = requirements_ok_facts [OF new]
  have olds: "\<forall>q \<in> set (v_reqs v). rr_revision q \<noteq> n"
    using ok lt by (fastforce simp: reqs_ok_def)
  have checks: "\<forall>c \<in> set (v_checks v). ck_revision c \<noteq> n"
    using ok olds by (fastforce simp: reqs_ok_def)
  have "map (req_of (v_checks v')) (v_reqs v) = map (req_of (v_checks v)) (v_reqs v)"
    using req_of_old [OF rs(2)] olds by (simp add: v')
  moreover have "map (req_of (v_checks v')) (map (req_row_of k) rs) = rs"
    using req_of_new [OF rs(1) _ rs(2) checks] by (simp add: v' map_idI)
  ultimately have reqs: "d_requirements d' = map (req_of (v_checks v')) (v_reqs v')"
    using ok by (simp add: v' d' reqs_ok_def)
  have idents: "map rr_ident (map (req_row_of k) rs) = map (\<lambda>r. (n, r_id r)) rs"
    using rs(2) by (simp add: req_row_of_def)
  have dist: "distinct (map rr_ident (v_reqs v'))"
  proof -
    have "distinct (map (\<lambda>r. (n, r_id r)) rs)" using rs(1) by (induction rs) auto
    moreover have "set (map rr_ident (v_reqs v)) \<inter> set (map (\<lambda>r. (n, r_id r)) rs) = {}"
      using olds by auto
    ultimately show ?thesis
      using ok idents by (simp only: v' map_append distinct_append reqs_ok_def simp_thms)
  qed
  have revs: "\<forall>r \<in> set (v_reqs v'). rr_revision r \<le> d_goal_revision d'"
    using ok lt rs(2) by (auto simp: v' d' reqs_ok_def req_row_of_def)
  have "(ck_revision c, ck_requirement c) \<in> set (map rr_ident (v_reqs v'))" if "c \<in> set (v_checks v')" for c
  proof (cases "c \<in> set (v_checks v)")
    case True
    with ok show ?thesis by (auto simp: v' reqs_ok_def)
  next
    case False
    with that obtain r where r: "r \<in> set rs" "c \<in> set (check_rows k r)" by (auto simp: v')
    then have "(ck_revision c, ck_requirement c) = rr_ident (req_row_of k r)"
      using check_rows_key [OF r(2)] by (simp add: req_row_of_def)
    with r(1) show ?thesis by (auto simp: v')
  qed
  with reqs dist revs show ?thesis by (simp add: reqs_ok_def)
qed

lemma goals_extend:
  assumes "goals_ok v d" and "d_goal_revision d < g_revision g"
    and "v_goals v' = v_goals v @ [goal_row_of k g]"
    and "d_goals d' = d_goals d @ [g]" and "d_goal_revision d' = g_revision g"
  shows "goals_ok v' d'"
proof -
  have "gr_revision (goal_row_of k g) = g_revision g" by (simp add: goal_row_of_def)
  with assms show ?thesis by (fastforce simp: goals_ok_def sorted_append)
qed

section \<open>Admission\<close>

lemma view_new_delivery:
  "view k (st\<lparr>t_deliveries := t_deliveries st @ [r]\<rparr>) =
    (if dr_key r = k then (view k st)\<lparr>v_rows := v_rows (view k st) @ [r]\<rparr> else view k st)"
  by (simp add: view_def log_rows_def)

lemma tables_admitted:
  assumes "requirements_ok 1 [] (a_requirements a)" and "g_revision (a_goal a) = 1"
  shows "tables_ok (a_key a) \<lparr>v_rows = [delivery_row_of (admitted_delivery a) fp],
     v_goals = [goal_row_of (a_key a) (a_goal a)], v_reqs = map (req_row_of (a_key a)) (a_requirements a),
     v_checks = concat (map (check_rows (a_key a)) (a_requirements a)), v_decs = [], v_ress = [],
     v_log = log\<rparr> (admitted_delivery a)" (is "tables_ok ?k ?v ?d")
proof -
  let ?ev = "\<lparr>v_rows = [], v_goals = [], v_reqs = [], v_checks = [], v_decs = [], v_ress = [], v_log = []\<rparr>"
  let ?ed = "?d\<lparr>d_goals := [], d_requirements := [], d_goal_revision := 0\<rparr>"
  have r0: "reqs_ok ?ev ?ed" and g0: "goals_ok ?ev ?ed" by (simp_all add: reqs_ok_def goals_ok_def)
  have "reqs_ok ?v ?d"
    by (rule reqs_extend [OF r0 assms(1), where k = ?k]) (simp_all add: admitted_delivery_def)
  moreover have "goals_ok ?v ?d"
    using assms(2) by (intro goals_extend [OF g0, where g = "a_goal a"]) (simp_all add: admitted_delivery_def)
  moreover have "scalars_ok ?k (delivery_row_of ?d fp) ?d"
    by (simp add: scalars_ok_def delivery_row_of_def admitted_delivery_def)
  moreover have "decs_ok ?v ?d" by (simp add: decs_ok_def admitted_delivery_def)
  ultimately show ?thesis by (simp add: tables_ok_def)
qed

lemma empty_log_append:
  assumes "appendDeliveryEvent k ty p i fp st = Inr (row, st')" and "v_log (view k st) = []"
  shows "st' = st\<lparr>t_events := t_events st @ [row]\<rparr> \<and> er_key row = k \<and> er_seq row = 1 \<and> er_type row = ty \<and>
     er_payload row = p"
  using assms(1) by (cases rule: appendE) (use assms(2) in \<open>auto simp: max_seq_def\<close>)

definition valid_admission :: "admission \<Rightarrow> bool" where
  "valid_admission a = (requirements_ok 1 [] (a_requirements a) \<and> g_revision (a_goal a) = 1)"

text \<open>The part of \<open>admit_new\<close> up to the admitted event.\<close>

definition admit_rows :: "admission \<Rightarrow> admission_fp \<Rightarrow> unit tx" where
  "admit_rows a fp =
     (let d = admitted_delivery a
      in tx_bind (tx_modify (\<lambda>st. st\<lparr>t_deliveries := t_deliveries st @ [delivery_row_of d fp]\<rparr>))
         (\<lambda>_. tx_bind (insertGoal (a_key a) (a_goal a) (a_requirements a))
         (\<lambda>_. tx_bind (appendDeliveryEvent (a_key a) DeliveryEventAdmitted (PAdmitted d) (a_event a) FPNone)
         (\<lambda>_. tx_return ()))))"

lemma admit_rows_good:
  assumes good: "good st0 st" and none: "row_find (\<lambda>r. dr_key r = a_key a) (t_deliveries st) = None"
    and a: "valid_admission a" and run: "admit_rows a fp st = Inr (u, st')"
  shows "good st0 st' \<and> v_rows (view (a_key a) st') = [delivery_row_of (admitted_delivery a) fp]"
proof -
  let ?k = "a_key a" and ?d = "admitted_delivery a"
  let ?st1 = "st\<lparr>t_deliveries := t_deliveries st @ [delivery_row_of ?d fp]\<rparr>"
  let ?st2 = "?st1\<lparr>t_goals := t_goals ?st1 @ [goal_row_of ?k (a_goal a)],
     t_requirements := t_requirements ?st1 @ map (req_row_of ?k) (a_requirements a),
     t_checks := t_checks ?st1 @ concat (map (check_rows ?k) (a_requirements a))\<rparr>"
  have "v_rows (view ?k st) = []"
    using none by (simp add: view_def row_find_None filter_empty_conv)
  with good consistent_cases [of st ?k] have none: "no_rows (view ?k st)"
    by (auto simp: good_def)
  have key: "dr_key (delivery_row_of ?d fp) = ?k" by (simp add: delivery_row_of_def admitted_delivery_def)
  let ?v = "\<lparr>v_rows = [delivery_row_of ?d fp], v_goals = [goal_row_of ?k (a_goal a)],
     v_reqs = map (req_row_of ?k) (a_requirements a),
     v_checks = concat (map (check_rows ?k) (a_requirements a)), v_decs = [], v_ress = [], v_log = []\<rparr>"
  have v2: "view k ?st2 = (if k = ?k then ?v else view k st)" for k
    using none by (simp only: view_insertGoal view_new_delivery key) (simp add: no_rows_def)
  from run obtain row where "appendDeliveryEvent ?k DeliveryEventAdmitted (PAdmitted ?d) (a_event a) FPNone ?st2 = Inr (row, st')"
    by (auto simp: admit_rows_def tx_simps Let_def dest!: insertGoal_effect)
  note app = this
  have "v_log (view ?k ?st2) = []" by (subst v2) simp
  from empty_log_append [OF app this]
  have row: "st' = ?st2\<lparr>t_events := t_events ?st2 @ [row]\<rparr>" "er_key row = ?k" "er_seq row = 1"
      "er_type row = DeliveryEventAdmitted" "er_payload row = PAdmitted ?d"
    by blast+
  have views: "view k st' = (if k = ?k then ?v\<lparr>v_log := [row]\<rparr> else view k st)" for k
    by (simp only: row(1) view_event v2 row(2)) simp
  have "log_ok [row] ?d" using row(3-5) by (rule log_ok_first)
  moreover have "tables_ok ?k (?v\<lparr>v_log := [row]\<rparr>) ?d"
    using a tables_admitted [of a fp "[row]"] by (simp add: valid_admission_def)
  ultimately have "consistent ?k (view ?k st')"
    by (auto simp: consistent_def views)
  then have "good st0 st'"
    using none by (intro good_change [OF good, of ?k]) (simp_all add: views no_rows_def)
  then show ?thesis by (simp add: views)
qed

lemma admit_new_rows:
  "admit_new a fp runnable = tx_bind (admit_rows a fp)
     (\<lambda>_. if runnable then admit_queue a (admitted_delivery a) else tx_return (admitted_delivery a))"
  by (rule ext)
    (auto simp: admit_new_def admit_rows_def tx_bind_def tx_return_def Let_def split: sum.splits)

lemma admit_queue_good:
  assumes good: "good st0 st" and rows: "v_rows (view (a_key a) st) = [delivery_row_of (admitted_delivery a) fp]"
    and run: "admit_queue a (admitted_delivery a) st = Inr (d', st')"
  shows "good st0 st'"
proof -
  let ?k = "a_key a" and ?d = "admitted_delivery a"
  let ?f = "\<lambda>r. r\<lparr>dr_state := DeliveryQueued, dr_version := 2\<rparr>"
  have fields: "d_state ?d = DeliveryAdmitted" "d_version ?d = 1" by (simp_all add: admitted_delivery_def)
  from run obtain row st1 st2 where
    app: "appendDeliveryEvent ?k DeliveryEventTransitioned (PTransitioned DeliveryAdmitted DeliveryQueued 2)
       (queueEventIdentity (snd (snd ?k)) ''admit'' 0 (ei_at (a_event a))) FPNone st = Inr (row, st1)" and
    upd: "st2 = set_delivery_row ?k ?f st1" and
    ins: "insertQueueRow (queue_row_of ?k (d_created ?d) (d_created ?d) (d_created ?d)) st2 = Inr ((), st')"
    by (auto simp: admit_queue_def Let_def tx_simps fields)
  have q: "\<And>k. view k st' = view k st2"
    using ins by (auto simp: insertQueueRow_def tx_simps store_simps)
  from consistent_cases [of st ?k] good rows obtain d0 where
    d0: "log_ok (v_log (view ?k st)) d0" "tables_ok ?k (view ?k st) d0"
    by (auto simp: no_rows_def good_def)
  with rows have same: "d_state d0 = DeliveryAdmitted" "d_version d0 = 1"
    by (auto simp: tables_ok_def scalars_ok_def delivery_row_of_def fields)
  from app show ?thesis
  proof (cases rule: appendE)
    case old
    then show ?thesis
      using transition_event_new [OF d0(1), of "PTransitioned DeliveryAdmitted DeliveryQueued 2" row] by (simp add: same)
  next
    case new
    let ?r = "delivery_row_of ?d fp"
    have v1: "view k st1 = (if k = ?k then (view ?k st)\<lparr>v_log := v_log (view ?k st) @ [row]\<rparr> else view k st)" for k
      using new by (simp add: view_event)
    have views: "view k st' = (if k = ?k then (view ?k st)\<lparr>v_rows := [?f ?r], v_log := v_log (view ?k st) @ [row]\<rparr>
        else view k st)" for k
      by (simp add: q upd view_set_delivery v1 rows)
    have at: "er_at row = dr_updated ?r"
      using new by (simp add: delivery_row_of_def admitted_delivery_def queueEventIdentity_def Let_def)
    have "consistent ?k ((view ?k st)\<lparr>v_rows := [?r\<lparr>dr_state := DeliveryQueued, dr_version := d_version d0 + 1,
        dr_updated := er_at row\<rparr>], v_log := v_log (view ?k st) @ [row]\<rparr>)"
      using new by (intro transition_consistent [OF d0 rows])
        (simp_all add: same log_seq [OF d0(1)] validDeliveryTransition_def isTerminalDeliveryState_def)
    then have "consistent ?k (view ?k st')"
      unfolding views by (simp add: same at)
    then show ?thesis
      by (intro good_change [OF good, of ?k]) (simp_all add: views)
  qed
qed

lemma ensureQueueRow_good:
  "ensureQueueRow q st = Inr (u, st') \<Longrightarrow> good st0 st \<Longrightarrow> good st0 st'"
  by (simp add: ensureQueueRow_def tx_simps store_simps split: if_splits)

lemma admit_again_cases:
  assumes run: "admit_again a fp runnable r st = Inr (d, st')"
  obtains (found) "st' = st"
  | (queued) d1 d2 st1 where "loadDelivery (a_key a) st = Inr d1"
      and "(if d_state d1 = DeliveryAdmitted then transitionInTx d1 DeliveryQueued
        (queueEventIdentity (snd (snd (d_key d1))) ''admit'' 0 (ei_at (a_event a))) else tx_return d1) st = Inr (d2, st1)"
      and "ensureQueueRow (queue_row_of (d_key d2) (d_created d2) (d_created d2) (d_created d2)) st1 = Inr ((), st')"
proof (cases runnable)
  case True
  have guard: "\<not> (dr_key r \<noteq> a_key a \<or> dr_fingerprint r \<noteq> fp)"
    using run by (simp add: admit_again_def tx_simps split: if_splits)
  from run True queued show ?thesis
    unfolding admit_again_def if_not_P [OF guard]
    by (simp only: tx_bind_Inr tx_read_Inr tx_return_Inr not_True_eq_False if_False) auto
next
  case False
  with run found show ?thesis by (auto simp: admit_again_def tx_simps split: if_splits)
qed

lemma admit_again_good:
  assumes "admit_again a fp runnable r st = Inr (d, st')" and good: "good st0 st"
  shows "good st0 st'"
  using assms(1)
proof (cases rule: admit_again_cases)
  case found
  with good show ?thesis by simp
next
  case (queued d1 d2 st1)
  have "good st0 st1"
    using queued(2) good good_load [OF queued(1) good] by (auto simp: tx_simps dest: good_transition split: if_splits)
  with queued(3) show ?thesis by (rule ensureQueueRow_good)
qed

lemma admit_tx_keeps:
  assumes "valid_admission a"
  shows "keeps (admit_tx a fp runnable)"
proof (rule keepsI)
  fix st0 st d st'
  assume good: "good st0 st" and run: "admit_tx a fp runnable st = Inr (d, st')"
  show "good st0 st'"
  proof (cases "row_find (\<lambda>r. fst (dr_key r) = fst (a_key a) \<and> fst (snd (dr_key r)) = fst (snd (a_key a)) \<and>
      dr_admission_key r = a_admission_key a) (t_deliveries st)")
    case (Some r)
    with run good show ?thesis by (simp add: admit_tx_def admit_again_good)
  next
    case None
    with run have none: "row_find (\<lambda>r. dr_key r = a_key a) (t_deliveries st) = None"
      and new: "admit_new a fp runnable st = Inr (d, st')"
      by (auto simp: admit_tx_def split: option.splits)
    then obtain st1 where st1: "admit_rows a fp st = Inr ((), st1)"
      "(if runnable then admit_queue a (admitted_delivery a) else tx_return (admitted_delivery a)) st1 = Inr (d, st')"
      by (auto simp: admit_new_rows tx_simps)
    from admit_rows_good [OF good none assms st1(1)] st1(2) show ?thesis
      by (auto simp: tx_simps split: if_splits dest: admit_queue_good)
  qed
qed

lemma normalizeAdmission_valid:
  "normalizeAdmission a now = Inr (a', fp) \<Longrightarrow> valid_admission a'"
  by (auto simp: normalizeAdmission_def Let_def valid_admission_def split: if_splits)

lemma admit_good:
  assumes "good st0 st"
  shows "good st0 (snd (admit a runnable now st))"
  using assms keepsD [OF admit_tx_keeps [OF normalizeAdmission_valid]]
  by (auto simp: admit_def run_tx_def split: sum.splits)

section \<open>Aggregate mutations\<close>

text \<open>
  What a mutation of an aggregate owes: run on the loaded aggregate \<open>dl\<close>, which agrees with the
  replayed \<open>d\<close>, it changes the tables of this delivery only, writes no event and no delivery row,
  and the event it asks for replays to an aggregate \<open>d'\<close> that its rows hold and that agrees with
  the one it returns.
\<close>

definition mutation_law ::
  "dkey \<Rightarrow> delivery_event_type \<Rightarrow> store \<Rightarrow> delivery \<Rightarrow> (int \<Rightarrow> payload) \<Rightarrow> delivery \<Rightarrow> store \<Rightarrow> delivery \<Rightarrow> bool" where
  "mutation_law k ty st d pv d1 st1 d' =
     ((\<forall>k'. k' \<noteq> k \<longrightarrow> view k' st1 = view k' st) \<and>
      t_deliveries st1 = t_deliveries st \<and> t_events st1 = t_events st \<and>
      (\<forall>i e. de_seq e = int i + 1 \<longrightarrow> de_type e = ty \<longrightarrow> de_payload e = pv (d_version d + 1) \<longrightarrow>
         replay_step i d e = Inr (d'\<lparr>d_version := d_version d + 1, d_updated := de_at e\<rparr>)) \<and>
      d_version d' = d_version d \<and> same_aggregate d' d1 \<and>
      goals_ok (view k st1) d' \<and> reqs_ok (view k st1) d' \<and> decs_ok (view k st1) d')"

lemma same_aggregate_update:
  "same_aggregate d d' \<Longrightarrow> same_aggregate (d\<lparr>d_version := v, d_updated := t\<rparr>) (d'\<lparr>d_version := v, d_updated := t\<rparr>)"
  by (cases d; cases d') (simp add: same_aggregate_def)

locale aggregate_mutation =
  fixes ty :: delivery_event_type and mu :: mutation
  assumes law: "tables_ok k (view k st) d \<Longrightarrow> same_aggregate d dl \<Longrightarrow> mu dl st = Inr ((pv, d1), st1) \<Longrightarrow>
      \<exists>d'. mutation_law k ty st d pv d1 st1 d'"
    and typed: "ty \<noteq> DeliveryEventAdmitted"
begin

lemma commit:
  assumes good: "good st0 st"
    and d: "log_ok (v_log (view k st)) d" "tables_ok k (view k st) d" "same_aggregate d dl"
    and fresh: "row_find (\<lambda>e. er_key e = k \<and> (er_id e = ei_id i \<or> er_idem e = ei_idem i)) (t_events st) = None"
    and run: "apply_mutation k (d_version dl) ty i fp mu dl st = Inr (d2, st')"
  shows "good st0 st' \<and> (\<exists>row d''. v_log (view k st') = v_log (view k st) @ [row] \<and> er_id row = ei_id i \<and>
    er_idem row = ei_idem i \<and> er_type row = ty \<and> er_fingerprint row = fp \<and>
    log_ok (v_log (view k st')) d'' \<and> same_aggregate d'' d2 \<and> d_version d2 = d_version dl + 1)"
proof -
  from run obtain pv d1 st1 where mu: "mu dl st = Inr ((pv, d1), st1)"
    by (auto simp: apply_mutation_def split: sum.splits)
  from law [OF d(2,3) mu] obtain d' where L: "mutation_law k ty st d pv d1 st1 d'" by blast
  from d(2) obtain r where r: "v_rows (view k st) = [r]" "scalars_ok k r d" by (auto simp: tables_ok_def)
  let ?d2 = "d1\<lparr>d_version := d_version d1 + 1, d_updated := ei_at i\<rparr>"
  let ?f = "\<lambda>r. r\<lparr>dr_state := d_state ?d2, dr_version := d_version ?d2,
     dr_goal_revision := d_goal_revision ?d2, dr_updated := timestamp (d_updated ?d2)\<rparr>"
  let ?sel = "\<lambda>r. dr_key r = k \<and> dr_version r = d_version dl"
  let ?st2 = "st1\<lparr>t_deliveries := row_update ?sel ?f (t_deliveries st1)\<rparr>"
  have dlv: "t_deliveries st1 = t_deliveries st" and ev: "t_events st1 = t_events st"
    and frame: "\<And>k'. k' \<noteq> k \<Longrightarrow> view k' st1 = view k' st"
    using L by (auto simp: mutation_law_def)
  have same: "d_version d1 = d_version d'" "d_version dl = d_version d"
    using L d(3) by (auto simp: mutation_law_def dest: same_aggregate_scalars)
  have "\<forall>q \<in> set (v_rows (view k st)). dr_version q = d_version dl"
    using r same by (simp add: scalars_ok_def)
  then have "row_update ?sel ?f (t_deliveries st1) = row_update (\<lambda>r. dr_key r = k) ?f (t_deliveries st1)"
    unfolding row_update_def dlv by (intro map_cong refl) (auto simp: view_def)
  then have st2: "?st2 = set_delivery_row k ?f st1" by (simp add: set_delivery_row_def)
  from run mu obtain row where
    app: "appendDeliveryEvent k ty (pv (d_version ?d2)) i fp ?st2 = Inr (row, st')" and d2: "d2 = ?d2"
    by (auto simp: apply_mutation_def Let_def split: if_splits sum.splits)
  have none: "row_find (\<lambda>e. er_key e = k \<and> (er_idem e = ei_idem i \<or> er_id e = ei_id i)) (t_events ?st2) = None"
    using fresh by (auto simp: ev row_find_None)
  from app none have new: "st' = ?st2\<lparr>t_events := t_events ?st2 @ [row]\<rparr>"
    "row = \<lparr>er_key = k, er_seq = max_seq (v_log (view k ?st2)) + 1, er_id = ei_id i, er_idem = ei_idem i,
       er_type = ty, er_at = timestamp (ei_at i), er_payload = pv (d_version ?d2), er_fingerprint = fp\<rparr>"
    by (auto elim!: appendE)
  have v1rows: "v_rows (view k st1) = [r]" and v1log: "v_log (view k st1) = v_log (view k st)"
    using r dlv ev by (simp_all add: view_def log_rows_def)
  have v2: "view k' ?st2 = (if k' = k then (view k st1)\<lparr>v_rows := [?f r]\<rparr> else view k' st)" for k'
    using v1rows frame [of k'] by (subst st2, subst view_set_delivery) simp_all
  have keyrow: "er_key row = k" using new(2) by simp
  have views: "view k' st' = (if k' = k then (view k st1)\<lparr>v_rows := [?f r], v_log := v_log (view k st) @ [row]\<rparr>
      else view k' st)" for k'
    by (simp only: new(1) view_event v2 keyrow) (auto simp: v1log)
  have agg: "same_aggregate d' d1" using L by (simp add: mutation_law_def)
  have ver: "d_version d' = d_version d" using L by (simp add: mutation_law_def)
  let ?d3 = "d'\<lparr>d_version := d_version d + 1, d_updated := ei_at i\<rparr>"
  have pos: "0 < length (v_log (view k st))" using d(1) by (simp add: log_ok_def)
  have seq: "er_seq row = int (length (v_log (view k st))) + 1"
    using new(2) log_seq [OF d(1)] v2 [of k] by (simp add: v1log)
  have step: "replay_step (length (v_log (view k st))) d (event_of_row row) = Inr ?d3"
    using L new(2) seq same ver unfolding mutation_law_def by (simp add: event_of_row_def)
  have log: "log_ok (v_log (view k st) @ [row]) ?d3"
    using log_ok_snoc [OF d(1) seq step] .
  have sameagg: "same_aggregate ?d3 ?d2"
    using same_aggregate_update [OF agg] ver same by simp
  have "scalars_ok k (?f r) ?d3"
    using r(2) replay_step_frame [OF step pos] same_aggregate_scalars [OF agg] ver
    by (simp add: scalars_ok_def)
  moreover have "goals_ok (view k st') ?d3 \<and> reqs_ok (view k st') ?d3 \<and> decs_ok (view k st') ?d3"
    using L by (simp add: mutation_law_def views goals_ok_def reqs_ok_def decs_ok_def)
  ultimately have tab: "tables_ok k (view k st') ?d3"
    by (simp add: tables_ok_def views)
  have "consistent k (view k st')"
    using log tab by (auto simp: consistent_def views)
  then have "good st0 st'"
    by (intro good_change [OF good, of k]) (simp_all add: views)
  with log sameagg show ?thesis
    unfolding d2 using new(2) ver same by (intro conjI exI [of _ row] exI [of _ ?d3]) (simp_all add: views)
qed

end

subsection \<open>The compare-and-swap around a mutation\<close>

lemma loadExistingMutation_None:
  "loadExistingMutation k ty i fp st = Inr None \<longleftrightarrow>
     row_find (\<lambda>e. er_key e = k \<and> (er_id e = ei_id i \<or> er_idem e = ei_idem i)) (t_events st) = None"
proof -
  have "map_sum (\<lambda>e. e) Some r \<noteq> Inr None" for r :: "delivery_error + delivery" by (cases r) simp_all
  then show ?thesis by (simp add: loadExistingMutation_def split: option.splits)
qed

lemma mutate_cases:
  obtains (unchanged) "snd (mutate obs now k v ty i0 fp mu st) = st"
  | (applied) d2 st2 d where "mutate obs now k v ty i0 fp mu st = (Inr d2, st2)"
      and "loadExistingMutation k ty (i0\<lparr>ei_at := or_time (ei_at i0) now\<rparr>) fp st = Inr None"
      and "loadDelivery k st = Inr d" and "d_version d = v"
      and "apply_mutation k v ty (i0\<lparr>ei_at := or_time (ei_at i0) now\<rparr>) fp mu d st = Inr (d2, st2)"
proof (cases "\<not> validateDeliveryRef k \<or> v < 1 \<or> ei_id i0 = '''' \<or> ei_idem i0 = ''''")
  case True
  then show ?thesis by (intro unchanged) (simp add: mutate_def)
next
  case False
  let ?i = "i0\<lparr>ei_at := or_time (ei_at i0) now\<rparr>"
  note unfold = mutate_def if_not_P [OF False] Let_def
  show ?thesis
  proof (cases "\<exists>d. loadExistingMutation k ty ?i fp st = Inr None \<and> loadDelivery k st = Inr d \<and> d_version d = v")
    case True
    then obtain d where d: "loadExistingMutation k ty ?i fp st = Inr None" "loadDelivery k st = Inr d" "d_version d = v"
      by blast
    show ?thesis
    proof (cases "apply_mutation k v ty ?i fp mu d st")
      case (Inl f)
      with d show ?thesis by (intro unchanged) (simp add: unfold split: mut_failure.split)
    next
      case (Inr p)
      with d have "mutate obs now k v ty i0 fp mu st = (Inr (fst p), snd p)"
        unfolding unfold by (cases p) simp
      with d Inr show ?thesis by (intro applied [of "fst p" "snd p" d]) simp_all
    qed
  next
    case False
    then show ?thesis
      by (intro unchanged) (auto simp: unfold split: sum.split option.split)
  qed
qed

context aggregate_mutation
begin

lemma mutate_good:
  assumes "good st0 st"
  shows "good st0 (snd (mutate obs now k v ty i0 fp mu st))"
proof (cases rule: mutate_cases [of obs now k v ty i0 fp mu st])
  case unchanged
  with assms show ?thesis by simp
next
  case (applied d2 st2 d)
  from assms have "store_ok st" by (simp add: good_def)
  from store_ok_load [OF this applied(3)] obtain d0 where
    d0: "log_ok (v_log (view k st)) d0" "tables_ok k (view k st) d0" "same_aggregate d0 d" by blast
  from applied(2) have none: "row_find (\<lambda>e. er_key e = k \<and>
      (er_id e = ei_id (i0\<lparr>ei_at := or_time (ei_at i0) now\<rparr>) \<or>
       er_idem e = ei_idem (i0\<lparr>ei_at := or_time (ei_at i0) now\<rparr>))) (t_events st) = None"
    by (simp only: loadExistingMutation_None)
  from this applied(4,5) have "good st0 st2"
    using commit [OF assms d0, of "i0\<lparr>ei_at := or_time (ei_at i0) now\<rparr>" fp d2 st2] by blast
  with applied(1) show ?thesis by simp
qed

end

subsection \<open>Retries\<close>

lemma row_find_key:
  "row_find (\<lambda>e. er_key e = k \<and> p e) (t_events st) = row_find p (v_log (view k st))"
  by (simp add: view_def log_rows_def row_find_filter conj_commute)

lemma row_find_prefix:
  "prefix xs ys \<Longrightarrow> row_find p xs = Some x \<Longrightarrow> row_find p ys = Some x"
  by (auto simp: prefix_def row_find_append)

lemma log_seqs:
  "store_ok st \<Longrightarrow> map er_seq (v_log (view k st)) = map (\<lambda>i. int i + 1) [0..<length (v_log (view k st))]"
  using consistent_cases [of st k] by (auto simp: no_rows_def log_ok_def)

lemma through_take:
  assumes "store_ok st" and "n \<le> length (v_log (view k st))"
  shows "loadDeliveryEventsThrough k (int n) st = map event_of_row (take n (v_log (view k st)))"
proof -
  let ?log = "v_log (view k st)"
  have eq: "filter (\<lambda>e. er_key e = k \<and> er_seq e \<le> int n) (t_events st) = filter (\<lambda>e. er_seq e \<le> int n) ?log"
    by (simp add: view_def log_rows_def conj_commute)
  have "filter (\<lambda>e. er_seq e \<le> int n) ?log = take n ?log"
    using seqs_through [OF log_seqs [OF assms(1)] assms(2)] .
  moreover have "sort_key er_seq (take n ?log) = take n ?log"
  proof (rule sort_key_id_if_sorted)
    have "map er_seq (take n ?log) = take n (map (\<lambda>i. int i + 1) [0..<length ?log])"
      using log_seqs [OF assms(1), of k] by (metis take_map)
    then show "sorted (map er_seq (take n ?log))"
      by (simp add: take_map sorted_map sorted_wrt_iff_nth_less)
  qed
  ultimately show ?thesis by (simp add: loadDeliveryEventsThrough_def eq)
qed

lemma seq_of_member:
  assumes "store_ok st" and "x \<in> set (v_log (view k st))"
  obtains n where "er_seq x = int n" and "n \<le> length (v_log (view k st))"
proof -
  from assms(2) obtain j where j: "j < length (v_log (view k st))" "x = v_log (view k st) ! j"
    by (auto simp: in_set_conv_nth)
  have "map er_seq (v_log (view k st)) ! j = map (\<lambda>i. int i + 1) [0..<length (v_log (view k st))] ! j"
    by (simp only: log_seqs [OF assms(1)])
  with j have "er_seq x = int (Suc j)" by simp
  with j(1) that show ?thesis by fastforce
qed

lemma existing_stable:
  assumes st: "store_ok st" and st': "good st st'"
    and found: "loadExistingMutation k ty i fp st = Inr (Some d)"
  shows "loadExistingMutation k ty i fp st' = Inr (Some d)"
proof -
  let ?p = "\<lambda>e. er_id e = ei_id i \<or> er_idem e = ei_idem i"
  have pre: "prefix (v_log (view k st)) (v_log (view k st'))" and ok': "store_ok st'"
    using st' unfolding good_def grows_def by blast+
  from found obtain x where x: "row_find ?p (v_log (view k st)) = Some x"
    and replay: "map_sum (\<lambda>e. e) Some (ReplayDelivery (loadDeliveryEventsThrough k (er_seq x) st)) = Inr (Some d)"
    and agree: "\<not> (er_id x \<noteq> ei_id i \<or> er_idem x \<noteq> ei_idem i \<or> er_type x \<noteq> ty \<or> er_fingerprint x \<noteq> fp)"
    by (auto simp: loadExistingMutation_def row_find_key split: option.splits if_splits)
  from row_find_SomeD [OF x] have "x \<in> set (v_log (view k st))" by blast
  then obtain n where n: "er_seq x = int n" "n \<le> length (v_log (view k st))"
    by (rule seq_of_member [OF st])
  have "n \<le> length (v_log (view k st'))" using n(2) prefix_length_le [OF pre] by simp
  with n pre have "loadDeliveryEventsThrough k (er_seq x) st' = loadDeliveryEventsThrough k (er_seq x) st"
    by (simp add: through_take st ok') (auto simp: prefix_def)
  with replay agree row_find_prefix [OF pre x] show ?thesis
    by (simp add: loadExistingMutation_def row_find_key)
qed

lemma log_ok_replay:
  assumes "log_ok log d" and "snd (snd (d_key d)) \<noteq> ''''"
  shows "ReplayDelivery (map event_of_row log) = Inr d"
  using assms by (simp add: log_ok_def aggregate_of_def ReplayDelivery_def)

lemma not_none_load:
  "loadExistingMutation k ty i fp st \<noteq> Inr None \<Longrightarrow> mutate obs now k v ty i0 fp mu st = (Inr d, st') \<Longrightarrow>
     i = i0\<lparr>ei_at := or_time (ei_at i0) now\<rparr> \<Longrightarrow>
     loadExistingMutation k ty i fp st = Inr (Some d) \<and> st' = st"
  by (auto simp: mutate_def Let_def split: if_splits sum.splits option.splits)

lemma mutate_guard:
  "mutate obs now k v ty i0 fp mu st = (Inr d, st') \<Longrightarrow>
     validateDeliveryRef k \<and> 1 \<le> v \<and> ei_id i0 \<noteq> '''' \<and> ei_idem i0 \<noteq> ''''"
  by (auto simp: mutate_def split: if_splits)

lemma resolve_unobserved: "resolveMutationFailure 100 [] k v ty i fp e = Inl ErrContext"
  by (simp add: numeral_eq_Suc)

lemma mutate_fresh:
  assumes first: "mutate [] now k v ty i0 fp mu st = (Inr d2, st')"
    and none: "loadExistingMutation k ty (i0\<lparr>ei_at := or_time (ei_at i0) now\<rparr>) fp st = Inr None"
  shows "\<exists>d. loadDelivery k st = Inr d \<and> d_version d = v \<and>
    apply_mutation k (d_version d) ty (i0\<lparr>ei_at := or_time (ei_at i0) now\<rparr>) fp mu d st = Inr (d2, st')"
proof -
  from mutate_guard [OF first]
  have g: "\<not> (\<not> validateDeliveryRef k \<or> v < 1 \<or> ei_id i0 = '''' \<or> ei_idem i0 = '''')" by auto
  from first none show ?thesis
    unfolding mutate_def if_not_P [OF g] Let_def resolve_unobserved
    by (auto split: sum.splits mut_failure.splits if_splits)
qed

lemma loadExistingMutation_at: "loadExistingMutation k ty (i\<lparr>ei_at := t\<rparr>) fp st = loadExistingMutation k ty i fp st"
  by (simp add: loadExistingMutation_def cong: option.case_cong)

lemma mutate_stale:
  assumes "loadExistingMutation k ty i0 fp st = Inr None" and "loadDelivery k st = Inr d" and "d_version d \<noteq> v"
  shows "\<exists>e. mutate obs now k v ty i0 fp mu st = (Inl e, st)"
proof (cases "\<not> validateDeliveryRef k \<or> v < 1 \<or> ei_id i0 = '''' \<or> ei_idem i0 = ''''")
  case True
  then show ?thesis by (simp add: mutate_def)
next
  case False
  from assms show ?thesis
    unfolding mutate_def if_not_P [OF False] Let_def by (simp add: loadExistingMutation_at)
qed

lemma mutate_retry:
  assumes "validateDeliveryRef k \<and> 1 \<le> v \<and> ei_id i0 \<noteq> '''' \<and> ei_idem i0 \<noteq> ''''"
    and "loadExistingMutation k ty i0 fp st = Inr (Some d)"
  shows "mutate obs now k v ty i0 fp mu st = (Inr d, st)"
  using assms by (simp add: mutate_def Let_def loadExistingMutation_at)

context aggregate_mutation
begin

lemma committed_found:
  assumes st: "store_ok st" and first: "mutate [] now k v ty i0 fp mu st = (Inr d2, st')"
  shows "good st st' \<and> (\<exists>d'. loadExistingMutation k ty i0 fp st' = Inr (Some d') \<and> same_aggregate d' d2)"
proof (cases "loadExistingMutation k ty i0 fp st = Inr None")
  case False
  let ?i = "i0\<lparr>ei_at := or_time (ei_at i0) now\<rparr>"
  have "loadExistingMutation k ty ?i fp st \<noteq> Inr None" using False by (simp add: loadExistingMutation_at)
  from not_none_load [OF this first refl] st show ?thesis
    by (auto simp: loadExistingMutation_at good_refl)
next
  case True
  let ?i = "i0\<lparr>ei_at := or_time (ei_at i0) now\<rparr>"
  let ?p = "\<lambda>e. er_id e = ei_id ?i \<or> er_idem e = ei_idem ?i"
  note guard = mutate_guard [OF first]
  from True have none: "loadExistingMutation k ty ?i fp st = Inr None" by (simp only: loadExistingMutation_at)
  from mutate_fresh [OF first none] obtain d where d: "loadDelivery k st = Inr d" "d_version d = v"
    and run: "apply_mutation k (d_version d) ty ?i fp mu d st = Inr (d2, st')" by blast
  from store_ok_load [OF st d(1)] obtain d0 where
    d0: "log_ok (v_log (view k st)) d0" "tables_ok k (view k st) d0" "same_aggregate d0 d" by blast
  from none have fresh: "row_find (\<lambda>e. er_key e = k \<and> (er_id e = ei_id ?i \<or> er_idem e = ei_idem ?i)) (t_events st) = None"
    by (simp only: loadExistingMutation_None)
  from commit [OF good_refl [OF st] d0 fresh run] obtain row d'' where
    good: "good st st'" and log: "v_log (view k st') = v_log (view k st) @ [row]" and
    row: "er_id row = ei_id i0" "er_idem row = ei_idem i0" "er_type row = ty" "er_fingerprint row = fp" and
    d'': "log_ok (v_log (view k st')) d''" "same_aggregate d'' d2" by auto
  have ok': "store_ok st'" using good by (simp add: good_def)
  have found: "row_find ?p (v_log (view k st')) = Some row"
    using fresh row by (simp add: row_find_key log row_find_append row_find_Cons)
  have key: "snd (snd (d_key d'')) \<noteq> ''''"
  proof -
    from consistent_cases [OF ok', of k] log obtain d3 where
      "log_ok (v_log (view k st')) d3" "tables_ok k (view k st') d3" by (auto simp: no_rows_def)
    with d''(1) have "d_key d'' = k" by (auto simp: log_ok_def tables_ok_def scalars_ok_def)
    with guard show ?thesis by (simp add: validateDeliveryRef_def)
  qed
  have "er_seq row = int (length (v_log (view k st')))"
    using d''(1) by (simp add: log_ok_def log)
  then have "loadDeliveryEventsThrough k (er_seq row) st' = map event_of_row (v_log (view k st'))"
    using through_take [OF ok', of "length (v_log (view k st'))" k] by simp
  then have "loadExistingMutation k ty ?i fp st' = Inr (Some d'')"
    using found row log_ok_replay [OF d''(1) key] by (simp add: loadExistingMutation_def row_find_key)
  with good d''(2) show ?thesis by (simp add: loadExistingMutation_at)
qed

lemma retried:
  assumes st: "store_ok st" and first: "mutate [] now k v ty i0 fp mu st = (Inr d2, st')"
    and later: "good st' st''"
  shows "\<exists>d'. mutate obs now' k v ty (i0\<lparr>ei_at := t\<rparr>) fp mu' st'' = (Inr d', st'') \<and> same_aggregate d' d2"
proof -
  from committed_found [OF st first] obtain d' where
    ok: "store_ok st'" and d': "loadExistingMutation k ty i0 fp st' = Inr (Some d')" "same_aggregate d' d2"
    by (auto simp: good_def)
  have "loadExistingMutation k ty (i0\<lparr>ei_at := t\<rparr>) fp st'' = Inr (Some d')"
    using existing_stable [OF ok later d'(1)] by (simp only: loadExistingMutation_at)
  moreover have "validateDeliveryRef k \<and> 1 \<le> v \<and> ei_id (i0\<lparr>ei_at := t\<rparr>) \<noteq> '''' \<and> ei_idem (i0\<lparr>ei_at := t\<rparr>) \<noteq> ''''"
    using mutate_guard [OF first] by simp
  ultimately have "mutate obs now' k v ty (i0\<lparr>ei_at := t\<rparr>) fp mu' st'' = (Inr d', st'')"
    by (intro mutate_retry)
  with d'(2) show ?thesis by blast
qed

lemma raises_version:
  assumes st: "store_ok st" and first: "mutate [] now k v ty i0 fp mu st = (Inr d2, st')"
    and none: "loadExistingMutation k ty i0 fp st = Inr None"
  shows "\<exists>d. loadDelivery k st' = Inr d \<and> d_version d = v + 1"
proof -
  let ?i = "i0\<lparr>ei_at := or_time (ei_at i0) now\<rparr>"
  from none have none': "loadExistingMutation k ty ?i fp st = Inr None" by (simp only: loadExistingMutation_at)
  from mutate_fresh [OF first this] obtain d where d: "loadDelivery k st = Inr d" "d_version d = v"
    and run: "apply_mutation k (d_version d) ty ?i fp mu d st = Inr (d2, st')" by blast
  from store_ok_load [OF st d(1)] obtain d0 where
    d0: "log_ok (v_log (view k st)) d0" "tables_ok k (view k st) d0" "same_aggregate d0 d" by blast
  from none' have "row_find (\<lambda>e. er_key e = k \<and> (er_id e = ei_id ?i \<or> er_idem e = ei_idem ?i)) (t_events st) = None"
    by (simp only: loadExistingMutation_None)
  from commit [OF good_refl [OF st] d0 this run] obtain d'' row where
    ok: "store_ok st'" and d'': "log_ok (v_log (view k st')) d''" "same_aggregate d'' d2" "d_version d2 = v + 1"
    and log: "v_log (view k st') = v_log (view k st) @ [row]"
    using d(2) by (auto simp: good_def)
  from consistent_cases [OF ok, of k] log obtain d3 r where
    d3: "log_ok (v_log (view k st')) d3" "tables_ok k (view k st') d3" "v_rows (view k st') = [r]"
    by (auto simp: no_rows_def)
  with d''(1) have "d3 = d''" by (simp add: log_ok_def)
  with delivery_of_row_same [OF d3(2,3)] d'' have "d_version (delivery_of_row st' r) = v + 1"
    by (auto dest!: same_aggregate_scalars)
  with d3(3) show ?thesis by (simp add: loadDelivery_view)
qed

end

subsection \<open>The five mutations obey the law\<close>

lemma tables_same:
  assumes "tables_ok k (view k st) d" and "same_aggregate d dl"
  shows "d_key dl = k \<and> d_state dl = d_state d \<and> d_version dl = d_version d \<and> d_goal_revision dl = d_goal_revision d"
  using assms by (auto simp: tables_ok_def scalars_ok_def dest: same_aggregate_scalars)

interpretation transition: aggregate_mutation DeliveryEventTransitioned "transition_mutation nxt" for nxt
proof
  fix k st d dl pv d1 st1
  assume tab: "tables_ok k (view k st) d" and same: "same_aggregate d dl"
    and run: "transition_mutation nxt dl st = Inr ((pv, d1), st1)"
  note s = tables_same [OF tab same]
  from run have r: "pv = PTransitioned (d_state d) nxt" "d1 = dl\<lparr>d_state := nxt\<rparr>" "st1 = st"
    "validDeliveryTransition (d_state d) nxt"
    using s by (auto simp: transition_mutation_def tx_simps Transition_Inr)
  have "same_aggregate (d\<lparr>d_state := nxt\<rparr>) (dl\<lparr>d_state := nxt\<rparr>)"
    using same by (cases d; cases dl) (simp add: same_aggregate_def)
  then have "mutation_law k DeliveryEventTransitioned st d pv d1 st1 (d\<lparr>d_state := nxt\<rparr>)"
    using tab r by (auto simp: mutation_law_def replay_step_transition tables_ok_def goals_ok_def reqs_ok_def decs_ok_def)
  then show "\<exists>d'. mutation_law k DeliveryEventTransitioned st d pv d1 st1 d'" by blast
qed simp

interpretation goal: aggregate_mutation DeliveryEventGoalRevised "goal_mutation g rs" for g rs
proof
  fix k st d dl pv d1 st1
  assume tab: "tables_ok k (view k st) d" and same: "same_aggregate d dl"
    and run: "goal_mutation g rs dl st = Inr ((pv, d1), st1)"
  note s = tables_same [OF tab same]
  let ?u = "\<lambda>x. x\<lparr>d_goal_revision := g_revision g, d_goals := d_goals x @ [g], d_requirements := d_requirements x @ rs\<rparr>"
  let ?st1 = "st\<lparr>t_goals := t_goals st @ [goal_row_of k g],
     t_requirements := t_requirements st @ map (req_row_of k) rs,
     t_checks := t_checks st @ concat (map (check_rows k) rs)\<rparr>"
  from run s have g: "g_revision g = d_goal_revision d + 1" "requirements_ok (g_revision g) [] rs"
    by (auto simp: goal_mutation_def tx_simps split: if_splits)
  from run s have r: "pv = PGoalRevised g rs" "d1 = ?u dl" "st1 = ?st1"
    by (auto simp: goal_mutation_def tx_simps split: if_splits dest!: insertGoal_effect)
  have v: "view k' st1 = (if k' = k then (view k st)\<lparr>v_goals := v_goals (view k st) @ [goal_row_of k g],
       v_reqs := v_reqs (view k st) @ map (req_row_of k) rs,
       v_checks := v_checks (view k st) @ concat (map (check_rows k) rs)\<rparr> else view k' st)" for k'
    unfolding r(3) by (rule view_insertGoal)
  have old: "reqs_ok (view k st) d" "goals_ok (view k st) d" "decs_ok (view k st) d"
    using tab by (simp_all add: tables_ok_def)
  have lt: "d_goal_revision d < g_revision g" using g(1) by simp
  have vk: "v_goals (view k st1) = v_goals (view k st) @ [goal_row_of k g]"
    "v_reqs (view k st1) = v_reqs (view k st) @ map (req_row_of k) rs"
    "v_checks (view k st1) = v_checks (view k st) @ concat (map (check_rows k) rs)"
    "v_decs (view k st1) = v_decs (view k st)" "v_ress (view k st1) = v_ress (view k st)"
    by (simp_all add: v)
  have "reqs_ok (view k st1) (?u d)"
    by (rule reqs_extend [OF old(1) g(2) lt vk(2,3)]) simp_all
  moreover have "goals_ok (view k st1) (?u d)"
    by (rule goals_extend [OF old(2) lt vk(1)]) simp_all
  moreover have "decs_ok (view k st1) (?u d)"
    using old(3) by (simp add: vk decs_ok_def)
  moreover have "same_aggregate (?u d) (?u dl)"
    using same by (cases d; cases dl) (simp add: same_aggregate_def)
  ultimately have "mutation_law k DeliveryEventGoalRevised st d pv d1 st1 (?u d)"
    using g r(1,2) unfolding mutation_law_def
    by (simp add: v replay_step_def replay_goal_def) (simp add: r(3))
  then show "\<exists>d'. mutation_law k DeliveryEventGoalRevised st d pv d1 st1 d'" by blast
qed simp

lemma row_count_pos: "row_count p rows > 0 \<Longrightarrow> (\<And>q. q \<in> set rows \<Longrightarrow> p q \<Longrightarrow> thesis) \<Longrightarrow> thesis"
  unfolding row_count_def by (auto simp: filter_empty_conv)

lemma view_update_requirements:
  assumes keys: "\<forall>r. rr_key (f r) = rr_key r" and p: "\<And>r. p r \<Longrightarrow> rr_key r = k"
  shows "view k' (st\<lparr>t_requirements := row_update p f (t_requirements st)\<rparr>) =
    (if k' = k then (view k st)\<lparr>v_reqs := row_update p f (v_reqs (view k st))\<rparr> else view k' st)"
proof (cases "k' = k")
  case True
  then show ?thesis by (simp add: view_def log_rows_def requirements.rows_update [OF keys])
next
  case False
  then have "\<And>r. p r \<Longrightarrow> rr_key r \<noteq> k'" using p by simp
  with False show ?thesis
    by (simp add: view_def log_rows_def requirements.rows_update_other [OF keys])
qed

interpretation requirement: aggregate_mutation DeliveryEventRequirementUpdated "requirement_mutation rid status w" for rid status w
proof
  fix k st d dl pv d1 st1
  assume tab: "tables_ok k (view k st) d" and same: "same_aggregate d dl"
    and run: "requirement_mutation rid status w dl st = Inr ((pv, d1), st1)"
  note s = tables_same [OF tab same]
  let ?n = "d_goal_revision d"
  let ?sel = "\<lambda>r. rr_key r = k \<and> rr_revision r = ?n \<and> rr_id r = rid"
  let ?g = "\<lambda>r. r\<lparr>rr_status := status, rr_waiver := w\<rparr>"
  let ?u = "\<lambda>x. x\<lparr>d_requirements := map (set_requirement rid ?n status w) (d_requirements x)\<rparr>"
  from run s have r: "pv = PRequirementUpdated rid ?n status w" "d1 = ?u dl"
      "st1 = st\<lparr>t_requirements := row_update ?sel ?g (t_requirements st)\<rparr>"
    and one: "row_count ?sel (t_requirements st) = 1"
    by (auto simp: requirement_mutation_def tx_simps Let_def split: if_splits)
  have keys: "\<forall>r. rr_key (?g r) = rr_key r" by simp
  have v: "view k' st1 = (if k' = k then (view k st)\<lparr>v_reqs := row_update ?sel ?g (v_reqs (view k st))\<rparr> else view k' st)" for k'
    unfolding r(3) by (rule view_update_requirements [OF keys]) simp
  have reqs: "reqs_ok (view k st) d" and dreq: "d_requirements d = map (req_of (v_checks (view k st))) (v_reqs (view k st))"
    using tab by (simp_all add: tables_ok_def reqs_ok_def)
  have kk: "\<forall>r \<in> set (v_reqs (view k st)). rr_key r = k" by (simp add: view_def)
  have upd: "map (set_requirement rid ?n status w) (d_requirements d) =
      map (req_of (v_checks (view k st))) (row_update ?sel ?g (v_reqs (view k st)))"
    using kk by (auto simp: dreq row_update_def set_requirement_def req_of_def)
  have idents: "map rr_ident (row_update ?sel ?g xs) = map rr_ident xs" for xs
    by (simp add: row_update_def)
  have v1: "v_reqs (view k st1) = row_update ?sel ?g (v_reqs (view k st))" "v_checks (view k st1) = v_checks (view k st)"
    by (simp_all add: v)
  have revs: "\<forall>r \<in> set (v_reqs (view k st1)). rr_revision r \<le> ?n"
    using reqs by (auto simp: reqs_ok_def v1 set_row_update)
  have du: "d_requirements (?u d) = map (req_of (v_checks (view k st))) (row_update ?sel ?g (v_reqs (view k st)))"
    "d_goal_revision (?u d) = ?n" using upd by simp_all
  have "reqs_ok (view k st1) (?u d)"
    unfolding reqs_ok_def v1 idents du using reqs revs unfolding reqs_ok_def v1 by blast
  moreover have "list_ex (\<lambda>r. r_id r = rid \<and> r_goal_revision r = ?n) (d_requirements d)"
  proof -
    obtain q where "q \<in> set (t_requirements st)" "?sel q"
      by (rule row_count_pos [of ?sel "t_requirements st"]) (simp_all add: one)
    then have "q \<in> set (v_reqs (view k st))" "rr_revision q = ?n" "rr_id q = rid" by (simp_all add: view_def)
    then show ?thesis by (auto simp: dreq list_ex_iff req_of_def)
  qed
  moreover have "same_aggregate (?u d) (?u dl)"
    using same by (cases d; cases dl) (simp add: same_aggregate_def)
  ultimately have "mutation_law k DeliveryEventRequirementUpdated st d pv d1 st1 (?u d)"
    using tab r(1,2) unfolding mutation_law_def
    by (simp add: v replay_step_def replay_requirement_def tables_ok_def goals_ok_def decs_ok_def) (simp add: r(3))
  then show "\<exists>d'. mutation_law k DeliveryEventRequirementUpdated st d pv d1 st1 d'" by blast
qed simp

definition decision_row_of :: "dkey \<Rightarrow> decision \<Rightarrow> decision_row" where
  "decision_row_of k d = \<lparr>dw_key = k, dw_id = dc_id d, dw_question = dc_question d,
     dw_options = dc_options d, dw_recommendation = dc_recommendation d,
     dw_consequences = dc_consequences d, dw_reversible = dc_reversible d,
     dw_deadline = map_option timestamp (dc_deadline d), dw_blocked = dc_blocked d,
     dw_requested = timestamp (dc_requested d)\<rparr>"

definition resolution_row_of :: "dkey \<Rightarrow> string \<Rightarrow> resolution \<Rightarrow> resolution_row" where
  "resolution_row_of k did res = \<lparr>rw_key = k, rw_id = did, rw_actor = rs_actor res,
     rw_choice = rs_choice res, rw_rationale = rs_rationale res, rw_resolved = timestamp (rs_resolved res)\<rparr>"

lemma resolution_of_resolution_row [simp]: "resolution_of_row (resolution_row_of k did res) = res"
  by (cases res) (simp add: resolution_of_row_def resolution_row_of_def)

lemma insert_decision_effect:
  "insert_decision_row k dec st = Inr (u, st') \<Longrightarrow>
     st' = st\<lparr>t_decisions := t_decisions st @ [decision_row_of k dec]\<rparr> \<and>
     (\<forall>r \<in> set (t_decisions st). \<not> (dw_key r = k \<and> dw_id r = dc_id dec))"
  by (auto simp: insert_decision_row_def decision_row_of_def tx_simps row_find_None split: if_splits)

lemma insert_resolution_effect:
  "insert_resolution_row k did res st = Inr (u, st') \<Longrightarrow>
     st' = st\<lparr>t_resolutions := t_resolutions st @ [resolution_row_of k did res]\<rparr> \<and>
     row_find (\<lambda>r. dw_key r = k \<and> dw_id r = did) (t_decisions st) \<noteq> None \<and>
     (\<forall>w \<in> set (t_resolutions st). \<not> (rw_key w = k \<and> rw_id w = did))"
  by (auto simp: insert_resolution_row_def resolution_row_of_def tx_simps row_find_None split: if_splits)

lemma view_decision:
  "view k' (st\<lparr>t_decisions := t_decisions st @ [decision_row_of k dec]\<rparr>) =
    (if k' = k then (view k st)\<lparr>v_decs := v_decs (view k st) @ [decision_row_of k dec]\<rparr> else view k' st)"
  by (simp add: view_def log_rows_def decision_row_of_def)

lemma view_resolution:
  "view k' (st\<lparr>t_resolutions := t_resolutions st @ [resolution_row_of k did res]\<rparr>) =
    (if k' = k then (view k st)\<lparr>v_ress := v_ress (view k st) @ [resolution_row_of k did res]\<rparr> else view k' st)"
  by (simp add: view_def log_rows_def resolution_row_of_def)

lemma dec_of_new:
  assumes "\<forall>w \<in> set ress. rw_id w \<noteq> dc_id dec" and "dc_resolution dec = None"
  shows "dec_of ress (decision_row_of k dec) = dec"
proof -
  have "row_find (\<lambda>w. rw_id w = dc_id dec) ress = None" using assms(1) by (simp add: row_find_None)
  then show ?thesis
    using assms(2) by (cases dec) (simp add: dec_of_def decision_row_of_def option.map_comp comp_def option.map_ident)
qed

interpretation request: aggregate_mutation DeliveryEventDecisionRequested "request_mutation dec" for dec
proof
  fix k st d dl pv d1 st1
  assume tab: "tables_ok k (view k st) d" and same: "same_aggregate d dl"
    and run: "request_mutation dec dl st = Inr ((pv, d1), st1)"
  note s = tables_same [OF tab same]
  let ?u = "\<lambda>x. x\<lparr>d_decisions := d_decisions x @ [dec]\<rparr>"
  from run s have r: "pv = PDecisionRequested dec" "d1 = ?u dl"
      "st1 = st\<lparr>t_decisions := t_decisions st @ [decision_row_of k dec]\<rparr>" "dc_resolution dec = None"
    and fresh: "\<forall>r \<in> set (t_decisions st). \<not> (dw_key r = k \<and> dw_id r = dc_id dec)"
    by (auto simp: request_mutation_def tx_simps split: if_splits dest!: insert_decision_effect)
  have v: "view k' st1 = (if k' = k then (view k st)\<lparr>v_decs := v_decs (view k st) @ [decision_row_of k dec]\<rparr>
      else view k' st)" for k'
    unfolding r(3) by (rule view_decision)
  have decs: "decs_ok (view k st) d" using tab by (simp add: tables_ok_def)
  have newid: "dc_id dec \<notin> set (map dw_id (v_decs (view k st)))" using fresh by (auto simp: view_def)
  then have "\<forall>w \<in> set (v_ress (view k st)). rw_id w \<noteq> dc_id dec"
    using decs unfolding decs_ok_def by metis
  then have "dec_of (v_ress (view k st)) (decision_row_of k dec) = dec" using r(4) by (rule dec_of_new)
  moreover have "dw_id (decision_row_of k dec) = dc_id dec" by (simp add: decision_row_of_def)
  ultimately have "decs_ok (view k st1) (?u d)"
    using decs newid by (auto simp: v decs_ok_def)
  moreover have "same_aggregate (?u d) (?u dl)"
    using same by (cases d; cases dl) (simp add: same_aggregate_def)
  ultimately have "mutation_law k DeliveryEventDecisionRequested st d pv d1 st1 (?u d)"
    using tab r(1,2) unfolding mutation_law_def
    by (simp add: v replay_step_def replay_decision_def tables_ok_def goals_ok_def reqs_ok_def) (simp add: r(3))
  then show "\<exists>d'. mutation_law k DeliveryEventDecisionRequested st d pv d1 st1 d'" by blast
qed simp

lemma dec_of_resolved:
  assumes "\<forall>w \<in> set ress. rw_id w \<noteq> did"
  shows "dec_of (ress @ [resolution_row_of k did res]) r =
    (if dw_id r = did then (dec_of ress r)\<lparr>dc_resolution := Some res\<rparr> else dec_of ress r)"
proof -
  have "row_find (\<lambda>w. rw_id w = did) ress = None" using assms by (simp add: row_find_None)
  moreover have "rw_id (resolution_row_of k did res) = did" by (simp add: resolution_row_of_def)
  ultimately show ?thesis
    by (auto simp: dec_of_def row_find_append row_find_Cons split: option.splits)
qed

interpretation resolve: aggregate_mutation DeliveryEventDecisionResolved "resolve_mutation did res" for did res
proof
  fix k st d dl pv d1 st1
  assume tab: "tables_ok k (view k st) d" and same: "same_aggregate d dl"
    and run: "resolve_mutation did res dl st = Inr ((pv, d1), st1)"
  note s = tables_same [OF tab same]
  let ?set = "\<lambda>x. if dc_id x = did then x\<lparr>dc_resolution := Some res\<rparr> else x"
  let ?u = "\<lambda>x. x\<lparr>d_decisions := map ?set (d_decisions x)\<rparr>"
  from run s have r: "pv = PDecisionResolved did res" "d1 = ?u dl"
      "st1 = st\<lparr>t_resolutions := t_resolutions st @ [resolution_row_of k did res]\<rparr>"
    and known: "row_find (\<lambda>r. dw_key r = k \<and> dw_id r = did) (t_decisions st) \<noteq> None"
    and fresh: "\<forall>w \<in> set (t_resolutions st). \<not> (rw_key w = k \<and> rw_id w = did)"
    by (auto simp: resolve_mutation_def tx_simps split: if_splits dest!: insert_resolution_effect)
  have v: "view k' st1 = (if k' = k then (view k st)\<lparr>v_ress := v_ress (view k st) @ [resolution_row_of k did res]\<rparr>
      else view k' st)" for k'
    unfolding r(3) by (rule view_resolution)
  have decs: "decs_ok (view k st) d" using tab by (simp add: tables_ok_def)
  then have ddec: "d_decisions d = map (dec_of (v_ress (view k st))) (v_decs (view k st))" by (simp add: decs_ok_def)
  have unres: "\<forall>w \<in> set (v_ress (view k st)). rw_id w \<noteq> did" using fresh by (simp add: view_def)
  have ids: "dc_id (dec_of ress x) = dw_id x" for ress x by (simp add: dec_of_def)
  have none: "dc_resolution (dec_of (v_ress (view k st)) x) = None" if "dw_id x = did" for x
    using unres that by (simp add: dec_of_def row_find_None)
  from known obtain q where "q \<in> set (t_decisions st)" "dw_key q = k" "dw_id q = did"
    by (auto dest: row_find_SomeD)
  then have q: "q \<in> set (v_decs (view k st))" "dw_id q = did" by (simp_all add: view_def)
  have some: "list_ex (\<lambda>x. dc_id x = did \<and> dc_resolution x = None) (d_decisions d)"
    using q none by (auto simp: ddec list_ex_iff ids)
  have upd: "map (\<lambda>x. if dc_id x = did \<and> dc_resolution x = None then x\<lparr>dc_resolution := Some res\<rparr> else x) (d_decisions d) =
      map ?set (d_decisions d)"
    using none by (auto simp: ddec ids)
  have "map ?set (d_decisions d) = map (dec_of (v_ress (view k st) @ [resolution_row_of k did res])) (v_decs (view k st))"
    using unres by (simp add: ddec dec_of_resolved ids)
  moreover have "rw_id (resolution_row_of k did res) = did" by (simp add: resolution_row_of_def)
  ultimately have "decs_ok (view k st1) (?u d)"
    using decs q by (auto simp: v decs_ok_def)
  moreover have "same_aggregate (?u d) (?u dl)"
    using same by (cases d; cases dl) (simp add: same_aggregate_def)
  moreover have "replay_step i d e = Inr ((?u d)\<lparr>d_version := d_version d + 1, d_updated := de_at e\<rparr>)"
    if "de_seq e = int i + 1" "de_type e = DeliveryEventDecisionResolved"
      "de_payload e = PDecisionResolved did res (d_version d + 1)" for i e
    using that some by (simp add: replay_step_def replay_resolution_def upd cong: if_cong)
  ultimately have "mutation_law k DeliveryEventDecisionResolved st d pv d1 st1 (?u d)"
    using tab unfolding mutation_law_def r(1,2)
    by (simp add: v tables_ok_def goals_ok_def reqs_ok_def) (simp add: r(3))
  then show "\<exists>d'. mutation_law k DeliveryEventDecisionResolved st d pv d1 st1 d'" by blast
qed simp

end
