(* ===== verification/Delivery_Queue_Laws.thy ===== *)
theory Delivery_Queue_Laws
  imports Delivery_Laws
begin

text \<open>
  Every operation of the queue keeps the stores of deliveries consistent and their logs growing.
\<close>

lemma insertQueueRow_good:
  "insertQueueRow q st = Inr (u, st') \<Longrightarrow> good st0 st \<Longrightarrow> good st0 st' \<and> (\<forall>d. current d st' = current d st)"
  by (auto simp: insertQueueRow_def tx_simps store_simps)

lemma update_queue_one_good:
  "update_queue_one p f st = Inr (u, st') \<Longrightarrow> good st0 st \<Longrightarrow> good st0 st' \<and> (\<forall>d. current d st' = current d st)"
  by (auto simp: update_queue_one_def requireChanged_def tx_simps store_simps)

lemma verifyLease_Inr [tx_simps]:
  "verifyLease l now st = Inr (u, st') \<longleftrightarrow> row_find (holds_lease l now) (t_queue st) \<noteq> None \<and> st' = st"
  by (auto simp: verifyLease_def tx_simps split: if_splits)

lemma updateAttempt_good:
  "updateAttempt now l f st = Inr (u, st') \<Longrightarrow> good st0 st \<Longrightarrow> good st0 st' \<and> (\<forall>d. current d st' = current d st)"
  by (auto simp: updateAttempt_def requireChanged_def tx_simps store_simps Let_def)

lemmas goods = good_load good_transition insertQueueRow_good update_queue_one_good updateAttempt_good

lemma QueueAdmitted_keeps: "keeps (QueueAdmitted now k v)"
  by (rule keepsI) (auto simp: QueueAdmitted_def tx_simps store_simps dest!: goods)

lemma Heartbeat_keeps: "keeps (Heartbeat now l v)"
  by (rule keepsI) (auto simp: Heartbeat_def tx_simps store_simps dest!: goods)

lemma Checkpoint_keeps: "keeps (Checkpoint now l v)"
  by (rule keepsI) (auto simp: Checkpoint_def dest!: goods)

lemma PublishResult_keeps: "keeps (PublishResult now l v)"
  by (rule keepsI) (auto simp: PublishResult_def dest!: goods)

lemma TransitionLease_keeps: "keeps (TransitionLease now1 now2 l nxt)"
  by (rule keepsI) (auto simp: TransitionLease_def tx_simps store_simps dest!: goods)

lemma Release_keeps: "keeps (Release now l)"
  by (rule keepsI) (auto simp: Release_def tx_simps store_simps dest!: goods split: if_splits)

lemma Finalize_keeps: "keeps (Finalize now l oc)"
  by (rule keepsI)
    (auto simp: Finalize_def finish_attempt_def requireChanged_def tx_simps store_simps Let_def
      dest!: goods split: if_splits)

lemma SignalWaiting_keeps: "keeps (SignalWaiting now k s)"
  by (rule keepsI) (auto simp: SignalWaiting_def tx_simps store_simps dest!: goods)

lemma Cancel_keeps: "keeps (Cancel now k)"
  by (rule keepsI) (auto simp: Cancel_def tx_simps store_simps dest!: goods split: if_splits)

lemma WithLeaseEffect_keeps: "keeps (WithLeaseEffect now l v ok)"
  by (rule keepsI) (auto simp: WithLeaseEffect_def tx_simps store_simps dest!: goods)

lemma insertAttempt_good:
  "insertAttempt k n owner epoch now st = Inr (u, st') \<Longrightarrow> good st0 st \<Longrightarrow> good st0 st'"
  by (auto simp: insertAttempt_def tx_simps store_simps)

lemma claim_transitions_good:
  "claim_transitions k epoch now d st = Inr (d', st') \<Longrightarrow> good st0 st \<Longrightarrow> current d st \<Longrightarrow>
     good st0 st' \<and> current d' st' \<and> d_key d' = d_key d \<and> d_state d' = DeliveryRunning"
  by (auto simp: claim_transitions_def tx_simps dest!: goods split: if_splits)

lemma Claim_keeps: "keeps (Claim now owner duration)"
  by (rule keepsI)
    (auto simp: Claim_def claim_row_def tx_simps store_simps Let_def
      dest!: goods claim_transitions_good insertAttempt_good split: option.splits)

end
