(* ===== verification/Delivery_Operations.thy ===== *)
theory Delivery_Operations
  imports Delivery_Queue
begin

text \<open>
  The effect journal (\<^verbatim>\<open>internal/execution/delivery_operations.go\<close>): an operation is recorded as
  prepared before its effect, as running right before it, and as observed or reconciled after it.
  \<open>operation_row\<close> stands for the struct \<^verbatim>\<open>Operation\<close> (its instants kept as the texts they are
  stored as). \<open>json_valid\<close> is \<^verbatim>\<open>json.Valid\<close> and \<open>sha_hex\<close> the hex SHA-256 of a document.
\<close>

section \<open>Reading operations\<close>

definition stateInReplay :: "replay_class \<Rightarrow> bool" where
  "stateInReplay c = (c \<in> {ReplayRead, ReplayFingerprintedWrite, ReplayIdempotentExternal, ReplayUnknown})"

definition loadOperation :: "dkey \<Rightarrow> string \<Rightarrow> store \<Rightarrow> delivery_error + operation_row" where
  "loadOperation k oid st = (case row_find (\<lambda>o1. op_key o1 = k \<and> op_id o1 = oid) (t_operations st) of
       None \<Rightarrow> Inl ErrOperationNotFound | Some o1 \<Rightarrow> Inr o1)"

definition Operation :: "dkey \<Rightarrow> string \<Rightarrow> store \<Rightarrow> delivery_error + operation_row" where
  "Operation k oid st =
     (if \<not> validateDeliveryRef k \<or> oid = '''' then Inl ErrInvalidDelivery else loadOperation k oid st)"

primrec collect_operations :: "dkey \<Rightarrow> store \<Rightarrow> string list \<Rightarrow> delivery_error + operation_row list" where
  "collect_operations k st [] = Inr []"
| "collect_operations k st (oid # ids) = (case Operation k oid st of
       Inl e \<Rightarrow> Inl e
     | Inr o1 \<Rightarrow> (case collect_operations k st ids of Inl e \<Rightarrow> Inl e | Inr os \<Rightarrow> Inr (o1 # os)))"

definition Operations :: "dkey \<Rightarrow> store \<Rightarrow> delivery_error + operation_row list" where
  "Operations k st =
     (if \<not> validateDeliveryRef k then Inl ErrInvalidDelivery
      else (case store_Load k st of
              Inl e \<Rightarrow> Inl e
            | Inr d \<Rightarrow> collect_operations k st (map op_id
                (sort_key (\<lambda>o1. (op_prepared o1, op_id o1)) (filter (\<lambda>o1. op_key o1 = k) (t_operations st))))))"

text \<open>The goal revision in the store, read by every operation call under a lease.\<close>

definition goal_revision_of :: "dkey \<Rightarrow> store \<Rightarrow> delivery_error + int" where
  "goal_revision_of k st = (case row_find (\<lambda>r. dr_key r = k) (t_deliveries st) of
       None \<Rightarrow> Inl ErrNoRows | Some r \<Rightarrow> Inr (dr_goal_revision r))"

section \<open>Recording an event\<close>

fun op_event_text :: "delivery_event_type \<Rightarrow> string" where
  "op_event_text DeliveryEventOperationPrepared = ''operation_prepared''"
| "op_event_text DeliveryEventOperationRunning = ''operation_running''"
| "op_event_text DeliveryEventOperationObserved = ''operation_observed''"
| "op_event_text DeliveryEventOperationReconciled = ''operation_reconciled''"
| "op_event_text ty = ''''"

definition appendOperationEvent :: "dkey \<Rightarrow> operation_row \<Rightarrow> delivery_event_type \<Rightarrow> event_row tx" where
  "appendOperationEvent k o1 ty =
     (let key = ''operation:'' @ op_id o1 @ '':'' @ op_event_text ty @ '':'' @ int_text (op_attempt o1)
      in appendDeliveryEvent k ty
           (POperation (op_id o1) (op_effect o1) (op_status o1) (op_attempt o1) (op_epoch o1))
           \<lparr>ei_id = key, ei_idem = key, ei_at = parseTimestamp (op_updated o1)\<rparr> FPNone)"

section \<open>Preparing\<close>

definition valid_operation :: "operation_row \<Rightarrow> bool" where
  "valid_operation o1 = (\<not> (op_id o1 = '''' \<or> op_effect o1 = '''' \<or> op_kind o1 = '''' \<or> op_input o1 = '''' \<or>
     \<not> stateInReplay (op_class o1) \<or> 4096 < length (op_descriptor o1) \<or>
     (op_class o1 = ReplayIdempotentExternal \<and> (op_role o1 = '''' \<or> op_descriptor o1 = ''''))))"

definition operation_conflicts :: "operation_row \<Rightarrow> operation_row \<Rightarrow> int \<Rightarrow> bool" where
  "operation_conflicts ex o1 revision =
     (op_effect ex \<noteq> op_effect o1 \<or> op_kind ex \<noteq> op_kind o1 \<or> op_role ex \<noteq> op_role o1 \<or>
      op_node ex \<noteq> op_node o1 \<or> op_descriptor ex \<noteq> op_descriptor o1 \<or> op_class ex \<noteq> op_class o1 \<or>
      op_revision ex \<noteq> revision \<or> op_arguments ex \<noteq> op_arguments o1 \<or> op_path ex \<noteq> op_path o1 \<or>
      op_expected ex \<noteq> op_expected o1)"

text \<open>A write found done may be prepared again on the state it left, not on the one it started from.\<close>

definition input_conflicts :: "operation_row \<Rightarrow> operation_row \<Rightarrow> bool" where
  "input_conflicts ex o1 =
     (op_input ex \<noteq> op_input o1 \<and>
      \<not> (op_class ex = ReplayFingerprintedWrite \<and>
          (op_status ex = OperationObserved \<or> op_status ex = OperationReconciled) \<and>
          op_expected ex \<noteq> '''' \<and> op_output ex = op_expected ex \<and> op_input_state o1 = op_expected ex))"

definition prepared_row :: "lease \<Rightarrow> int \<Rightarrow> time \<Rightarrow> operation_row \<Rightarrow> operation_row" where
  "prepared_row l revision now o1 = o1\<lparr>op_key := d_key (le_delivery l), op_status := OperationPrepared,
     op_owner := le_owner l, op_epoch := le_epoch l, op_attempt := le_attempt l,
     op_revision := revision, op_prepared := timestamp now, op_updated := timestamp now\<rparr>"

text \<open>The columns an INSERT of a prepared operation leaves at their defaults.\<close>

definition insertOperation :: "operation_row \<Rightarrow> unit tx" where
  "insertOperation o1 = tx_modify (\<lambda>st. st\<lparr>t_operations := t_operations st @
     [o1\<lparr>op_output := '''', op_result := '''', op_error := ''''\<rparr>]\<rparr>)"

text \<open>
  The result is an operation and the error returned with it: a running operation is returned
  together with the demand to reconcile it.
\<close>

definition prepare_existing ::
  "operation_row \<Rightarrow> operation_row \<Rightarrow> int \<Rightarrow> (operation_row \<times> delivery_error option) tx" where
  "prepare_existing ex o1 revision =
     (if operation_conflicts ex o1 revision then tx_fail ErrOperationConflict
      else if input_conflicts ex o1 then tx_fail ErrOperationConflict
      else if op_status ex = OperationRunning then tx_return (ex, Some ErrEffectNeedsReconciliation)
      else tx_return (ex, None))"

definition prepare_new ::
  "lease \<Rightarrow> int \<Rightarrow> time \<Rightarrow> operation_row \<Rightarrow> (operation_row \<times> delivery_error option) tx" where
  "prepare_new l revision now o1 =
     (let o2 = prepared_row l revision now o1; k = d_key (le_delivery l)
      in tx_bind (tx_read (\<lambda>st. if row_find (\<lambda>x. op_key x = k \<and> op_effect x = op_effect o1) (t_operations st) = None
             then Inr () else Inl ErrOperationConflict))
         (\<lambda>_. tx_bind (insertOperation o2)
         (\<lambda>_. tx_bind (appendOperationEvent k o2 DeliveryEventOperationPrepared)
         (\<lambda>_. tx_return (o2, None)))))"

definition PrepareOperation ::
  "time \<Rightarrow> time \<Rightarrow> lease \<Rightarrow> operation_row \<Rightarrow> (operation_row \<times> delivery_error option) tx" where
  "PrepareOperation now1 now2 l o1 =
     (let k = d_key (le_delivery l)
      in tx_bind (tx_require (valid_operation o1) ErrInvalidDelivery)
         (\<lambda>_. tx_bind (verifyLease l now1)
         (\<lambda>_. tx_bind (tx_read (goal_revision_of k))
         (\<lambda>revision. tx_bind (tx_require (revision = d_goal_revision (le_delivery l)) ErrStaleDeliveryVersion)
         (\<lambda>_. tx_bind (tx_read (\<lambda>st. Inr (row_find (\<lambda>x. op_key x = k \<and> op_id x = op_id o1) (t_operations st))))
         (\<lambda>found. case found of
             Some ex \<Rightarrow> prepare_existing ex o1 revision
           | None \<Rightarrow> prepare_new l revision now2 o1))))))"

section \<open>Advancing\<close>

text \<open>What proves the outcome of an effect that may have happened under another lease.\<close>

definition reconcilable :: "(string \<Rightarrow> string) \<Rightarrow> operation_row \<Rightarrow> string \<Rightarrow> string \<Rightarrow> string \<Rightarrow> bool" where
  "reconcilable sha_hex o1 output result proof = (case op_class o1 of
       ReplayFingerprintedWrite \<Rightarrow>
         \<not> (op_path o1 = '''' \<or> op_expected o1 = '''' \<or> output \<noteq> op_expected o1 \<or>
            proof \<noteq> ''file-content:'' @ output \<or> result = '''')
     | ReplayIdempotentExternal \<Rightarrow>
         if op_role o1 = '''' \<or> op_descriptor o1 = '''' \<or> result = '''' then False
         else \<not> (output \<noteq> sha_hex result \<or> proof \<noteq> ''destination:'' @ output)
     | _ \<Rightarrow> False)"

definition advance_guard ::
  "(string \<Rightarrow> string) \<Rightarrow> lease \<Rightarrow> operation_status \<Rightarrow> operation_status \<Rightarrow> string \<Rightarrow> string \<Rightarrow> string \<Rightarrow> int \<Rightarrow>
   operation_row \<Rightarrow> delivery_error + unit" where
  "advance_guard sha_hex l from_status to_status output result err revision o1 =
     (if op_revision o1 \<noteq> d_goal_revision (le_delivery l) \<or> op_revision o1 \<noteq> revision
      then Inl ErrStaleDeliveryVersion
      else if op_status o1 \<noteq> from_status then
        (if op_status o1 = OperationRunning then Inl ErrEffectNeedsReconciliation
         else Inl ErrInvalidDeliveryTransition)
      else if from_status = OperationRunning \<and> to_status \<noteq> OperationReconciled \<and>
        (op_owner o1 \<noteq> le_owner l \<or> op_epoch o1 \<noteq> le_epoch l \<or> op_attempt o1 \<noteq> le_attempt l)
      then Inl ErrEffectNeedsReconciliation
      else if to_status = OperationReconciled \<and> \<not> reconcilable sha_hex o1 output result err
      then Inl ErrEffectNeedsReconciliation
      else Inr ())"

definition advanced_row ::
  "lease \<Rightarrow> time \<Rightarrow> operation_status \<Rightarrow> string \<Rightarrow> string \<Rightarrow> string \<Rightarrow> operation_row \<Rightarrow> operation_row" where
  "advanced_row l now to_status output result err o1 = o1\<lparr>op_status := to_status, op_owner := le_owner l,
     op_epoch := le_epoch l, op_attempt := le_attempt l, op_updated := timestamp now,
     op_output := output, op_result := result, op_error := err\<rparr>"

fun advance_event :: "operation_status \<Rightarrow> delivery_event_type" where
  "advance_event OperationObserved = DeliveryEventOperationObserved"
| "advance_event OperationReconciled = DeliveryEventOperationReconciled"
| "advance_event s = DeliveryEventOperationRunning"

definition advanceOperation ::
  "(string \<Rightarrow> string) \<Rightarrow> time \<Rightarrow> lease \<Rightarrow> string \<Rightarrow> operation_status \<Rightarrow> operation_status \<Rightarrow>
   string \<Rightarrow> string \<Rightarrow> string \<Rightarrow> operation_row tx" where
  "advanceOperation sha_hex now l oid from_status to_status output result err =
     (let k = d_key (le_delivery l)
      in tx_bind (tx_require (oid \<noteq> '''') ErrInvalidDelivery)
         (\<lambda>_. tx_bind (verifyLease l now)
         (\<lambda>_. tx_bind (tx_read (goal_revision_of k))
         (\<lambda>revision. tx_bind (tx_read (loadOperation k oid))
         (\<lambda>o1. tx_bind (tx_read (\<lambda>_. advance_guard sha_hex l from_status to_status output result err revision o1))
         (\<lambda>_. let o2 = advanced_row l now to_status output result err o1
           in tx_bind (tx_modify (\<lambda>st. st\<lparr>t_operations :=
                row_update (\<lambda>x. op_key x = k \<and> op_id x = op_id o1)
                  (advanced_row l now to_status output result err) (t_operations st)\<rparr>))
              (\<lambda>_. tx_bind (appendOperationEvent k o2 (advance_event to_status))
              (\<lambda>_. tx_return o2))))))))"

definition BeginOperation :: "(string \<Rightarrow> string) \<Rightarrow> time \<Rightarrow> lease \<Rightarrow> string \<Rightarrow> operation_row tx" where
  "BeginOperation sha_hex now l oid =
     advanceOperation sha_hex now l oid OperationPrepared OperationRunning '''' '''' ''''"

definition ObserveOperation ::
  "(string \<Rightarrow> bool) \<Rightarrow> (string \<Rightarrow> string) \<Rightarrow> time \<Rightarrow> lease \<Rightarrow> string \<Rightarrow> string \<Rightarrow> string \<Rightarrow> string \<Rightarrow> operation_row tx" where
  "ObserveOperation json_valid sha_hex now l oid result output err =
     (if result \<noteq> '''' \<and> \<not> json_valid result then tx_fail ErrInvalidDelivery
      else advanceOperation sha_hex now l oid OperationRunning OperationObserved output result err)"

definition ReconcileOperation ::
  "(string \<Rightarrow> bool) \<Rightarrow> (string \<Rightarrow> string) \<Rightarrow> time \<Rightarrow> lease \<Rightarrow> string \<Rightarrow> string \<Rightarrow> string \<Rightarrow> string \<Rightarrow> operation_row tx" where
  "ReconcileOperation json_valid sha_hex now l oid prf output result =
     (if prf = '''' \<or> (result \<noteq> '''' \<and> \<not> json_valid result) then tx_fail ErrInvalidDelivery
      else advanceOperation sha_hex now l oid OperationRunning OperationReconciled output result prf)"

end
