(* ===== verification/Delivery_Usage.thy ===== *)
theory Delivery_Usage
  imports Delivery_Queue
begin

text \<open>
  The spending authority of a delivery (\<^verbatim>\<open>internal/execution/delivery_usage.go\<close>): reservations made
  before a provider call, their reconciliation with what was incurred, and the cumulative sums,
  each guarded so that no 64-bit sum overflows. Microdollars and nanoseconds are integers, the
  guards written out; a row's status is one of the four its CHECK constraint admits.
\<close>

abbreviation max_int64 :: int where
  "max_int64 \<equiv> 9223372036854775807"

record reservation =
  ur_call :: string
  ur_node :: string
  ur_provider :: string
  ur_model :: string
  ur_estimate :: int
  ur_reserved :: int
  ur_known_price :: bool
  ur_status :: usage_status

record incurred =
  iu_input :: int
  iu_output :: int
  iu_cache_read :: int
  iu_cache_creation :: int
  iu_cost :: int
  iu_cost_known :: bool
  iu_active :: int
  iu_provider_ns :: int

record cumulative =
  cu_input :: int
  cu_output :: int
  cu_cache_read :: int
  cu_cache_creation :: int
  cu_spent :: int
  cu_reserved :: int
  cu_active :: int
  cu_provider_ns :: int
  cu_cost_known :: bool
  cu_unknown :: int
  cu_outstanding :: int
  cu_reconciled :: int

definition zero_cumulative :: cumulative where
  "zero_cumulative = \<lparr>cu_input = 0, cu_output = 0, cu_cache_read = 0, cu_cache_creation = 0,
     cu_spent = 0, cu_reserved = 0, cu_active = 0, cu_provider_ns = 0, cu_cost_known = True,
     cu_unknown = 0, cu_outstanding = 0, cu_reconciled = 0\<rparr>"

section \<open>Cumulative usage\<close>

text \<open>Adding to a sum: the loop over \<^verbatim>\<open>{value, sum}\<close> pairs.\<close>

definition add_item :: "int \<Rightarrow> int \<Rightarrow> delivery_error + int" where
  "add_item v s = (if v < 0 then Inl ErrInvalidDelivery
     else if max_int64 - s < v then Inl ErrUsageOverflow else Inr (s + v))"

definition add_duration :: "int \<Rightarrow> int \<Rightarrow> delivery_error + int" where
  "add_duration v s = (if v < 0 \<or> max_int64 - s < v then Inl ErrUsageOverflow else Inr (s + v))"

definition and_then :: "delivery_error + 'a \<Rightarrow> ('a \<Rightarrow> delivery_error + 'b) \<Rightarrow> delivery_error + 'b" where
  "and_then r f = (case r of Inl e \<Rightarrow> Inl e | Inr x \<Rightarrow> f x)"

lemma and_then_Inr: "and_then r f = Inr y \<longleftrightarrow> (\<exists>x. r = Inr x \<and> f x = Inr y)"
  by (auto simp: and_then_def split: sum.splits)

definition count_unknown :: "usage_row \<Rightarrow> cumulative \<Rightarrow> delivery_error + cumulative" where
  "count_unknown r c =
     (if u_status r \<noteq> UsageUnknown then Inr c
      else and_then (add_duration (u_active r) (cu_active c))
        (\<lambda>a. and_then (add_duration (u_provider_ns r) (cu_provider_ns c))
        (\<lambda>p. Inr (c\<lparr>cu_unknown := cu_unknown c + 1, cu_cost_known := False, cu_active := a,
               cu_provider_ns := p\<rparr>))))"

definition count_outstanding :: "usage_row \<Rightarrow> cumulative \<Rightarrow> delivery_error + cumulative" where
  "count_outstanding r c =
     (if u_status r \<noteq> UsageReserved \<and> u_status r \<noteq> UsageUnknown then Inr c
      else if max_int64 - cu_reserved c < u_reserved r then Inl ErrUsageOverflow
      else Inr (c\<lparr>cu_outstanding := cu_outstanding c + 1,
             cu_cost_known := (cu_cost_known c \<and> u_known_price r),
             cu_reserved := cu_reserved c + u_reserved r\<rparr>))"

definition count_reconciled :: "usage_row \<Rightarrow> cumulative \<Rightarrow> delivery_error + cumulative" where
  "count_reconciled r c =
     (if u_status r \<noteq> UsageReconciled then Inr c
      else if cu_reconciled c = max_int64 then Inl ErrUsageOverflow
      else and_then (add_item (u_input r) (cu_input c))
        (\<lambda>i. and_then (add_item (u_output r) (cu_output c))
        (\<lambda>out. and_then (add_item (u_cache_read r) (cu_cache_read c))
        (\<lambda>cr. and_then (add_item (u_cache_creation r) (cu_cache_creation c))
        (\<lambda>cc. and_then (add_item (u_cost r) (cu_spent c))
        (\<lambda>sp. and_then (add_item (u_active r) (cu_active c))
        (\<lambda>ac. and_then (add_item (u_provider_ns r) (cu_provider_ns c))
        (\<lambda>pr. Inr (c\<lparr>cu_reconciled := cu_reconciled c + 1, cu_input := i, cu_output := out,
               cu_cache_read := cr, cu_cache_creation := cc, cu_spent := sp, cu_active := ac,
               cu_provider_ns := pr, cu_cost_known := (cu_cost_known c \<and> u_cost_known r)\<rparr>)))))))))"

definition count_row :: "usage_row \<Rightarrow> cumulative \<Rightarrow> delivery_error + cumulative" where
  "count_row r c = and_then (count_unknown r c) (\<lambda>c1. and_then (count_outstanding r c1) (count_reconciled r))"

primrec count_rows :: "usage_row list \<Rightarrow> cumulative \<Rightarrow> delivery_error + cumulative" where
  "count_rows [] c = Inr c"
| "count_rows (r # rs) c = and_then (count_row r c) (count_rows rs)"

primrec count_attempts :: "attempt_row list \<Rightarrow> cumulative \<Rightarrow> delivery_error + cumulative" where
  "count_attempts [] c = Inr c"
| "count_attempts (a # rest) c =
     and_then (add_duration (at_active a) (cu_active c)) (\<lambda>s. count_attempts rest (c\<lparr>cu_active := s\<rparr>))"

abbreviation usage_rows :: "dkey \<Rightarrow> store \<Rightarrow> usage_row list" where
  "usage_rows k st \<equiv> filter (\<lambda>r. u_key r = k) (t_usage st)"

definition loadCumulativeUsage :: "dkey \<Rightarrow> store \<Rightarrow> delivery_error + cumulative" where
  "loadCumulativeUsage k st = and_then (count_rows (usage_rows k st) zero_cumulative)
     (count_attempts (filter (\<lambda>a. at_key a = k) (t_attempts st)))"

definition Usage :: "dkey \<Rightarrow> store \<Rightarrow> delivery_error + cumulative" where
  "Usage k st = (if \<not> validateDeliveryRef k then Inl ErrInvalidDelivery
     else and_then (store_Load k st) (\<lambda>_. loadCumulativeUsage k st))"

section \<open>Reserving\<close>

definition loadUsageReservation :: "dkey \<Rightarrow> string \<Rightarrow> store \<Rightarrow> usage_row option" where
  "loadUsageReservation k call st = row_find (\<lambda>r. u_key r = k \<and> u_call r = call) (t_usage st)"

definition reservation_of_row :: "usage_row \<Rightarrow> reservation" where
  "reservation_of_row r = \<lparr>ur_call = u_call r, ur_node = '''', ur_provider = u_provider r,
     ur_model = u_model r, ur_estimate = u_estimate r, ur_reserved = u_reserved r,
     ur_known_price = u_known_price r, ur_status = u_status r\<rparr>"

definition usage_row_of :: "dkey \<Rightarrow> reservation \<Rightarrow> usage_row" where
  "usage_row_of k q = \<lparr>u_key = k, u_call = ur_call q, u_node = ur_node q, u_status = UsageReserved,
     u_provider = ur_provider q, u_model = ur_model q, u_estimate = ur_estimate q,
     u_reserved = ur_reserved q, u_known_price = ur_known_price q, u_input = 0, u_output = 0,
     u_cache_read = 0, u_cache_creation = 0, u_cost = 0, u_cost_known = False, u_active = 0,
     u_provider_ns = 0\<rparr>"

definition valid_reservation :: "dkey \<Rightarrow> reservation \<Rightarrow> bool" where
  "valid_reservation k q = (\<not> (\<not> validateDeliveryRef k \<or> ur_call q = '''' \<or> ur_provider q = '''' \<or>
     ur_model q = '''' \<or> ur_estimate q < 0 \<or> ur_reserved q < 0 \<or>
     (\<not> ur_known_price q \<and> ur_reserved q \<noteq> 0)))"

definition reserve_again :: "reservation \<Rightarrow> usage_row \<Rightarrow> delivery_error + (reservation \<times> delivery_error option)" where
  "reserve_again q r =
     (if u_provider r \<noteq> ur_provider q \<or> u_model r \<noteq> ur_model q \<or> u_estimate r \<noteq> ur_estimate q \<or>
         u_reserved r \<noteq> ur_reserved q \<or> u_known_price r \<noteq> ur_known_price q
      then Inl ErrUsageConflict
      else if u_status r = UsageUnknown then Inr (reservation_of_row r, Some ErrUsageOutcomeUnknown)
      else Inr (reservation_of_row r, None))"

text \<open>The checks a new reservation passes, against the sums of every call of the delivery.\<close>

definition reserve_guard :: "int \<Rightarrow> cumulative \<Rightarrow> reservation \<Rightarrow> delivery_error + unit" where
  "reserve_guard max_cost usage q =
     (if max_int64 - cu_reserved usage < ur_reserved q then Inl ErrUsageOverflow
      else if 0 < max_cost then
        (if \<not> ur_known_price q \<or> (0 < ur_estimate q \<and> ur_reserved q = 0) then Inl ErrUnknownPricing
         else if \<not> cu_cost_known usage then Inl ErrUsageOutcomeUnknown
         else (let remaining = max_cost - cu_spent usage
               in if remaining < 0 \<or> remaining < ur_reserved q \<or> remaining - ur_reserved q < cu_reserved usage
                  then Inl ErrCostAuthority else Inr ()))
      else Inr ())"

definition reserveUsage ::
  "time \<Rightarrow> dkey \<Rightarrow> lease option \<Rightarrow> reservation \<Rightarrow> (reservation \<times> delivery_error option) tx" where
  "reserveUsage now k l q =
     tx_bind (tx_require (valid_reservation k q) ErrInvalidDelivery)
     (\<lambda>_. tx_bind (case l of None \<Rightarrow> tx_return () | Some x \<Rightarrow> verifyLease x now)
     (\<lambda>_. tx_bind (tx_read (loadDelivery k))
     (\<lambda>d. tx_bind (tx_read (\<lambda>st. Inr (loadUsageReservation k (ur_call q) st)))
     (\<lambda>found. case found of
         Some r \<Rightarrow> tx_read (\<lambda>_. reserve_again q r)
       | None \<Rightarrow> tx_bind (tx_read (loadCumulativeUsage k))
           (\<lambda>usage. tx_bind (tx_read (\<lambda>_. reserve_guard (d_max_cost d) usage q))
           (\<lambda>_. tx_bind (tx_modify (\<lambda>st. st\<lparr>t_usage := t_usage st @ [usage_row_of k q]\<rparr>))
           (\<lambda>_. tx_return (q\<lparr>ur_status := UsageReserved\<rparr>, None))))))))"

definition ReserveUsage :: "time \<Rightarrow> dkey \<Rightarrow> reservation \<Rightarrow> (reservation \<times> delivery_error option) tx" where
  "ReserveUsage now k q = reserveUsage now k None q"

definition ReserveUsageLease :: "time \<Rightarrow> lease \<Rightarrow> reservation \<Rightarrow> (reservation \<times> delivery_error option) tx" where
  "ReserveUsageLease now l q = reserveUsage now (d_key (le_delivery l)) (Some l) q"

section \<open>Reconciling\<close>

definition valid_incurred :: "dkey \<Rightarrow> string \<Rightarrow> incurred \<Rightarrow> bool" where
  "valid_incurred k call a = (\<not> (\<not> validateDeliveryRef k \<or> call = '''' \<or> iu_input a < 0 \<or> iu_output a < 0 \<or>
     iu_cache_read a < 0 \<or> iu_cache_creation a < 0 \<or> iu_cost a < 0 \<or> iu_active a < 0 \<or>
     iu_provider_ns a < 0 \<or> (\<not> iu_cost_known a \<and> iu_cost a \<noteq> 0)))"

definition incurred_of_row :: "usage_row \<Rightarrow> incurred" where
  "incurred_of_row r = \<lparr>iu_input = u_input r, iu_output = u_output r, iu_cache_read = u_cache_read r,
     iu_cache_creation = u_cache_creation r, iu_cost = u_cost r, iu_cost_known = u_cost_known r,
     iu_active = u_active r, iu_provider_ns = u_provider_ns r\<rparr>"

definition reconcile_row :: "incurred \<Rightarrow> usage_row \<Rightarrow> usage_row" where
  "reconcile_row a r = r\<lparr>u_status := UsageReconciled, u_input := iu_input a, u_output := iu_output a,
     u_cache_read := iu_cache_read a, u_cache_creation := iu_cache_creation a, u_cost := iu_cost a,
     u_cost_known := iu_cost_known a, u_active := iu_active a, u_provider_ns := iu_provider_ns a\<rparr>"

text \<open>What the delivery's cap says of the sums; \<open>None\<close> when nothing is exceeded.\<close>

definition cap_error :: "int \<Rightarrow> cumulative \<Rightarrow> delivery_error option" where
  "cap_error max_cost usage =
     (if 0 < max_cost \<and> \<not> cu_cost_known usage then Some ErrUnknownPricing
      else if 0 < max_cost \<and> max_cost < cu_spent usage then Some ErrCostAuthority
      else None)"

definition update_usage :: "dkey \<Rightarrow> string \<Rightarrow> (usage_row \<Rightarrow> usage_row) \<Rightarrow> store \<Rightarrow> store" where
  "update_usage k call f st = st\<lparr>t_usage := row_update (\<lambda>r. u_key r = k \<and> u_call r = call) f (t_usage st)\<rparr>"

text \<open>
  An overflowing aggregate does not undo the record of what was incurred: the new store is
  committed and the error returned, which is why the result is a pair.
\<close>

definition reconcile_new ::
  "dkey \<Rightarrow> string \<Rightarrow> incurred \<Rightarrow> int \<Rightarrow> store \<Rightarrow> (delivery_error + cumulative \<times> delivery_error option) \<times> store" where
  "reconcile_new k call a max_cost st =
     (let st' = update_usage k call (reconcile_row a) st
      in case loadCumulativeUsage k st' of
           Inl e \<Rightarrow> if e = ErrUsageOverflow then (Inl e, st') else (Inl e, st)
         | Inr usage \<Rightarrow> (Inr (usage, cap_error max_cost usage), st'))"

definition reconcile_again ::
  "dkey \<Rightarrow> incurred \<Rightarrow> int \<Rightarrow> usage_row \<Rightarrow> store \<Rightarrow> delivery_error + cumulative \<times> delivery_error option" where
  "reconcile_again k a max_cost r st =
     (if incurred_of_row r \<noteq> a then Inl ErrUsageConflict
      else and_then (loadCumulativeUsage k st) (\<lambda>usage. Inr (usage, cap_error max_cost usage)))"

definition ReconcileUsage ::
  "dkey \<Rightarrow> string \<Rightarrow> incurred \<Rightarrow> store \<Rightarrow> (delivery_error + cumulative \<times> delivery_error option) \<times> store" where
  "ReconcileUsage k call a st =
     (if \<not> valid_incurred k call a then (Inl ErrInvalidDelivery, st)
      else (case loadDelivery k st of
              Inl e \<Rightarrow> (Inl e, st)
            | Inr d \<Rightarrow> (case loadUsageReservation k call st of
                None \<Rightarrow> (Inl ErrNoRows, st)
              | Some r \<Rightarrow>
                  if u_status r = UsageCancelled then (Inl ErrUsageConflict, st)
                  else if u_status r = UsageReconciled
                  then (reconcile_again k a (d_max_cost d) r st, st)
                  else reconcile_new k call a (d_max_cost d) st)))"

section \<open>Unknown outcomes and unused reservations\<close>

definition update_usage_one :: "(usage_row \<Rightarrow> bool) \<Rightarrow> (usage_row \<Rightarrow> usage_row) \<Rightarrow> unit tx" where
  "update_usage_one p f = tx_bind (tx_read (\<lambda>st. Inr (row_count p (t_usage st))))
     (\<lambda>n. tx_bind (tx_modify (\<lambda>st. st\<lparr>t_usage := row_update p f (t_usage st)\<rparr>))
     (\<lambda>_. tx_require (n = 1) ErrUsageConflict))"

definition unknown_row :: "int \<Rightarrow> int \<Rightarrow> usage_row \<Rightarrow> usage_row" where
  "unknown_row active provider r = r\<lparr>u_status := UsageUnknown,
     u_active := (if u_status r = UsageReserved then active else u_active r),
     u_provider_ns := (if u_status r = UsageReserved then provider else u_provider_ns r)\<rparr>"

definition markUsageUnknownWithDurations :: "dkey \<Rightarrow> string \<Rightarrow> int \<Rightarrow> int \<Rightarrow> unit tx" where
  "markUsageUnknownWithDurations k call active provider =
     tx_bind (tx_require (\<not> (\<not> validateDeliveryRef k \<or> call = '''' \<or> active < 0 \<or> provider < 0)) ErrInvalidDelivery)
     (\<lambda>_. update_usage_one
        (\<lambda>r. u_key r = k \<and> u_call r = call \<and> (u_status r = UsageReserved \<or> u_status r = UsageUnknown))
        (unknown_row active provider))"

definition MarkUsageUnknown :: "dkey \<Rightarrow> string \<Rightarrow> unit tx" where
  "MarkUsageUnknown k call = markUsageUnknownWithDurations k call 0 0"

definition MarkUsageUnknownWithDuration :: "dkey \<Rightarrow> string \<Rightarrow> int \<Rightarrow> unit tx" where
  "MarkUsageUnknownWithDuration k call active = markUsageUnknownWithDurations k call active 0"

definition MarkProviderUsageUnknownWithDuration :: "dkey \<Rightarrow> string \<Rightarrow> int \<Rightarrow> unit tx" where
  "MarkProviderUsageUnknownWithDuration k call provider = markUsageUnknownWithDurations k call 0 provider"

definition CancelUnusedReservation :: "dkey \<Rightarrow> string \<Rightarrow> unit tx" where
  "CancelUnusedReservation k call =
     tx_bind (tx_require (\<not> (\<not> validateDeliveryRef k \<or> call = '''')) ErrInvalidDelivery)
     (\<lambda>_. update_usage_one (\<lambda>r. u_key r = k \<and> u_call r = call \<and> u_status r = UsageReserved)
        (\<lambda>r. r\<lparr>u_status := UsageCancelled\<rparr>))"

section \<open>Usage of each node\<close>

record node_calls =
  nc_reconciled :: nat
  nc_outstanding :: nat
  nc_unknown :: nat

definition node_count :: "dkey \<Rightarrow> string \<Rightarrow> usage_status \<Rightarrow> store \<Rightarrow> nat" where
  "node_count k node s st = row_count (\<lambda>r. u_key r = k \<and> u_node r = node \<and> u_status r = s) (t_usage st)"

definition UsageByNode :: "dkey \<Rightarrow> store \<Rightarrow> delivery_error + (string \<rightharpoonup> node_calls)" where
  "UsageByNode k st =
     (if \<not> validateDeliveryRef k then Inl ErrInvalidDelivery
      else and_then (store_Load k st) (\<lambda>_. Inr (\<lambda>node.
        if list_ex (\<lambda>r. u_node r = node) (usage_rows k st)
        then Some \<lparr>nc_reconciled = node_count k node UsageReconciled st,
               nc_outstanding = node_count k node UsageReserved st,
               nc_unknown = node_count k node UsageUnknown st\<rparr>
        else None)))"

end
