(* ===== verification/Delivery_Machine.thy ===== *)
theory Delivery_Machine
  imports Delivery_Mutations Delivery_Queue_Laws Delivery_Operations Delivery_Usage
begin

text \<open>
  The store as a machine: one step for each call of the repository, the queue, the journal and the
  spending authority, in any order. Every step keeps the store consistent and its logs growing, so
  the facts about replay, retries, terminal states and versions hold after any sequence of calls.
\<close>

section \<open>The journal and the spending authority\<close>

lemma goal_revision_rows:
  "goal_revision_of k st = Inr n \<Longrightarrow> v_rows (view k st) \<noteq> []"
  by (auto simp: goal_revision_of_def view_def filter_empty_conv split: option.splits dest: row_find_SomeD)

lemma operation_event_good:
  assumes "appendOperationEvent k o1 ty st = Inr (row, st')" and "good st0 st" and "v_rows (view k st) \<noteq> []"
    and "\<not> aggregate_event ty"
  shows "good st0 st'"
  using append_other_good [OF assms(2,3,4)] assms(1) by (auto simp: appendOperationEvent_def Let_def)

lemma advance_event_other: "\<not> aggregate_event (advance_event s)"
  by (cases s) (simp_all add: aggregate_event_def)

lemma PrepareOperation_keeps: "keeps (PrepareOperation now1 now2 l o1)"
proof (rule keepsI)
  fix st0 st x st'
  assume good: "good st0 st" and run: "PrepareOperation now1 now2 l o1 st = Inr (x, st')"
  let ?k = "d_key (le_delivery l)"
  from run obtain n where rows: "v_rows (view ?k st) \<noteq> []" and
    step: "(case row_find (\<lambda>x. op_key x = ?k \<and> op_id x = op_id o1) (t_operations st) of
        Some ex \<Rightarrow> prepare_existing ex o1 n | None \<Rightarrow> prepare_new l n now2 o1) st = Inr (x, st')"
    by (auto simp: PrepareOperation_def Let_def tx_simps dest: goal_revision_rows)
  show "good st0 st'"
  proof (cases "row_find (\<lambda>x. op_key x = ?k \<and> op_id x = op_id o1) (t_operations st)")
    case (Some ex)
    with step good show ?thesis by (auto simp: prepare_existing_def tx_simps split: if_splits)
  next
    case None
    with step rows good show ?thesis
      by (auto simp: prepare_new_def insertOperation_def tx_simps Let_def store_simps aggregate_event_def
          elim!: operation_event_good)
  qed
qed

lemma advanceOperation_keeps: "keeps (advanceOperation sh now l oid s1 s2 out res err)"
  by (rule keepsI)
    (auto simp: advanceOperation_def Let_def tx_simps store_simps advance_event_other
      dest!: goal_revision_rows elim!: operation_event_good)

lemma fail_keeps: "keeps (tx_fail e)"
  by (rule keepsI) (simp add: tx_simps)

lemma reserveUsage_keeps: "keeps (reserveUsage now k l q)"
  by (rule keepsI)
    (auto simp: reserveUsage_def tx_simps store_simps split: option.splits)

lemma update_usage_one_keeps: "keeps (update_usage_one p f)"
  by (rule keepsI) (auto simp: update_usage_one_def tx_simps store_simps)

lemma ReconcileUsage_good: "good st0 st \<Longrightarrow> good st0 (snd (ReconcileUsage k call a st))"
  by (simp add: ReconcileUsage_def reconcile_new_def update_usage_def Let_def store_simps
      split: sum.split option.split)

section \<open>The transactions of the store\<close>

text \<open>The transaction inside \<^verbatim>\<open>AppendEvent\<close>, for the event types it admits.\<close>

definition append_tx :: "dkey \<Rightarrow> delivery_event_type \<Rightarrow> payload \<Rightarrow> event_identity \<Rightarrow> delivery_event tx" where
  "append_tx k ty p i = tx_bind (tx_require (\<not> aggregate_event ty) ErrInvalidDelivery)
     (\<lambda>_. tx_bind (tx_read (loadDelivery k))
     (\<lambda>_. tx_bind (appendDeliveryEvent k ty p i FPNone)
     (\<lambda>row. tx_return (event_of_row row))))"

lemma append_tx_keeps: "keeps (append_tx k ty p i)"
proof (rule keepsI)
  fix st0 st x st'
  assume good: "good st0 st" and run: "append_tx k ty p i st = Inr (x, st')"
  then obtain d row where load: "loadDelivery k st = Inr d" and ty: "\<not> aggregate_event ty"
    and app: "appendDeliveryEvent k ty p i FPNone st = Inr (row, st')"
    by (auto simp: append_tx_def tx_simps)
  have "v_rows (view k st) \<noteq> []"
    using load by (auto simp: loadDelivery_view split: list.splits)
  then show "good st0 st'" using append_other_good [OF good _ ty app] by blast
qed

interpretation append_event: transactional store_ok grows "append_tx k ty p i" for k ty p i
  by (rule keeps_transactional [OF append_tx_keeps])

interpretation queue_admitted: transactional store_ok grows "QueueAdmitted now k v" for now k v
  by (rule keeps_transactional [OF QueueAdmitted_keeps])

interpretation claim: transactional store_ok grows "Claim now owner duration" for now owner duration
  by (rule keeps_transactional [OF Claim_keeps])

interpretation heartbeat: transactional store_ok grows "Heartbeat now l duration" for now l duration
  by (rule keeps_transactional [OF Heartbeat_keeps])

interpretation checkpoint: transactional store_ok grows "Checkpoint now l x" for now l x
  by (rule keeps_transactional [OF Checkpoint_keeps])

interpretation publish: transactional store_ok grows "PublishResult now l x" for now l x
  by (rule keeps_transactional [OF PublishResult_keeps])

interpretation lease_transition: transactional store_ok grows "TransitionLease now1 now2 l nxt" for now1 now2 l nxt
  by (rule keeps_transactional [OF TransitionLease_keeps])

interpretation release: transactional store_ok grows "Release now l" for now l
  by (rule keeps_transactional [OF Release_keeps])

interpretation finalize: transactional store_ok grows "Finalize now l oc" for now l oc
  by (rule keeps_transactional [OF Finalize_keeps])

interpretation signal: transactional store_ok grows "SignalWaiting now k s" for now k s
  by (rule keeps_transactional [OF SignalWaiting_keeps])

interpretation cancel: transactional store_ok grows "Cancel now k" for now k
  by (rule keeps_transactional [OF Cancel_keeps])

interpretation effect: transactional store_ok grows "WithLeaseEffect now l duration ok" for now l duration ok
  by (rule keeps_transactional [OF WithLeaseEffect_keeps])

interpretation prepare: transactional store_ok grows "PrepareOperation now1 now2 l o1" for now1 now2 l o1
  by (rule keeps_transactional [OF PrepareOperation_keeps])

interpretation begin_operation: transactional store_ok grows "BeginOperation sh now l oid" for sh now l oid
  by (rule keeps_transactional) (simp add: BeginOperation_def advanceOperation_keeps)

interpretation observe: transactional store_ok grows "ObserveOperation jv sh now l oid res out err"
  for jv sh now l oid res out err
  by (rule keeps_transactional) (simp add: ObserveOperation_def advanceOperation_keeps fail_keeps)

interpretation reconcile_operation: transactional store_ok grows "ReconcileOperation jv sh now l oid evid out res"
  for jv sh now l oid evid out res
  by (rule keeps_transactional) (simp add: ReconcileOperation_def advanceOperation_keeps fail_keeps)

interpretation reserve: transactional store_ok grows "reserveUsage now k l q" for now k l q
  by (rule keeps_transactional [OF reserveUsage_keeps])

interpretation usage_update: transactional store_ok grows "update_usage_one p f" for p f
  by (rule keeps_transactional [OF update_usage_one_keeps])

section \<open>The machine\<close>

text \<open>A change of an aggregate, and the call that makes it.\<close>

datatype change =
  ChangeState delivery_state | ChangeGoal goal "requirement list"
| ChangeRequirement string requirement_status "waiver option"
| AskDecision decision | Decide string resolution

fun make_change ::
  "observations \<Rightarrow> time \<Rightarrow> dkey \<Rightarrow> int \<Rightarrow> event_identity \<Rightarrow> change \<Rightarrow> store \<Rightarrow> (delivery_error + delivery) \<times> store" where
  "make_change obs now k v i (ChangeState nxt) st = store_Transition obs now k v nxt i st"
| "make_change obs now k v i (ChangeGoal g rs) st = ReviseGoal obs now k v g rs i st"
| "make_change obs now k v i (ChangeRequirement rid status w) st = UpdateRequirement obs now k v rid status w i st"
| "make_change obs now k v i (AskDecision dec) st = RequestDecision obs now k v dec i st"
| "make_change obs now k v i (Decide did res) st = ResolveDecision obs now k v did res i st"

text \<open>What the calls are given besides their arguments: \<^verbatim>\<open>json.Valid\<close> and the hex SHA-256.\<close>

type_synonym environment = "(string \<Rightarrow> bool) \<times> (string \<Rightarrow> string)"

datatype store_op =
  DoAdmit admission bool time
| DoChange observations time dkey int event_identity change
| DoAppend time dkey delivery_event_type string event_identity
| DoQueueAdmitted time dkey int
| DoClaim time string time
| DoHeartbeat time lease time
| DoCheckpoint time lease string
| DoPublish time lease string
| DoTransitionLease time time lease delivery_state
| DoRelease time lease
| DoFinalize time lease outcome
| DoSignal time dkey string
| DoCancel time dkey
| DoEffect time lease time bool
| DoPrepare time time lease operation_row
| DoBegin time lease string
| DoObserve time lease string string string string
| DoReconcileOperation time lease string string string string
| DoReserve time dkey "lease option" reservation
| DoReconcile dkey string incurred
| DoMarkUnknown dkey string int int
| DoCancelReservation dkey string

fun store_step :: "environment \<Rightarrow> store_op \<Rightarrow> store \<Rightarrow> store" where
  "store_step sh (DoAdmit a runnable now) st = snd (admit a runnable now st)"
| "store_step sh (DoChange obs now k v i ch) st = snd (make_change obs now k v i ch st)"
| "store_step sh (DoAppend now k ty raw i) st = snd (AppendEvent now k ty raw i st)"
| "store_step sh (DoQueueAdmitted now k v) st = snd (run_tx (QueueAdmitted now k v) st)"
| "store_step sh (DoClaim now owner duration) st = snd (run_tx (Claim now owner duration) st)"
| "store_step sh (DoHeartbeat now l duration) st = snd (run_tx (Heartbeat now l duration) st)"
| "store_step sh (DoCheckpoint now l x) st = snd (run_tx (Checkpoint now l x) st)"
| "store_step sh (DoPublish now l x) st = snd (run_tx (PublishResult now l x) st)"
| "store_step sh (DoTransitionLease now1 now2 l nxt) st = snd (run_tx (TransitionLease now1 now2 l nxt) st)"
| "store_step sh (DoRelease now l) st = snd (run_tx (Release now l) st)"
| "store_step sh (DoFinalize now l oc) st = snd (run_tx (Finalize now l oc) st)"
| "store_step sh (DoSignal now k s) st = snd (run_tx (SignalWaiting now k s) st)"
| "store_step sh (DoCancel now k) st = snd (run_tx (Cancel now k) st)"
| "store_step sh (DoEffect now l duration ok) st = snd (run_tx (WithLeaseEffect now l duration ok) st)"
| "store_step sh (DoPrepare now1 now2 l o1) st = snd (run_tx (PrepareOperation now1 now2 l o1) st)"
| "store_step sh (DoBegin now l oid) st = snd (run_tx (BeginOperation (snd sh) now l oid) st)"
| "store_step sh (DoObserve now l oid res out err) st = snd (run_tx (ObserveOperation (fst sh) (snd sh) now l oid res out err) st)"
| "store_step sh (DoReconcileOperation now l oid evid out res) st =
     snd (run_tx (ReconcileOperation (fst sh) (snd sh) now l oid evid out res) st)"
| "store_step sh (DoReserve now k l q) st = snd (run_tx (reserveUsage now k l q) st)"
| "store_step sh (DoReconcile k call a) st = snd (ReconcileUsage k call a st)"
| "store_step sh (DoMarkUnknown k call active provider) st = snd (run_tx (markUsageUnknownWithDurations k call active provider) st)"
| "store_step sh (DoCancelReservation k call) st = snd (run_tx (CancelUnusedReservation k call) st)"

lemmas mutate_goods = transition.mutate_good goal.mutate_good requirement.mutate_good
  request.mutate_good resolve.mutate_good

lemma change_good: "good st0 st \<Longrightarrow> good st0 (snd (make_change obs now k v i ch st))"
  by (cases ch) (simp_all add: store_Transition_def ReviseGoal_def UpdateRequirement_def
      RequestDecision_def ResolveDecision_def Let_def mutate_goods)

lemma run_tx_require_bind:
  "snd (run_tx (tx_bind (tx_require b e) (\<lambda>_. f)) st) = (if b then snd (run_tx f st) else st)"
  by (simp add: run_tx_def tx_bind_def tx_require_def)


lemmas run_invs = append_event.run_inv queue_admitted.run_inv claim.run_inv heartbeat.run_inv checkpoint.run_inv publish.run_inv
  lease_transition.run_inv release.run_inv finalize.run_inv signal.run_inv cancel.run_inv effect.run_inv
  prepare.run_inv begin_operation.run_inv observe.run_inv reconcile_operation.run_inv reserve.run_inv usage_update.run_inv

lemmas run_les = append_event.run_le queue_admitted.run_le claim.run_le heartbeat.run_le checkpoint.run_le publish.run_le
  lease_transition.run_le release.run_le finalize.run_le signal.run_le cancel.run_le effect.run_le
  prepare.run_le begin_operation.run_le observe.run_le reconcile_operation.run_le reserve.run_le usage_update.run_le

lemma step_good:
  assumes "store_ok st"
  shows "store_ok (store_step sh op1 st) \<and> grows st (store_step sh op1 st)"
proof (cases op1)
  case (DoAdmit a runnable now)
  with admit_good [OF good_refl [OF assms]] show ?thesis by (simp add: good_def)
next
  case (DoChange obs now k v i ch)
  with change_good [OF good_refl [OF assms]] show ?thesis by (simp add: good_def)
next
  case (DoAppend now k ty raw i)
  have "snd (AppendEvent now k ty raw i st) = st \<or>
      (\<exists>i'. snd (AppendEvent now k ty raw i st) = snd (run_tx (append_tx k ty (PRaw raw) i') st))"
    by (auto simp: AppendEvent_def append_tx_def run_tx_require_bind)
  with DoAppend assms show ?thesis by (auto simp: run_invs run_les)
next
  case (DoReconcile k call a)
  with ReconcileUsage_good [OF good_refl [OF assms]] show ?thesis by (simp add: good_def)
qed (simp_all add: assms run_invs run_les markUsageUnknownWithDurations_def
    CancelUnusedReservation_def run_tx_require_bind)

interpretation store: monotone_machine "store_step sh" store_ok grows for sh :: environment
  by unfold_locales (use step_good grows_trans in auto)

lemma empty_ok: "store_ok empty_store"
  by (simp add: store_ok_def consistent_def no_rows_def view_def log_rows_def empty_store_def)

lemma run_ok: "store_ok (fold (store_step sh) ops empty_store)"
  by (rule store.run_inv [OF empty_ok])

lemma run_grows: "store_ok st \<Longrightarrow> good st (fold (store_step sh) ops st)"
  by (simp add: good_def store.run_inv store.run_le)

end
