(* ===== verification/Delivery_Properties.thy ===== *)
theory Delivery_Properties
  imports Delivery_Machine
begin

text \<open>
  The properties of the delivery store after any sequence of calls: the event log and the tables
  hold the same aggregate, logs are numbered and only grow, terminal states are final, a repeated
  change returns what the first attempt returned, and of the changes expecting one version only one
  takes effect.
\<close>

abbreviation after :: "environment \<Rightarrow> store_op list \<Rightarrow> store" where
  "after sh ops \<equiv> fold (store_step sh) ops empty_store"

section \<open>A sample run\<close>

text \<open>A delivery admitted to the queue, on which the properties with hypotheses are applied.\<close>

definition sample_env :: environment where
  "sample_env = (\<lambda>_. True, \<lambda>s. s)"

definition sample_key :: dkey where
  "sample_key = (''t'', ''r'', ''d'')"

definition sample_identity :: "string \<Rightarrow> event_identity" where
  "sample_identity s = \<lparr>ei_id = s, ei_idem = s, ei_at = 1000000000\<rparr>"

definition sample_admission :: admission where
  "sample_admission = \<lparr>a_key = sample_key, a_admission_key = ''a'',
     a_goal = \<lparr>g_revision = 0, g_statement = ''s'', g_actor = ''u'', g_created = 1000000000\<rparr>,
     a_requirements = [], a_policy = ''p'', a_max_cost = 0, a_event = sample_identity ''e''\<rparr>"

definition sample_ops :: "store_op list" where
  "sample_ops = [DoAdmit sample_admission True 1000000000]"

lemma sample_load: "\<not> isl (store_Load sample_key (after sample_env sample_ops))"
  by code_simp

lemma sample_events: "\<not> isl (store_Events sample_key (after sample_env sample_ops))"
  by code_simp

lemma sample_change:
  "\<not> isl (fst (make_change [] 0 sample_key 2 (sample_identity ''x'') (ChangeState DeliveryFailed) (after sample_env sample_ops)))"
  by code_simp

section \<open>The log and the tables\<close>

lemma load_events:
  assumes "store_ok st" and "store_Load k st = Inr d"
  shows "store_Events k st = Inr (map event_of_row (v_log (view k st)))"
proof -
  have "validateDeliveryRef k" using assms(2) by (auto simp: store_Load_def split: if_splits)
  with assms show ?thesis
    using seqs_sorted [OF log_seqs [OF assms(1)], of k]
    by (simp add: store_Events_def store_Load_def) (simp add: view_def)
qed

lemma load_replay:
  assumes "store_ok st" and "store_Load k st = Inr d"
  obtains d0 where "log_ok (v_log (view k st)) d0" and "tables_ok k (view k st) d0" and "same_aggregate d0 d"
    and "ReplayDelivery (map event_of_row (v_log (view k st))) = Inr d0"
proof -
  have ref: "validateDeliveryRef k" and load: "loadDelivery k st = Inr d"
    using assms(2) by (auto simp: store_Load_def split: if_splits)
  from store_ok_load [OF assms(1) load] obtain d0 where
    d0: "log_ok (v_log (view k st)) d0" "tables_ok k (view k st) d0" "same_aggregate d0 d" by blast
  then have "d_key d0 = k" by (auto simp: tables_ok_def scalars_ok_def)
  with ref have "snd (snd (d_key d0)) \<noteq> ''''" by (simp add: validateDeliveryRef_def)
  from d0 log_ok_replay [OF d0(1) this] that show ?thesis by blast
qed

text \<open>
  C1. Whatever calls were made, replaying the event log of a delivery gives the aggregate that the
  tables hold, up to the order in which requirements and decisions are listed; a delivery that is
  not found has no event.
\<close>

theorem replay_refines_load:
  "case store_Load k (after sh ops) of
     Inl e \<Rightarrow> e = ErrInvalidDelivery \<or> e = ErrDeliveryNotFound \<and> log_rows k (after sh ops) = []
   | Inr d \<Rightarrow> \<exists>es d'. store_Events k (after sh ops) = Inr es \<and> ReplayDelivery es = Inr d' \<and> same_aggregate d' d"
proof (cases "store_Load k (after sh ops)")
  case (Inl e)
  show ?thesis
  proof (cases "validateDeliveryRef k")
    case True
    with Inl have "loadDelivery k (after sh ops) = Inl e" by (simp add: store_Load_def)
    from store_ok_load_error [OF run_ok this] Inl show ?thesis by (simp add: no_rows_def view_def)
  next
    case False
    with Inl show ?thesis by (simp add: store_Load_def)
  qed
next
  case (Inr d)
  from load_replay [OF run_ok Inr] load_events [OF run_ok Inr] Inr show ?thesis by auto
qed

text \<open>
  C16. Logs are numbered from one without gaps and only grow: the events returned after some calls
  are the first events returned after any further calls.
\<close>

theorem events_append_only:
  assumes "store_Events k (after sh ops) = Inr es"
  shows "map de_seq es = map (\<lambda>i. int i + 1) [0..<length es] \<and>
    (\<exists>es'. store_Events k (fold (store_step sh) ops' (after sh ops)) = Inr (es @ es'))"
proof -
  let ?s = "after sh ops" and ?t = "fold (store_step sh) ops' (after sh ops)"
  have ref: "validateDeliveryRef k" and "\<exists>d. store_Load k ?s = Inr d"
    using assms by (auto simp: store_Events_def split: if_splits sum.splits)
  then obtain d where load: "store_Load k ?s = Inr d" by blast
  have es: "es = map event_of_row (v_log (view k ?s))"
    using load_events [OF run_ok load] assms by simp
  have good: "good ?s ?t" by (rule run_grows [OF run_ok])
  then have ok: "store_ok ?t" and pre: "prefix (v_log (view k ?s)) (v_log (view k ?t))"
    unfolding good_def grows_def by blast+
  from load_replay [OF run_ok load] obtain d0 where "log_ok (v_log (view k ?s)) d0" by blast
  then have "v_log (view k ?t) \<noteq> []" using pre by (auto simp: log_ok_def)
  with consistent_cases [OF ok, of k] obtain r where "v_rows (view k ?t) = [r]" by (auto simp: no_rows_def)
  with ref have "store_Load k ?t = Inr (delivery_of_row ?t r)"
    by (simp add: store_Load_def loadDelivery_view)
  from load_events [OF ok this] have "store_Events k ?t = Inr (map event_of_row (v_log (view k ?t)))" .
  moreover from pre obtain zs where "v_log (view k ?t) = v_log (view k ?s) @ zs" by (auto simp: prefix_def)
  moreover have "map de_seq es = map er_seq (v_log (view k ?s))"
    by (simp add: es event_of_row_def)
  ultimately show ?thesis
    using log_seqs [OF run_ok, of k sh ops] by (simp add: es)
qed

theorem events_append_only_witness:
  "\<exists>es es'. store_Events sample_key (after sample_env sample_ops) = Inr es \<and>
     store_Events sample_key (fold (store_step sample_env) [DoCancel 2000000000 sample_key] (after sample_env sample_ops)) = Inr (es @ es')"
proof -
  from not_isl_Inr [OF sample_events] obtain es where es: "store_Events sample_key (after sample_env sample_ops) = Inr es" by blast
  from events_append_only [OF es, of "[DoCancel 2000000000 sample_key]"] es show ?thesis by blast
qed

section \<open>Final states and fixed attributes\<close>

lemma replay_terminal:
  assumes "replay_from i d es = Inr d'" and "0 < i" and "isTerminalDeliveryState (d_state d)"
  shows "d_state d' = d_state d"
  using assms
proof (induction es arbitrary: i d)
  case (Cons e es)
  then obtain d1 where d1: "replay_step i d e = Inr d1" "replay_from (Suc i) d1 es = Inr d'"
    by (auto split: sum.splits)
  have "d_state d1 = d_state d"
    using replay_step_state [OF d1(1) Cons.prems(2)] Cons.prems(3) valid_transition_neq by blast
  with Cons.IH [OF d1(2)] Cons.prems(3) show ?case by simp
qed simp

lemma later_load:
  assumes "store_ok st" and "good st st'" and "store_Load k st = Inr d"
  obtains d0 d0' d' es i where "store_Load k st' = Inr d'" and "same_aggregate d0 d" and "same_aggregate d0' d'"
    and "replay_from i d0 es = Inr d0'" and "0 < i"
proof -
  have ok: "store_ok st'" and pre: "prefix (v_log (view k st)) (v_log (view k st'))"
    using assms(2) unfolding good_def grows_def by blast+
  from load_replay [OF assms(1,3)] obtain d0 where
    d0: "log_ok (v_log (view k st)) d0" "same_aggregate d0 d" by blast
  from pre d0(1) have "v_log (view k st') \<noteq> []" by (auto simp: log_ok_def)
  with consistent_cases [OF ok, of k] obtain r where "v_rows (view k st') = [r]" by (auto simp: no_rows_def)
  moreover have "validateDeliveryRef k" using assms(3) by (auto simp: store_Load_def split: if_splits)
  ultimately have load': "store_Load k st' = Inr (delivery_of_row st' r)" (is "_ = Inr ?d'")
    by (simp add: store_Load_def loadDelivery_view)
  from load_replay [OF ok load'] obtain d0' where
    d0': "log_ok (v_log (view k st')) d0'" "same_aggregate d0' ?d'" by blast
  from pre obtain zs where zs: "v_log (view k st') = v_log (view k st) @ zs" by (auto simp: prefix_def)
  have "replay_from (length (v_log (view k st))) d0 (map event_of_row zs) = Inr d0'"
    using d0(1) d0'(1) by (simp add: log_ok_def aggregate_of_def zs replay_from_append)
  moreover have "0 < length (v_log (view k st))" using d0(1) by (simp add: log_ok_def)
  ultimately show ?thesis using that load' d0(2) d0'(2) by blast
qed

text \<open>
  C11. A delivery that exists keeps existing, with its owner, admission key, policy, cost authority
  and time of creation; its version and goal revision never decrease; and a succeeded, failed or
  cancelled delivery stays in that state whatever calls follow.
\<close>

theorem delivery_history:
  assumes "store_Load k (after sh ops) = Inr d"
  shows "\<exists>d'. store_Load k (fold (store_step sh) ops' (after sh ops)) = Inr d' \<and>
    d_key d' = d_key d \<and> d_admission_key d' = d_admission_key d \<and> d_policy d' = d_policy d \<and>
    d_max_cost d' = d_max_cost d \<and> d_created d' = d_created d \<and>
    d_version d \<le> d_version d' \<and> d_goal_revision d \<le> d_goal_revision d' \<and>
    (isTerminalDeliveryState (d_state d) \<longrightarrow> d_state d' = d_state d)"
proof -
  obtain d0 d0' d' es i where
    d': "store_Load k (fold (store_step sh) ops' (after sh ops)) = Inr d'"
    and same: "same_aggregate d0 d" "same_aggregate d0' d'"
    and replay: "replay_from i d0 es = Inr d0'" "0 < i"
    by (rule later_load [OF run_ok run_grows [OF run_ok] assms, of sh ops'])
  have keep: "same_aggregate x y \<Longrightarrow> d_admission_key y = d_admission_key x \<and> d_policy y = d_policy x" for x y
    by (cases x; cases y) (simp add: same_aggregate_def)
  have final: "isTerminalDeliveryState (d_state d) \<longrightarrow> d_state d' = d_state d"
    using replay_terminal [OF replay] same by (simp add: same_aggregate_scalars)
  note facts = replay_from_frame [OF replay] same_aggregate_scalars [OF same(1)] same_aggregate_scalars [OF same(2)]
    keep [OF same(1)] keep [OF same(2)]
  show ?thesis
    by (intro exI [of _ d'] conjI d' final; insert facts; simp)
qed

theorem delivery_history_witness:
  "\<exists>d d'. store_Load sample_key (after sample_env sample_ops) = Inr d \<and>
     store_Load sample_key (fold (store_step sample_env) [DoCancel 2000000000 sample_key] (after sample_env sample_ops)) = Inr d' \<and>
     d_version d \<le> d_version d'"
proof -
  from not_isl_Inr [OF sample_load] obtain d where d: "store_Load sample_key (after sample_env sample_ops) = Inr d" by blast
  from delivery_history [OF d, of "[DoCancel 2000000000 sample_key]"] d show ?thesis by blast
qed

section \<open>Retries and conflicts\<close>

lemma strip_stamp: "strip_requirement (stamp_requirement n at r) = strip_requirement (stamp_requirement n at' r)"
  by (simp add: strip_requirement_def stamp_requirement_def option.map_comp comp_def)

lemma waiver_strip:
  "map_option (\<lambda>x. x\<lparr>w_created := 0\<rparr>) (map_option (\<lambda>x. x\<lparr>w_created := or_time (w_created x) t\<rparr>) w) =
   map_option (\<lambda>x. x\<lparr>w_created := 0\<rparr>) (w :: waiver option)"
  by (simp add: option.map_comp comp_def)

text \<open>
  Every change is a mutation with a fingerprint that does not depend on the clock, so a retry at a
  later time is the same request.
\<close>

fun change_event :: "change \<Rightarrow> delivery_event_type" where
  "change_event (ChangeState nxt) = DeliveryEventTransitioned"
| "change_event (ChangeGoal g rs) = DeliveryEventGoalRevised"
| "change_event (ChangeRequirement rid status w) = DeliveryEventRequirementUpdated"
| "change_event (AskDecision dec) = DeliveryEventDecisionRequested"
| "change_event (Decide did res) = DeliveryEventDecisionResolved"

fun change_request :: "change \<Rightarrow> request" where
  "change_request (ChangeState nxt) = ReqTransition nxt"
| "change_request (ChangeGoal g rs) = ReqGoal (g\<lparr>g_created := 0\<rparr>)
     (map (\<lambda>r. strip_requirement (stamp_requirement (g_revision g) 0 r)) rs)"
| "change_request (ChangeRequirement rid status w) =
     ReqRequirement rid status (map_option (\<lambda>x. x\<lparr>w_created := 0\<rparr>) w)"
| "change_request (AskDecision dec) = ReqDecision (dec\<lparr>dc_requested := 0\<rparr>)"
| "change_request (Decide did res) = ReqResolution did (res\<lparr>rs_resolved := 0\<rparr>)"

lemma change_as_mutation:
  "\<exists>t mu. aggregate_mutation (change_event ch) mu \<and>
     (\<forall>obs st. make_change obs now k v i ch st =
        mutate obs now k v (change_event ch) (i\<lparr>ei_at := t\<rparr>) (FP (change_event ch) v (change_request ch)) mu st)"
proof (cases ch)
  case (ChangeState nxt)
  have "aggregate_mutation DeliveryEventTransitioned (transition_mutation nxt)"
    by (rule transition.aggregate_mutation_axioms)
  with ChangeState show ?thesis
    by (intro exI [of _ "ei_at i"] exI [of _ "transition_mutation nxt"]) (simp add: store_Transition_def)
next
  case (ChangeGoal g rs)
  let ?at = "or_time (ei_at i) now"
  let ?g = "g\<lparr>g_created := or_time (g_created g) ?at\<rparr>"
  let ?mu = "goal_mutation ?g (map (stamp_requirement (g_revision ?g) ?at) rs)"
  have "aggregate_mutation DeliveryEventGoalRevised ?mu" by (rule goal.aggregate_mutation_axioms)
  moreover have "strip_requirement \<circ> stamp_requirement (g_revision g) ?at =
      (\<lambda>r. strip_requirement (stamp_requirement (g_revision g) 0 r))"
    by (rule ext) (simp only: comp_apply strip_stamp [of "g_revision g" ?at _ 0])
  ultimately show ?thesis
    by (intro exI [of _ ?at] exI [of _ ?mu]) (simp add: ChangeGoal ReviseGoal_def Let_def)
next
  case (ChangeRequirement rid status w)
  let ?at = "or_time (ei_at i) now"
  let ?mu = "requirement_mutation rid status (map_option (\<lambda>x. x\<lparr>w_created := or_time (w_created x) ?at\<rparr>) w)"
  have "aggregate_mutation DeliveryEventRequirementUpdated ?mu" by (rule requirement.aggregate_mutation_axioms)
  then show ?thesis
    by (intro exI [of _ ?at] exI [of _ ?mu])
      (simp add: ChangeRequirement UpdateRequirement_def Let_def waiver_strip)
next
  case (AskDecision dec)
  let ?at = "or_time (ei_at i) now"
  let ?mu = "request_mutation (dec\<lparr>dc_requested := or_time (dc_requested dec) ?at\<rparr>)"
  have "aggregate_mutation DeliveryEventDecisionRequested ?mu" by (rule request.aggregate_mutation_axioms)
  then show ?thesis
    by (intro exI [of _ ?at] exI [of _ ?mu]) (simp add: AskDecision RequestDecision_def Let_def)
next
  case (Decide did res)
  let ?at = "or_time (ei_at i) now"
  let ?mu = "resolve_mutation did (res\<lparr>rs_resolved := or_time (rs_resolved res) ?at\<rparr>)"
  have "aggregate_mutation DeliveryEventDecisionResolved ?mu" by (rule resolve.aggregate_mutation_axioms)
  then show ?thesis
    by (intro exI [of _ ?at] exI [of _ ?mu]) (simp add: Decide ResolveDecision_def Let_def)
qed


text \<open>
  C10. Compare-and-swap: once a change expecting a version has taken effect, every other change that
  expects this version, under event identifiers not used before, is refused and changes nothing,
  however many calls later it comes.
\<close>

theorem change_version_once:
  assumes "make_change [] now k v i ch (after sh ops) = (Inr d, st')"
    and "\<forall>e \<in> set (log_rows k (after sh ops)). er_id e \<noteq> ei_id i \<and> er_idem e \<noteq> ei_idem i"
    and "\<forall>e \<in> set (log_rows k (fold (store_step sh) ops' st')). er_id e \<noteq> ei_id j \<and> er_idem e \<noteq> ei_idem j"
  shows "\<exists>e. make_change obs now' k v j ch' (fold (store_step sh) ops' st') = (Inl e, fold (store_step sh) ops' st')"
proof -
  let ?t = "fold (store_step sh) ops' st'"
  from change_as_mutation [of ch now k v i] obtain u mu where
    am: "aggregate_mutation (change_event ch) mu" and
    first: "mutate [] now k v (change_event ch) (i\<lparr>ei_at := u\<rparr>) (FP (change_event ch) v (change_request ch)) mu
      (after sh ops) = (Inr d, st')" using assms(1) by auto
  have fresh: "loadExistingMutation k ty (x\<lparr>ei_at := y\<rparr>) fp st = Inr None"
    if "\<forall>e \<in> set (log_rows k st). er_id e \<noteq> ei_id x \<and> er_idem e \<noteq> ei_idem x" for ty x y fp st
    using that by (auto simp: loadExistingMutation_None row_find_None log_rows_def)
  from aggregate_mutation.raises_version [OF am run_ok first fresh [OF assms(2)]] obtain d1 where
    d1: "loadDelivery k st' = Inr d1" "d_version d1 = v + 1" by blast
  have "good (after sh ops) st'"
    using aggregate_mutation.mutate_good [OF am good_refl [OF run_ok]] first by (metis snd_conv)
  then have ok: "store_ok st'" by (simp add: good_def)
  have ref: "validateDeliveryRef k" using mutate_guard [OF first] by simp
  have load1: "store_Load k st' = Inr d1" using d1 ref by (simp add: store_Load_def)
  obtain d0 d0' d2 es n where d2: "store_Load k ?t = Inr d2"
    and same: "same_aggregate d0 d1" "same_aggregate d0' d2"
    and replay: "replay_from n d0 es = Inr d0'" "0 < n"
    by (rule later_load [OF ok run_grows [OF ok] load1, of sh ops'])
  have "v + 1 \<le> d_version d2"
    using replay_from_frame [OF replay] same_aggregate_scalars [OF same(1)] same_aggregate_scalars [OF same(2)] d1(2)
    by simp
  then have ne: "d_version d2 \<noteq> v" by simp
  have load2: "loadDelivery k ?t = Inr d2" using d2 by (simp add: store_Load_def ref)
  from change_as_mutation [of ch' now' k v j] obtain u' mu' where
    second: "make_change obs now' k v j ch' st = mutate obs now' k v (change_event ch') (j\<lparr>ei_at := u'\<rparr>)
      (FP (change_event ch') v (change_request ch')) mu' st" for obs st by auto
  show ?thesis unfolding second by (rule mutate_stale [OF fresh [OF assms(3)] load2 ne])
qed


lemma sample_unused:
  "list_all (\<lambda>e. er_id e \<noteq> ''x'' \<and> er_idem e \<noteq> ''x'') (log_rows sample_key (after sample_env sample_ops))"
  "list_all (\<lambda>e. er_id e \<noteq> ''y'' \<and> er_idem e \<noteq> ''y'') (log_rows sample_key
     (snd (make_change [] 0 sample_key 2 (sample_identity ''x'') (ChangeState DeliveryFailed) (after sample_env sample_ops))))"
  by code_simp+

theorem change_version_once_witness:
  "\<exists>st' e. make_change [] 5 sample_key 2 (sample_identity ''y'') (ChangeState DeliveryPaused) st' = (Inl e, st')"
proof -
  from not_isl_Inr [OF sample_change] obtain d st' where run:
    "make_change [] 0 sample_key 2 (sample_identity ''x'') (ChangeState DeliveryFailed) (after sample_env sample_ops) = (Inr d, st')"
    by (metis prod.collapse)
  have "\<forall>e \<in> set (log_rows sample_key (after sample_env sample_ops)).
      er_id e \<noteq> ei_id (sample_identity ''x'') \<and> er_idem e \<noteq> ei_idem (sample_identity ''x'')"
    using sample_unused(1) unfolding list_all_iff sample_identity_def by (simp only: event_identity.simps)
  moreover have "\<forall>e \<in> set (log_rows sample_key (fold (store_step sample_env) [] st')).
      er_id e \<noteq> ei_id (sample_identity ''y'') \<and> er_idem e \<noteq> ei_idem (sample_identity ''y'')"
    using sample_unused(2) run unfolding list_all_iff sample_identity_def
    by (simp only: event_identity.simps fold_simps snd_conv)
  ultimately have "\<exists>e. make_change [] 5 sample_key 2 (sample_identity ''y'') (ChangeState DeliveryPaused)
      (fold (store_step sample_env) [] st') = (Inl e, fold (store_step sample_env) [] st')"
    by (rule change_version_once [OF run])
  then show ?thesis by (simp only: fold_simps) blast
qed

end
