(* ===== verification/Delivery_Leases.thy ===== *)
theory Delivery_Leases
  imports Delivery_Properties
begin

text \<open>
  Leases. A store's queue has one row for a delivery; through every call the rows stay, their
  epochs never decrease and closed rows (done or cancelled) stay closed. So a lease that an
  expiry or a cancellation has fenced is refused for ever, by every call that names it.
\<close>

section \<open>How the queue moves\<close>

definition closed_row :: "queue_row \<Rightarrow> bool" where
  "closed_row q = (q_status q = QDone \<or> q_status q = QCancelled)"

definition row_up :: "queue_row \<Rightarrow> queue_row \<Rightarrow> bool" where
  "row_up q q' = (q_key q' = q_key q \<and> q_epoch q \<le> q_epoch q' \<and> (closed_row q \<longrightarrow> closed_row q'))"

definition queue_ok :: "store \<Rightarrow> bool" where
  "queue_ok st = distinct (map q_key (t_queue st))"

definition queue_le :: "store \<Rightarrow> store \<Rightarrow> bool" where
  "queue_le st st' = (\<exists>g new. t_queue st' = map g (t_queue st) @ new \<and> (\<forall>q \<in> set (t_queue st). row_up q (g q)))"

definition qgood :: "store \<Rightarrow> store \<Rightarrow> bool" where
  "qgood st0 st = (queue_ok st \<and> queue_le st0 st)"

lemma row_up_refl [simp]: "row_up q q"
  by (simp add: row_up_def)

lemma row_up_trans: "row_up p q \<Longrightarrow> row_up q r \<Longrightarrow> row_up p r"
  by (auto simp: row_up_def)

lemma queue_le_same: "t_queue st' = t_queue st \<Longrightarrow> queue_le st st'"
  unfolding queue_le_def by (intro exI [of _ id] exI [of _ "[]"]) simp

lemma queue_le_trans:
  assumes "queue_le a b" and "queue_le b c"
  shows "queue_le a c"
proof -
  from assms obtain g new h more where
    g: "t_queue b = map g (t_queue a) @ new" "\<forall>q \<in> set (t_queue a). row_up q (g q)" and
    h: "t_queue c = map h (t_queue b) @ more" "\<forall>q \<in> set (t_queue b). row_up q (h q)"
    unfolding queue_le_def by blast
  have "t_queue c = map (h \<circ> g) (t_queue a) @ (map h new @ more)" using g(1) h(1) by simp
  moreover have "\<forall>q \<in> set (t_queue a). row_up q ((h \<circ> g) q)"
    using g h(2) by (auto intro: row_up_trans)
  ultimately show ?thesis unfolding queue_le_def by blast
qed

lemma qgood_frame: "t_queue st' = t_queue st \<Longrightarrow> qgood st0 st \<Longrightarrow> qgood st0 st'"
  unfolding qgood_def queue_ok_def queue_le_def by simp

lemma qgood_update:
  assumes "qgood st0 st" and "\<forall>q \<in> set (t_queue st). p q \<longrightarrow> row_up q (f q)"
  shows "qgood st0 (set_queue p f st)"
proof -
  let ?g = "\<lambda>q. if p q then f q else q"
  have q: "t_queue (set_queue p f st) = map ?g (t_queue st)"
    by (simp add: set_queue_def row_update_def)
  have up: "\<forall>q \<in> set (t_queue st). row_up q (?g q)" using assms(2) by simp
  then have "map q_key (map ?g (t_queue st)) = map q_key (t_queue st)"
    by (auto simp: row_up_def)
  then have "queue_ok (set_queue p f st)"
    using assms(1) by (simp only: qgood_def queue_ok_def q)
  moreover have "queue_le st (set_queue p f st)"
    unfolding queue_le_def using q up by (intro exI [of _ ?g] exI [of _ "[]"]) simp
  ultimately show ?thesis
    using assms(1) queue_le_trans by (auto simp: qgood_def)
qed

lemma qgood_insert:
  assumes "qgood st0 st" and "row_find (\<lambda>x. q_key x = q_key q) (t_queue st) = None"
  shows "qgood st0 (st\<lparr>t_queue := t_queue st @ [q]\<rparr>)"
proof -
  have "queue_ok (st\<lparr>t_queue := t_queue st @ [q]\<rparr>)"
    using assms queue.distinct_insert [of q "t_queue st"] by (simp add: qgood_def queue_ok_def)
  moreover have "queue_le st (st\<lparr>t_queue := t_queue st @ [q]\<rparr>)"
    unfolding queue_le_def by (intro exI [of _ id] exI [of _ "[q]"]) simp
  ultimately show ?thesis using assms(1) queue_le_trans by (auto simp: qgood_def)
qed

section \<open>Calls that leave the queue alone\<close>

lemma appendDeliveryEvent_queue [store_simps]:
  "appendDeliveryEvent k ty p i fp st = Inr (row, st') \<Longrightarrow> t_queue st' = t_queue st"
  by (erule appendE) simp_all

lemma transitionInTx_queue:
  "transitionInTx d nxt i st = Inr (d', st') \<Longrightarrow> t_queue st' = t_queue st"
  by (auto simp: transitionInTx_def tx_simps Let_def set_delivery_row_def dest!: appendDeliveryEvent_queue)

definition same_queue :: "'a tx \<Rightarrow> bool" where
  "same_queue f = (\<forall>st x st'. f st = Inr (x, st') \<longrightarrow> t_queue st' = t_queue st)"

lemma same_queueI: "(\<And>st x st'. f st = Inr (x, st') \<Longrightarrow> t_queue st' = t_queue st) \<Longrightarrow> same_queue f"
  by (simp add: same_queue_def)

lemma same_queueD: "same_queue f \<Longrightarrow> f st = Inr (x, st') \<Longrightarrow> t_queue st' = t_queue st"
  by (simp add: same_queue_def)

lemma mutate_queue:
  assumes "\<And>d. same_queue (mu d)"
  shows "t_queue (snd (mutate obs now k v ty i0 fp mu st)) = t_queue st"
proof (cases rule: mutate_cases [of obs now k v ty i0 fp mu st])
  case unchanged
  then show ?thesis by simp
next
  case (applied d2 st2 d)
  from applied(5) obtain x st1 where "mu d st = Inr (x, st1)" "t_queue st2 = t_queue st1"
    by (auto simp: apply_mutation_def Let_def split: sum.splits if_splits dest!: appendDeliveryEvent_queue)
  with same_queueD [OF assms] applied(1) show ?thesis by fastforce
qed

lemma change_queue: "t_queue (snd (make_change obs now k v i ch st)) = t_queue st"
proof -
  have "same_queue (transition_mutation nxt d)" for nxt d
    by (rule same_queueI) (auto simp: transition_mutation_def tx_simps)
  moreover have "same_queue (goal_mutation g rs d)" for g rs d
    by (rule same_queueI) (auto simp: goal_mutation_def tx_simps split: if_splits dest!: insertGoal_effect)
  moreover have "same_queue (requirement_mutation rid status w d)" for rid status w d
    by (rule same_queueI) (auto simp: requirement_mutation_def Let_def tx_simps split: if_splits)
  moreover have "same_queue (request_mutation dec d)" for dec d
    by (rule same_queueI) (auto simp: request_mutation_def tx_simps split: if_splits dest!: insert_decision_effect)
  moreover have "same_queue (resolve_mutation did res d)" for did res d
    by (rule same_queueI) (auto simp: resolve_mutation_def tx_simps split: if_splits dest!: insert_resolution_effect)
  ultimately show ?thesis
    by (cases ch) (simp_all add: store_Transition_def ReviseGoal_def UpdateRequirement_def RequestDecision_def
        ResolveDecision_def Let_def mutate_queue)
qed

section \<open>Calls that move the queue\<close>

definition moves :: "'a tx \<Rightarrow> bool" where
  "moves f = (\<forall>st0 st x st'. qgood st0 st \<longrightarrow> f st = Inr (x, st') \<longrightarrow> qgood st0 st')"

lemma movesI: "(\<And>st0 st x st'. qgood st0 st \<Longrightarrow> f st = Inr (x, st') \<Longrightarrow> qgood st0 st') \<Longrightarrow> moves f"
  unfolding moves_def by blast

lemma movesD: "moves f \<Longrightarrow> f st = Inr (x, st') \<Longrightarrow> qgood st0 st \<Longrightarrow> qgood st0 st'"
  unfolding moves_def by blast

lemma same_queue_moves: "same_queue f \<Longrightarrow> moves f"
  by (rule movesI) (rule qgood_frame [OF same_queueD])

lemma moves_transactional: "moves f \<Longrightarrow> transactional queue_ok queue_le f"
proof
  assume f: "moves f"
  show "queue_le st st" for st by (rule queue_le_same) simp
  show "queue_ok st' \<and> queue_le st st'" if "queue_ok st" and "f st = Inr (x, st')" for st x st'
    using movesD [OF f that(2), of st] that(1) queue_le_same [OF refl] by (simp add: qgood_def)
qed

lemma insertQueueRow_moves: "insertQueueRow q st = Inr (u, st') \<Longrightarrow> qgood st0 st \<Longrightarrow> qgood st0 st'"
  by (auto simp: insertQueueRow_def tx_simps qgood_insert split: if_splits)

lemma ensureQueueRow_moves: "ensureQueueRow q st = Inr (u, st') \<Longrightarrow> qgood st0 st \<Longrightarrow> qgood st0 st'"
  by (simp add: ensureQueueRow_def tx_simps qgood_insert split: if_splits)

lemma update_queue_one_moves:
  "update_queue_one p f st = Inr (u, st') \<Longrightarrow> qgood st0 st \<Longrightarrow>
     \<forall>q \<in> set (t_queue st). p q \<longrightarrow> row_up q (f q) \<Longrightarrow> qgood st0 st'"
  by (auto simp: update_queue_one_def requireChanged_def tx_simps intro: qgood_update)

lemma qgood_transition: "transitionInTx d nxt i st = Inr (d', st') \<Longrightarrow> qgood st0 st \<Longrightarrow> qgood st0 st'"
  by (rule qgood_frame [OF transitionInTx_queue])

lemma qgood_attempts [simp]: "qgood st0 (set_attempts p f st) = qgood st0 st"
  unfolding qgood_def queue_ok_def queue_le_def by (simp add: set_attempts_def)

lemma queue_rows_key:
  assumes "queue_ok st" and "row_find (holds_lease l now) (t_queue st) = Some q0"
    and "q \<in> set (t_queue st)" and "q_key q = d_key (le_delivery l)"
  shows "q_status q = QLeased"
proof -
  from row_find_SomeD [OF assms(2)] have q0: "q0 \<in> set (t_queue st)" "q_key q0 = d_key (le_delivery l)" "q_status q0 = QLeased"
    by (simp_all add: holds_lease_def)
  with assms have "q = q0" unfolding queue_ok_def by (metis (no_types, lifting) distinct_map inj_onD)
  with q0 show ?thesis by simp
qed

text \<open>Rows that are not closed may go anywhere, as long as their epoch does not fall.\<close>

lemma row_up_open: "\<not> closed_row q \<Longrightarrow> q_key q' = q_key q \<Longrightarrow> q_epoch q \<le> q_epoch q' \<Longrightarrow> row_up q q'"
  by (simp add: row_up_def)

lemma claimable_open: "claimable now q \<Longrightarrow> \<not> closed_row q"
  by (auto simp: claimable_def closed_row_def)

lemma holds_open: "holds_lease l now q \<Longrightarrow> \<not> closed_row q"
  by (auto simp: holds_lease_def closed_row_def)

lemma leased_update:
  assumes "qgood st0 st" and "row_find (holds_lease l now) (t_queue st) \<noteq> None" and "t_queue st' = t_queue st"
    and "\<And>q. q_key (f q) = q_key q \<and> q_epoch (f q) = q_epoch q" and "k = d_key (le_delivery l)"
  shows "qgood st0 (set_queue (\<lambda>q. q_key q = k) f st')"
proof (rule qgood_update)
  show "qgood st0 st'" using assms(3,1) by (rule qgood_frame)
  show "\<forall>q \<in> set (t_queue st'). q_key q = k \<longrightarrow> row_up q (f q)"
  proof (intro ballI impI row_up_open)
    fix q assume q: "q \<in> set (t_queue st')" "q_key q = k"
    from assms(2) obtain q0 where q0: "row_find (holds_lease l now) (t_queue st) = Some q0" by blast
    have "queue_ok st" using assms(1) by (simp add: qgood_def)
    from queue_rows_key [OF this q0] q assms(3,5) have "q_status q = QLeased" by simp
    then show "\<not> closed_row q" by (simp add: closed_row_def)
  qed (simp_all add: assms(4))
qed

lemma QueueAdmitted_moves: "moves (QueueAdmitted now k v)"
  by (rule movesI) (auto simp: QueueAdmitted_def tx_simps dest!: insertQueueRow_moves qgood_transition)

lemma Heartbeat_moves: "moves (Heartbeat now l duration)"
  by (rule movesI) (auto simp: Heartbeat_def tx_simps row_up_def elim!: update_queue_one_moves dest: holds_open)

lemma Effect_moves: "moves (WithLeaseEffect now l duration ok)"
  by (rule movesI) (auto simp: WithLeaseEffect_def tx_simps row_up_def elim!: update_queue_one_moves dest: holds_open)

lemma updateAttempt_same: "same_queue (updateAttempt now l f)"
  by (rule same_queueI) (auto simp: updateAttempt_def requireChanged_def tx_simps Let_def set_attempts_def)

lemma TransitionLease_same: "same_queue (TransitionLease now1 now2 l nxt)"
  by (rule same_queueI) (auto simp: TransitionLease_def tx_simps dest: transitionInTx_queue)

lemma load_key: "loadDelivery k st = Inr d \<Longrightarrow> d_key d = k"
  by (auto simp: loadDelivery_def delivery_of_row_def dest: row_find_SomeD split: option.splits)

lemma transitionInTx_key: "transitionInTx d nxt i st = Inr (d', st') \<Longrightarrow> d_key d' = d_key d"
  by (auto simp: transitionInTx_def tx_simps Transition_Inr Let_def)

lemma maybe_transition:
  "(if c then transitionInTx d nxt i else tx_return d) st = Inr (d', st') \<Longrightarrow>
     t_queue st' = t_queue st \<and> d_key d' = d_key d"
  by (auto simp: tx_simps transitionInTx_key transitionInTx_queue split: if_splits)

lemma Release_moves: "moves (Release now l)"
proof (rule movesI)
  fix st0 st x st'
  assume good: "qgood st0 st" and run: "Release now l st = Inr (x, st')"
  let ?f = "\<lambda>q. (clear_lease q)\<lparr>q_status := QReady, q_available := timestamp now, q_updated := timestamp now\<rparr>"
  from run obtain d d' st1 where live: "row_find (holds_lease l now) (t_queue st) \<noteq> None"
    and load: "loadDelivery (d_key (le_delivery l)) st = Inr d"
    and step: "(if d_state d \<noteq> DeliveryQueued then transitionInTx d DeliveryQueued
        (queueEventIdentity (delivery_id (d_key d)) ''release'' (le_epoch l) now) else tx_return d) st = Inr (d', st1)"
    and st': "st' = set_queue (\<lambda>q. q_key q = d_key d') ?f st1"
    unfolding Release_def by (simp only: tx_bind_Inr tx_read_Inr tx_modify_Inr verifyLease_Inr) blast
  from maybe_transition [OF step] load_key [OF load] have q: "t_queue st1 = t_queue st" and k: "d_key d' = d_key (le_delivery l)"
    by auto
  show "qgood st0 st'" unfolding st' by (rule leased_update [OF good live q _ k]) (simp add: clear_lease_def)
qed

lemma finish_attempt_same: "same_queue (finish_attempt now l oc)"
  by (rule same_queueI) (auto simp: finish_attempt_def requireChanged_def tx_simps Let_def set_attempts_def)

lemma Finalize_moves: "moves (Finalize now l oc)"
proof (rule movesI)
  fix st0 st x st'
  assume good: "qgood st0 st" and run: "Finalize now l oc st = Inr (x, st')"
  from run obtain d d' nxt status available signal st1 st2 u where live: "row_find (holds_lease l now) (t_queue st) \<noteq> None"
    and load: "loadDelivery (d_key (le_delivery l)) st = Inr d"
    and step: "(if d_state d \<noteq> nxt then transitionInTx d nxt
        (queueEventIdentity (delivery_id (d_key d)) (''outcome-'' @ kind_text (oc_kind oc)) (le_epoch l) now)
        else tx_return d) st = Inr (d', st1)"
    and fin: "finish_attempt now l oc st1 = Inr (u, st2)"
    and st': "st' = set_queue (\<lambda>q. q_key q = d_key d') (\<lambda>q. (clear_lease q)\<lparr>q_status := status,
        q_available := timestamp available, q_signal := signal,
        q_result := (if oc_result oc = '''' then q_result q else oc_result oc), q_updated := timestamp now\<rparr>) st2"
    unfolding Finalize_def
    by (simp only: tx_bind_Inr tx_read_Inr tx_modify_Inr tx_require_Inr tx_return_Inr verifyLease_Inr split_paired_Ex split_conv) blast
  from maybe_transition [OF step] load_key [OF load] same_queueD [OF finish_attempt_same fin]
  have q: "t_queue st2 = t_queue st" and k: "d_key d' = d_key (le_delivery l)" by auto
  show "qgood st0 st'" unfolding st' by (rule leased_update [OF good live q _ k]) (simp add: clear_lease_def)
qed

lemma SignalWaiting_moves: "moves (SignalWaiting now k s)"
  by (rule movesI)
    (auto simp: SignalWaiting_def tx_simps row_up_def closed_row_def
      elim!: update_queue_one_moves dest!: qgood_transition)

lemma Cancel_moves: "moves (Cancel now k)"
  by (rule movesI)
    (auto simp: Cancel_def tx_simps row_up_def closed_row_def clear_lease_def
      dest!: qgood_transition elim!: update_queue_one_moves split: if_splits)

lemma insertAttempt_same: "same_queue (insertAttempt k n owner epoch now)"
  by (rule same_queueI) (auto simp: insertAttempt_def tx_simps split: if_splits)

lemma claim_transitions_same: "same_queue (claim_transitions k epoch now d)"
  by (rule same_queueI)
    (auto simp: claim_transitions_def tx_simps split: if_splits dest!: transitionInTx_queue)

text \<open>A successful claim leases one claimable row under the next epoch.\<close>

lemma claim_row_queue:
  assumes "claim_row owner now expires q st = Inr (l, st')"
  shows "t_queue st' = row_update (\<lambda>x. q_key x = q_key q \<and> claimable now x) (lease_row owner now expires) (t_queue st) \<and>
    d_key (le_delivery l) = q_key q \<and> le_epoch l = q_epoch q + 1 \<and> le_owner l = owner \<and> le_expires l = expires"
proof -
  from assms obtain d d' st1 st2 n where
    load: "loadDelivery (q_key q) st1 = Inr d" and
    q1: "t_queue st1 = row_update (\<lambda>x. q_key x = q_key q \<and> claimable now x) (lease_row owner now expires) (t_queue st)" and
    tr: "claim_transitions (q_key q) (q_epoch q + 1) now d st1 = Inr (d', st2)" and
    ins: "insertAttempt (q_key q) n owner (q_epoch q + 1) now st2 = Inr ((), st')" and
    l: "l = \<lparr>le_delivery = d', le_owner = owner, le_epoch = q_epoch q + 1, le_attempt = n,
        le_acquired = now, le_expires = expires, le_heartbeat = now\<rparr>"
    by (auto simp: claim_row_def Let_def tx_simps set_queue_def set_attempts_def)
  have "d_key d' = d_key d"
    using tr by (auto simp: claim_transitions_def tx_simps split: if_splits dest!: transitionInTx_key)
  with load_key [OF load] l q1 same_queueD [OF claim_transitions_same tr] same_queueD [OF insertAttempt_same ins]
  show ?thesis by simp
qed

lemma next_claim_mem:
  assumes "next_claim now st = Some q"
  shows "q \<in> set (t_queue st) \<and> claimable now q"
proof -
  let ?qs = "sort_key (\<lambda>q. (q_available q, q_created q, delivery_id (q_key q))) (filter (claimable now) (t_queue st))"
  from assms obtain qs where "?qs = q # qs" by (auto simp: next_claim_def split: list.splits)
  then have "q \<in> set ?qs" by simp
  then show ?thesis by simp
qed

lemma Claim_row:
  assumes "Claim now owner duration st = Inr (l, st')"
  obtains q where "next_claim now st = Some q" and "claim_row owner now (now + duration) q st = Inr (l, st')"
    and "owner \<noteq> ''''" and "0 < duration"
  using assms by (auto simp: Claim_def tx_simps split: option.splits)

lemma Claim_moves: "moves (Claim now owner duration)"
proof (rule movesI)
  fix st0 st l st'
  assume good: "qgood st0 st" and run: "Claim now owner duration st = Inr (l, st')"
  from Claim_row [OF run] obtain q where row: "claim_row owner now (now + duration) q st = Inr (l, st')" by blast
  let ?p = "\<lambda>x. q_key x = q_key q \<and> claimable now x" and ?f = "lease_row owner now (now + duration)"
  have "qgood st0 (set_queue ?p ?f st)"
    by (rule qgood_update [OF good]) (auto simp: row_up_def lease_row_def dest: claimable_open)
  then show "qgood st0 st'"
    by (rule qgood_frame [rotated]) (use claim_row_queue [OF row] in \<open>simp add: set_queue_def\<close>)
qed

lemma operation_event_queue: "appendOperationEvent k o1 ty st = Inr (row, st') \<Longrightarrow> t_queue st' = t_queue st"
  by (simp add: appendOperationEvent_def Let_def appendDeliveryEvent_queue)

lemma PrepareOperation_same: "same_queue (PrepareOperation now1 now2 l o1)"
  by (rule same_queueI)
    (auto simp: PrepareOperation_def prepare_existing_def prepare_new_def insertOperation_def Let_def tx_simps
      split: option.splits if_splits dest!: operation_event_queue)

lemma advanceOperation_same: "same_queue (advanceOperation sh now l oid s1 s2 out res err)"
  by (rule same_queueI)
    (auto simp: advanceOperation_def Let_def tx_simps dest!: operation_event_queue)

lemma ObserveOperation_same: "same_queue (ObserveOperation jv sh now l oid res out err)"
  using advanceOperation_same by (auto simp: ObserveOperation_def same_queue_def tx_simps)

lemma ReconcileOperation_same: "same_queue (ReconcileOperation jv sh now l oid evid out res)"
  using advanceOperation_same by (auto simp: ReconcileOperation_def same_queue_def tx_simps)

lemma reserveUsage_same: "same_queue (reserveUsage now k l q)"
  by (rule same_queueI) (auto simp: reserveUsage_def tx_simps split: option.splits)

lemma update_usage_one_same: "same_queue (update_usage_one p f)"
  by (rule same_queueI) (auto simp: update_usage_one_def tx_simps)

lemma ReconcileUsage_queue: "t_queue (snd (ReconcileUsage k call a st)) = t_queue st"
  by (simp add: ReconcileUsage_def reconcile_new_def update_usage_def Let_def split: sum.split option.split)

lemma append_tx_same: "same_queue (append_tx k ty p i)"
  by (rule same_queueI) (auto simp: append_tx_def tx_simps dest!: appendDeliveryEvent_queue)

lemma admit_rows_same: "same_queue (admit_rows a fp)"
  by (rule same_queueI)
    (auto simp: admit_rows_def Let_def tx_simps dest!: insertGoal_effect appendDeliveryEvent_queue)

lemma admit_again_moves: "moves (admit_again a fp runnable r)"
proof (rule movesI)
  fix st0 st d st'
  assume good: "qgood st0 st" and run: "admit_again a fp runnable r st = Inr (d, st')"
  from run show "qgood st0 st'"
  proof (cases rule: admit_again_cases)
    case found
    with good show ?thesis by simp
  next
    case (queued d1 d2 st1)
    have "t_queue st1 = t_queue st" using maybe_transition [OF queued(2)] by simp
    with good have "qgood st0 st1" by (metis qgood_frame)
    with queued(3) show ?thesis by (rule ensureQueueRow_moves)
  qed
qed

lemma admit_new_moves: "moves (admit_new a fp runnable)"
proof (rule movesI)
  fix st0 st d st'
  assume good: "qgood st0 st" and run: "admit_new a fp runnable st = Inr (d, st')"
  then obtain st1 where rows: "admit_rows a fp st = Inr ((), st1)" and
    rest: "(if runnable then admit_queue a (admitted_delivery a) else tx_return (admitted_delivery a)) st1 = Inr (d, st')"
    by (auto simp: admit_new_rows tx_simps)
  have g1: "qgood st0 st1" by (rule qgood_frame [OF same_queueD [OF admit_rows_same rows] good])
  show "qgood st0 st'"
  proof (cases runnable)
    case True
    with rest obtain ty p i row st2 q f u where
      "appendDeliveryEvent (a_key a) ty p i FPNone st1 = Inr (row, st2)"
      "insertQueueRow q (set_delivery_row (a_key a) f st2) = Inr (u, st')"
      unfolding admit_queue_def Let_def by (simp only: tx_bind_Inr tx_modify_Inr tx_return_Inr if_True) blast
    then have "t_queue (set_delivery_row (a_key a) f st2) = t_queue st1"
      by (simp add: set_delivery_row_def appendDeliveryEvent_queue)
    from insertQueueRow_moves [OF \<open>insertQueueRow q _ = _\<close> qgood_frame [OF this g1]] show ?thesis .
  next
    case False
    with rest g1 show ?thesis by (simp add: tx_simps)
  qed
qed

lemma admit_tx_moves: "moves (admit_tx a fp runnable)"
  by (rule movesI)
    (auto simp: admit_tx_def split: option.splits dest: movesD [OF admit_again_moves] movesD [OF admit_new_moves])

lemma qgood_refl: "queue_ok st \<Longrightarrow> qgood st st"
  by (simp add: qgood_def queue_le_same)

lemma moves_run: "moves f \<Longrightarrow> qgood st0 st \<Longrightarrow> qgood st0 (snd (run_tx f st))"
  by (auto simp: run_tx_def dest: movesD split: sum.splits)

lemma admit_moves: "qgood st0 st \<Longrightarrow> qgood st0 (snd (admit a runnable now st))"
  by (auto simp: admit_def moves_run admit_tx_moves split: sum.splits)

lemma append_step_queue: "t_queue (snd (AppendEvent now k ty raw i st)) = t_queue st"
  by (auto simp: AppendEvent_def run_tx_def tx_bind_def tx_read_def tx_return_def
      split: sum.splits dest: appendDeliveryEvent_queue)

lemma step_moves:
  assumes "qgood st0 st"
  shows "qgood st0 (store_step sh op1 st)"
proof (cases op1)
  case (DoAdmit a runnable now)
  with assms show ?thesis by (simp add: admit_moves)
next
  case (DoChange obs now k v i ch)
  have "qgood st0 (snd (make_change obs now k v i ch st))" by (rule qgood_frame [OF change_queue assms])
  with DoChange show ?thesis by simp
next
  case (DoAppend now k ty raw i)
  have "qgood st0 (snd (AppendEvent now k ty raw i st))" by (rule qgood_frame [OF append_step_queue assms])
  with DoAppend show ?thesis by simp
next
  case (DoReconcile k call a)
  have "qgood st0 (snd (ReconcileUsage k call a st))" by (rule qgood_frame [OF ReconcileUsage_queue assms])
  with DoReconcile show ?thesis by simp
qed (simp_all add: assms moves_run QueueAdmitted_moves Claim_moves Heartbeat_moves Checkpoint_def PublishResult_def
    same_queue_moves updateAttempt_same TransitionLease_same Release_moves Finalize_moves SignalWaiting_moves
    Cancel_moves Effect_moves PrepareOperation_same BeginOperation_def ObserveOperation_same
    ReconcileOperation_same advanceOperation_same reserveUsage_same update_usage_one_same
    markUsageUnknownWithDurations_def CancelUnusedReservation_def run_tx_require_bind)

interpretation leases: monotone_machine "store_step sh" queue_ok queue_le for sh :: environment
  by unfold_locales (use step_moves [OF qgood_refl] queue_le_trans in \<open>auto simp: qgood_def queue_le_same\<close>)

lemma empty_queue_ok: "queue_ok empty_store"
  by (simp add: queue_ok_def empty_store_def)

section \<open>Fencing\<close>

definition valid_lease :: "lease \<Rightarrow> time \<Rightarrow> store \<Rightarrow> bool" where
  "valid_lease l now st = (row_find (holds_lease l now) (t_queue st) \<noteq> None)"

lemma valid_lease_row:
  "valid_lease l now st \<longleftrightarrow> (\<exists>q \<in> set (t_queue st). holds_lease l now q)"
  by (auto simp: valid_lease_def row_find_None)

lemma row_by_key:
  "queue_ok st \<Longrightarrow> p \<in> set (t_queue st) \<Longrightarrow> q \<in> set (t_queue st) \<Longrightarrow> q_key p = q_key q \<Longrightarrow> p = q"
  unfolding queue_ok_def by (metis distinct_map inj_onD)

lemma set_attempts_queue [simp]: "t_queue (set_attempts p f st) = t_queue st"
  by (simp add: set_attempts_def)

lemma insertAttempt_current:
  "insertAttempt k n owner epoch now st = Inr (u, st') \<Longrightarrow> current d st' = current d st"
  by (auto simp: insertAttempt_def tx_simps store_simps split: if_splits)

lemma claim_row_current:
  assumes "store_ok st" and "claim_row owner now expires q st = Inr (l, st')"
  shows "current (le_delivery l) st' \<and> d_state (le_delivery l) = DeliveryRunning"
  using assms(2) good_refl [OF assms(1)]
  by (auto simp: claim_row_def Let_def tx_simps store_simps insertAttempt_current
      dest!: good_load claim_transitions_good)

lemma current_load:
  "current d st \<Longrightarrow> \<exists>d1. loadDelivery (d_key d) st = Inr d1 \<and> d_state d1 = d_state d \<and> d_version d1 = d_version d"
  by (auto simp: current_def loadDelivery_view delivery_of_row_def)

text \<open>A lease with an epoch below that of its delivery's row is never valid again.\<close>

lemma behind_invalid:
  assumes ok: "queue_ok st'" and le: "queue_le st st'"
    and q: "q \<in> set (t_queue st)" "q_key q = d_key (le_delivery l)" "le_epoch l < q_epoch q"
  shows "\<not> valid_lease l now st'"
proof
  assume "valid_lease l now st'"
  then obtain q1 where q1: "q1 \<in> set (t_queue st')" "q_key q1 = d_key (le_delivery l)" "q_epoch q1 = le_epoch l"
    by (auto simp: valid_lease_row holds_lease_def)
  from le q(1) obtain q2 where q2: "q2 \<in> set (t_queue st')" "row_up q q2"
    unfolding queue_le_def by fastforce
  then have "q_key q2 = q_key q1" using q q1 by (simp add: row_up_def)
  with ok q1(1) q2(1) have "q1 = q2" unfolding queue_ok_def by (metis distinct_map inj_onD)
  with q(3) q1(3) q2(2) show False by (simp add: row_up_def)
qed

lemma closed_later:
  assumes ok: "queue_ok st'" and le: "queue_le st st'"
    and q: "q \<in> set (t_queue st)" "closed_row q" and q1: "q1 \<in> set (t_queue st')" "q_key q1 = q_key q"
  shows "closed_row q1"
proof -
  from le q(1) obtain q2 where q2: "q2 \<in> set (t_queue st')" "row_up q q2"
    unfolding queue_le_def by fastforce
  with ok q1 have "q1 = q2" unfolding queue_ok_def by (metis distinct_map inj_onD row_up_def)
  with q(2) q2(2) show ?thesis by (simp add: row_up_def)
qed

text \<open>The calls made under a lease.\<close>

fun op_lease :: "store_op \<Rightarrow> lease option" where
  "op_lease (DoHeartbeat now l duration) = Some l"
| "op_lease (DoCheckpoint now l x) = Some l"
| "op_lease (DoPublish now l x) = Some l"
| "op_lease (DoTransitionLease now1 now2 l nxt) = Some l"
| "op_lease (DoRelease now l) = Some l"
| "op_lease (DoFinalize now l oc) = Some l"
| "op_lease (DoEffect now l duration ok) = Some l"
| "op_lease (DoPrepare now1 now2 l o1) = Some l"
| "op_lease (DoBegin now l oid) = Some l"
| "op_lease (DoObserve now l oid res out err) = Some l"
| "op_lease (DoReconcileOperation now l oid evid out res) = Some l"
| "op_lease (DoReserve now k l q) = l"
| "op_lease op1 = None"

lemma run_tx_error: "(\<And>x st'. f st \<noteq> Inr (x, st')) \<Longrightarrow> snd (run_tx f st) = st"
  by (auto simp: run_tx_def split: sum.split)

lemma no_holder:
  assumes "\<not> valid_lease l now st"
  shows "row_count (holds_lease l now) (t_queue st) = 0" and "row_find (holds_lease l now) (t_queue st) = None"
  using assms by (simp_all add: valid_lease_def row_count_0)

lemma invalid_powerless:
  assumes "\<And>now. \<not> valid_lease l now st" and "op_lease op1 = Some l"
  shows "store_step sh op1 st = st"
  using assms(2) no_holder [OF assms(1)]
  by (cases op1)
    (simp_all add: run_tx_error Heartbeat_def Checkpoint_def PublishResult_def TransitionLease_def Release_def
      Finalize_def WithLeaseEffect_def PrepareOperation_def BeginOperation_def ObserveOperation_def
      ReconcileOperation_def advanceOperation_def reserveUsage_def
      updateAttempt_def update_queue_one_def requireChanged_def Let_def tx_simps row_count_def)

text \<open>
  C2. A worker that was overtaken can do nothing: once a claim has leased a delivery again, a call
  that names a lease held before it (to renew, checkpoint, publish, move, release or finish the
  delivery, to extend the lease around an effect, to record an operation or to reserve usage)
  changes nothing, however many calls later it comes and whatever time it is.
\<close>

theorem claim_fences:
  assumes claim: "run_tx (Claim now owner duration) (after sh ops) = (Inr l, st')"
    and held: "valid_lease l0 t0 (after sh ops)" and same: "d_key (le_delivery l0) = d_key (le_delivery l)"
    and op1: "op_lease op1 = Some l0"
  shows "store_step sh op1 (fold (store_step sh) ops' st') = fold (store_step sh) ops' st'"
proof (rule invalid_powerless [OF _ op1])
  fix t
  have ok: "queue_ok (after sh ops)" by (rule leases.run_inv [OF empty_queue_ok])
  from claim have run: "Claim now owner duration (after sh ops) = Inr (l, st')" by (simp add: run_tx_Inr)
  obtain q where q: "next_claim now (after sh ops) = Some q"
    and row: "claim_row owner now (now + duration) q (after sh ops) = Inr (l, st')"
    by (rule Claim_row [OF run])
  note mem = next_claim_mem [OF q] and eff = claim_row_queue [OF row]
  from held obtain q0 where q0: "q0 \<in> set (t_queue (after sh ops))" "holds_lease l0 t0 q0"
    by (auto simp: valid_lease_row)
  with ok mem same eff have "q0 = q"
    unfolding queue_ok_def by (metis (no_types, lifting) distinct_map holds_lease_def inj_onD)
  with q0(2) have ep: "le_epoch l0 = q_epoch q" by (simp add: holds_lease_def)
  let ?q = "lease_row owner now (now + duration) q"
  have in': "?q \<in> set (t_queue st')" using mem eff by (auto simp: set_row_update)
  have ok': "queue_ok st'" using movesD [OF Claim_moves run qgood_refl [OF ok]] by (simp add: qgood_def)
  show "\<not> valid_lease l0 t (fold (store_step sh) ops' st')"
    by (rule behind_invalid [OF leases.run_inv [OF ok'] leases.run_le [OF ok'] in'])
      (use same eff ep in \<open>simp_all add: lease_row_def\<close>)
qed

text \<open>
  C15. Two leases of a delivery that are valid in the same store, at whatever times they are tried,
  are the same owner's under the same epoch.
\<close>

theorem lease_exclusive:
  assumes "valid_lease l1 t1 (after sh ops)" and "valid_lease l2 t2 (after sh ops)"
    and "d_key (le_delivery l1) = d_key (le_delivery l2)"
  shows "le_owner l1 = le_owner l2 \<and> le_epoch l1 = le_epoch l2"
proof -
  have ok: "queue_ok (after sh ops)" by (rule leases.run_inv [OF empty_queue_ok])
  from assms obtain q1 q2 where q: "q1 \<in> set (t_queue (after sh ops))" "holds_lease l1 t1 q1"
    "q2 \<in> set (t_queue (after sh ops))" "holds_lease l2 t2 q2"
    by (auto simp: valid_lease_row)
  then have "q_key q1 = q_key q2" using assms(3) by (simp add: holds_lease_def)
  with ok q have "q1 = q2" unfolding queue_ok_def by (metis distinct_map inj_onD)
  with q show ?thesis by (simp add: holds_lease_def)
qed

text \<open>
  C13. An effective cancellation is final for the queue: every lease of the delivery that was valid
  is powerless from then on, and no later claim leases the delivery again.
\<close>

theorem cancel_fences:
  assumes cancel: "run_tx (Cancel now k) (after sh ops) = (Inr u, st')" and effective: "st' \<noteq> after sh ops"
  shows "(\<forall>l0 t0 op1. valid_lease l0 t0 (after sh ops) \<and> d_key (le_delivery l0) = k \<and> op_lease op1 = Some l0 \<longrightarrow>
       store_step sh op1 (fold (store_step sh) ops' st') = fold (store_step sh) ops' st') \<and>
    (\<forall>now2 owner duration l. fst (run_tx (Claim now2 owner duration) (fold (store_step sh) ops' st')) = Inr l \<longrightarrow>
       d_key (le_delivery l) \<noteq> k)"
proof -
  let ?t = "fold (store_step sh) ops' st'"
  let ?f = "\<lambda>q. (clear_lease q)\<lparr>q_status := QCancelled, q_signal := ''cancel'', q_epoch := q_epoch q + 1,
     q_updated := timestamp now\<rparr>"
  have ok: "queue_ok (after sh ops)" by (rule leases.run_inv [OF empty_queue_ok])
  from cancel have run: "Cancel now k (after sh ops) = Inr (u, st')" by (simp add: run_tx_Inr)
  from run effective obtain sa where qa: "t_queue sa = t_queue (after sh ops)"
    and upd: "update_queue_one (\<lambda>q. q_key q = k) ?f (set_attempts (\<lambda>a. at_key a = k \<and> at_finished a = None)
      (\<lambda>a. a\<lparr>at_finished := Some (timestamp now), at_outcome := OutcomeCancelled,
         at_error := ''explicit cancellation''\<rparr>) sa) = Inr (u, st')"
    by (auto simp: Cancel_def tx_simps split: if_splits dest!: transitionInTx_queue)
  then have st': "t_queue st' = row_update (\<lambda>q. q_key q = k) ?f (t_queue (after sh ops))"
    and one: "row_count (\<lambda>q. q_key q = k) (t_queue (after sh ops)) = 1"
    by (auto simp: update_queue_one_def requireChanged_def tx_simps set_queue_def)
  have ok': "queue_ok st'" using movesD [OF Cancel_moves run qgood_refl [OF ok]] by (simp add: qgood_def)
  obtain q where q: "q \<in> set (t_queue (after sh ops))" "q_key q = k"
    by (rule row_count_pos [of "\<lambda>q. q_key q = k" "t_queue (after sh ops)"]) (simp_all add: one)
  then have in': "?f q \<in> set (t_queue st')" by (auto simp: st' set_row_update)
  have up: "queue_ok ?t" "queue_le st' ?t" using leases.run_inv [OF ok'] leases.run_le [OF ok'] by blast+
  have fenced: "store_step sh op1 ?t = ?t"
    if l0: "valid_lease l0 t0 (after sh ops)" "d_key (le_delivery l0) = k" "op_lease op1 = Some l0" for l0 t0 op1
  proof (rule invalid_powerless [OF _ l0(3)])
    fix t
    from l0(1) obtain q0 where q0: "q0 \<in> set (t_queue (after sh ops))" "holds_lease l0 t0 q0"
      by (auto simp: valid_lease_row)
    with ok q l0(2) have "q0 = q"
      unfolding queue_ok_def by (metis (no_types, lifting) distinct_map holds_lease_def inj_onD)
    with q0(2) have "le_epoch l0 = q_epoch q" by (simp add: holds_lease_def)
    then show "\<not> valid_lease l0 t ?t"
      by (intro behind_invalid [OF up in']) (use q l0(2) in \<open>simp_all add: clear_lease_def\<close>)
  qed
  have unclaimed: "d_key (le_delivery l) \<noteq> k"
    if claim: "fst (run_tx (Claim now2 owner duration) ?t) = Inr l" for now2 owner duration l
  proof
    assume k: "d_key (le_delivery l) = k"
    from claim obtain st2 where "Claim now2 owner duration ?t = Inr (l, st2)"
      by (metis prod.collapse run_tx_Inr)
    then obtain p where p: "next_claim now2 ?t = Some p" and row: "claim_row owner now2 (now2 + duration) p ?t = Inr (l, st2)"
      by (rule Claim_row)
    have "closed_row p"
      by (rule closed_later [OF up in'])
        (use next_claim_mem [OF p] claim_row_queue [OF row] k q in \<open>simp_all add: closed_row_def clear_lease_def\<close>)
    with next_claim_mem [OF p] claimable_open show False by blast
  qed
  from fenced unclaimed show ?thesis by blast
qed

text \<open>
  C14. What a claim gives: the delivery it returns is running in the store under the version it was
  returned with, it was due, its epoch is the next one, and the lease is valid exactly at the
  instants before it expires.
\<close>

theorem claim_leases:
  assumes claim: "run_tx (Claim now owner duration) (after sh ops) = (Inr l, st')"
  shows "\<exists>q d. q \<in> set (t_queue (after sh ops)) \<and> claimable now q \<and> q_key q = d_key (le_delivery l) \<and>
    le_epoch l = q_epoch q + 1 \<and> le_owner l = owner \<and> loadDelivery (d_key (le_delivery l)) st' = Inr d \<and>
    d_state d = DeliveryRunning \<and> d_version d = d_version (le_delivery l) \<and>
    (\<forall>t. valid_lease l t st' = live (Some (timestamp (now + duration))) t)"
proof -
  have ok: "queue_ok (after sh ops)" by (rule leases.run_inv [OF empty_queue_ok])
  from claim have run: "Claim now owner duration (after sh ops) = Inr (l, st')" by (simp add: run_tx_Inr)
  obtain q where q: "next_claim now (after sh ops) = Some q"
    and row: "claim_row owner now (now + duration) q (after sh ops) = Inr (l, st')"
    by (rule Claim_row [OF run])
  note mem = next_claim_mem [OF q] and eff = claim_row_queue [OF row]
  have ok': "queue_ok st'" using movesD [OF Claim_moves run qgood_refl [OF ok]] by (simp add: qgood_def)
  let ?q = "lease_row owner now (now + duration) q"
  have in': "?q \<in> set (t_queue st')" using mem eff by (auto simp: set_row_update)
  have uniq: "p = ?q" if "p \<in> set (t_queue st')" "q_key p = q_key q" for p
    by (rule row_by_key [OF ok' that(1) in']) (simp add: that(2) lease_row_def)
  have valid: "valid_lease l t st' = live (Some (timestamp (now + duration))) t" for t
  proof -
    have "valid_lease l t st' = holds_lease l t ?q"
      using in' uniq eff by (auto simp: valid_lease_row holds_lease_def)
    also have "\<dots> = live (Some (timestamp (now + duration))) t"
      using eff by (simp add: holds_lease_def lease_row_def)
    finally show ?thesis .
  qed
  from claim_row_current [OF run_ok row] obtain d where d: "loadDelivery (d_key (le_delivery l)) st' = Inr d"
    "d_state d = DeliveryRunning" "d_version d = d_version (le_delivery l)"
    by (auto dest: current_load)
  show ?thesis
    by (intro exI [of _ q] exI [of _ d] conjI allI valid) (use mem eff d in simp_all)
qed

section \<open>Refusals\<close>

lemma append_member:
  assumes "appendDeliveryEvent k ty p i fp st = Inr (row, st')"
  shows "row \<in> set (v_log (view k st')) \<and> er_idem row = ei_idem i \<and> er_id row = ei_id i"
  using assms
proof (cases rule: appendE)
  case old
  then show ?thesis by blast
next
  case new
  have "er_key row = k" "er_idem row = ei_idem i" "er_id row = ei_id i" by (simp_all add: new(2))
  then show ?thesis by (simp add: new(1) view_event)
qed

lemma transition_identity_once:
  assumes ok: "store_ok st" and d0: "current d0 st"
    and first: "transitionInTx d0 nxt i st = Inr (d, st')" and later: "good st' st''"
    and load: "loadDelivery (d_key d0) st'' = Inr d1"
    and ids: "ei_id j = ei_id i" "ei_idem j = ei_idem i"
  shows "transitionInTx d1 nxt' j st'' \<noteq> Inr (d2, st2)"
proof
  let ?k = "d_key d0" and ?p = "\<lambda>e. er_idem e = ei_idem i \<or> er_id e = ei_id i"
  assume again: "transitionInTx d1 nxt' j st'' = Inr (d2, st2)"
  from first obtain row p fp stx where app0: "appendDeliveryEvent ?k DeliveryEventTransitioned p i fp stx = Inr (row, st')"
    by (auto simp: transitionInTx_def tx_simps Let_def)
  have "row_find ?p (v_log (view ?k st')) \<noteq> None"
    unfolding row_find_None using append_member [OF app0] by blast
  then obtain x where x0: "row_find ?p (v_log (view ?k st')) = Some x" by blast
  have pre: "prefix (v_log (view ?k st')) (v_log (view ?k st''))" and ok2: "store_ok st''"
    using later unfolding good_def grows_def by blast+
  have x: "row_find ?p (v_log (view ?k st'')) = Some x" by (rule row_find_prefix [OF pre x0])
  from store_ok_load [OF ok2 load] obtain d3 where
    d3: "log_ok (v_log (view ?k st'')) d3" "same_aggregate d3 d1" by blast
  from again load_key [OF load] obtain f row1 where
    app1: "appendDeliveryEvent ?k DeliveryEventTransitioned (PTransitioned (d_state d1) nxt' (d_version d1 + 1)) j FPNone
       (set_delivery_row ?k f st'') = Inr (row1, st2)"
    by (auto simp: transitionInTx_def tx_simps Let_def Transition_Inr)
  have log: "v_log (view ?k (set_delivery_row ?k f st'')) = v_log (view ?k st'')"
    by (simp add: view_def log_rows_def set_delivery_row_def)
  from app1 show False
  proof (cases rule: appendE)
    case old
    then show False
      using transition_event_new [OF d3(1), of "PTransitioned (d_state d1) nxt' (d_version d1 + 1)" row1]
        same_aggregate_scalars [OF d3(2)] by (simp add: log)
  next
    case new
    have "row_find ?p (v_log (view ?k st'')) = None"
      using new(3) by (simp only: row_find_key log ids)
    with x show False by simp
  qed
qed

text \<open>
  Under one epoch a lease moves its delivery into a state at most once: the event of the move is
  identified by the delivery, the state and the epoch, so a second move into the same state is
  refused although the transition table allows a delivery to return to a state.
\<close>

theorem lease_transition_once:
  assumes first: "run_tx (TransitionLease now1 now2 l nxt) (after sh ops) = (Inr d, st')"
    and again: "d_key (le_delivery l') = d_key (le_delivery l)" "le_epoch l' = le_epoch l"
  shows "\<exists>e. fst (run_tx (TransitionLease now3 now4 l' nxt) (fold (store_step sh) ops' st')) = Inl e"
proof (cases "fst (run_tx (TransitionLease now3 now4 l' nxt) (fold (store_step sh) ops' st'))")
  case (Inr d2)
  define act where "act = ''transition-'' @ state_text nxt"
  let ?t = "fold (store_step sh) ops' st'" and ?k = "d_key (le_delivery l)"
  from first have run1: "TransitionLease now1 now2 l nxt (after sh ops) = Inr (d, st')" by (simp add: run_tx_Inr)
  from run1 obtain d0 where load0: "loadDelivery ?k (after sh ops) = Inr d0"
    and tr0: "transitionInTx d0 nxt (queueEventIdentity (delivery_id (d_key d0)) act (le_epoch l) now2)
       (after sh ops) = Inr (d, st')"
    unfolding act_def by (auto simp: TransitionLease_def tx_simps)
  have "store_ok st'"
    using keepsD [OF TransitionLease_keeps run1 good_refl [OF run_ok]] by (simp add: good_def)
  then have good2: "good st' ?t" by (rule run_grows)
  from Inr obtain st2 where "TransitionLease now3 now4 l' nxt ?t = Inr (d2, st2)"
    by (metis prod.collapse run_tx_Inr)
  then obtain d1 where load1: "loadDelivery ?k ?t = Inr d1"
    and tr1: "transitionInTx d1 nxt (queueEventIdentity (delivery_id (d_key d1)) act (le_epoch l) now4) ?t = Inr (d2, st2)"
    unfolding act_def using again by (auto simp: TransitionLease_def tx_simps)
  have keys: "d_key d0 = ?k" "d_key d1 = ?k" using load_key [OF load0] load_key [OF load1] by simp_all
  have cur: "current d0 (after sh ops)" using load_current [OF run_ok load0] by simp
  have "transitionInTx d1 nxt (queueEventIdentity (delivery_id (d_key d1)) act (le_epoch l) now4) ?t \<noteq> Inr (d2, st2)"
    by (rule transition_identity_once [OF run_ok cur tr0 good2])
      (simp_all add: keys load1 queueEventIdentity_def Let_def)
  with tr1 show ?thesis by contradiction
qed simp

text \<open>
  Cancelling needs a queue row: a delivery admitted without being queued cannot be cancelled,
  although the table has a transition from admitted to cancellation requested. The call fails and
  leaves the delivery as it was.
\<close>

theorem cancel_needs_queue_row:
  assumes "store_Load k (after sh ops) = Inr d" and "row_find (\<lambda>q. q_key q = k) (t_queue (after sh ops)) = None"
    and "d_state d = DeliveryAdmitted"
  shows "validDeliveryTransition (d_state d) DeliveryCancelRequested \<and>
    (\<exists>e. run_tx (Cancel now k) (after sh ops) = (Inl e, after sh ops))"
proof
  show "validDeliveryTransition (d_state d) DeliveryCancelRequested"
    by (simp add: assms(3) validDeliveryTransition_def isTerminalDeliveryState_def)
  have load: "loadDelivery k (after sh ops) = Inr d" using assms(1) by (simp add: store_Load_def split: if_splits)
  show "\<exists>e. run_tx (Cancel now k) (after sh ops) = (Inl e, after sh ops)"
  proof (cases "Cancel now k (after sh ops)")
    case (Inl e)
    then show ?thesis by (simp add: run_tx_def)
  next
    case (Inr p)
    then have "row_count (\<lambda>q. q_key q = k) (t_queue (after sh ops)) = 1"
      by (cases p) (auto simp: Cancel_def tx_simps load assms(3) isTerminalDeliveryState_def update_queue_one_def
          requireChanged_def split: if_splits dest!: transitionInTx_queue)
    moreover have "row_count (\<lambda>q. q_key q = k) (t_queue (after sh ops)) = 0" using assms(2) by (simp only: row_count_0)
    ultimately show ?thesis by simp
  qed
qed

section \<open>A sample run\<close>

text \<open>
  The sample delivery is claimed for ten seconds and, when that lease has expired, claimed again;
  it is then moved under the second lease, or cancelled. A second delivery is admitted unqueued.
\<close>

definition sample_claims :: "store_op list" where
  "sample_claims = sample_ops @ [DoClaim 2000000000 ''w'' 10000000000]"

definition sample_lease :: lease where
  "sample_lease = projr (fst (run_tx (Claim 2000000000 ''w'' 10000000000) (after sample_env sample_ops)))"

lemma sample_held: "valid_lease sample_lease 3000000000 (after sample_env sample_claims)"
  by code_simp

lemma sample_second:
  "\<not> isl (fst (run_tx (Claim 20000000000 ''x'' 10000000000) (after sample_env sample_claims)))"
  "map_sum (\<lambda>e. ()) (\<lambda>l. d_key (le_delivery l)) (fst (run_tx (Claim 20000000000 ''x'' 10000000000) (after sample_env sample_claims))) =
     Inr (d_key (le_delivery sample_lease))"
  by code_simp+

theorem claim_fences_witness:
  "\<exists>st'. store_step sample_env (DoRelease 21000000000 sample_lease) st' = st'"
proof -
  from not_isl_Inr [OF sample_second(1)] obtain l st' where run:
    "run_tx (Claim 20000000000 ''x'' 10000000000) (after sample_env sample_claims) = (Inr l, st')" by (metis prod.collapse)
  with sample_second(2) have "d_key (le_delivery sample_lease) = d_key (le_delivery l)" by simp
  from claim_fences [OF run sample_held this, of "DoRelease 21000000000 sample_lease" "[]"] show ?thesis by auto
qed

theorem claim_leases_witness:
  "\<exists>(q::queue_row) (l::lease). q_key q = d_key (le_delivery l) \<and> le_epoch l = q_epoch q + 1 \<and> le_owner l = ''x''"
proof -
  from not_isl_Inr [OF sample_second(1)] obtain l st' where run:
    "run_tx (Claim 20000000000 ''x'' 10000000000) (after sample_env sample_claims) = (Inr l, st')" by (metis prod.collapse)
  from claim_leases [OF run] show ?thesis by blast
qed

definition sample_copy :: lease where
  "sample_copy = sample_lease\<lparr>le_attempt := 7, le_heartbeat := 0\<rparr>"

lemma sample_copy_held:
  "valid_lease sample_copy 11000000000 (after sample_env sample_claims)" "d_key (le_delivery sample_lease) = d_key (le_delivery sample_copy)"
  by code_simp+

theorem lease_exclusive_witness:
  "le_owner sample_lease = le_owner sample_copy \<and> le_epoch sample_lease = le_epoch sample_copy"
  by (rule lease_exclusive [OF sample_held sample_copy_held])

lemma sample_cancelled: "\<not> isl (fst (run_tx (Cancel 4000000000 sample_key) (after sample_env sample_claims)))"
  "\<not> valid_lease sample_lease 3000000000 (snd (run_tx (Cancel 4000000000 sample_key) (after sample_env sample_claims)))"
  "d_key (le_delivery sample_lease) = sample_key"
  by code_simp+

theorem cancel_fences_witness:
  "\<exists>st'. store_step sample_env (DoRelease 5000000000 sample_lease) st' = st'"
proof -
  from not_isl_Inr [OF sample_cancelled(1)] obtain u st' where run:
    "run_tx (Cancel 4000000000 sample_key) (after sample_env sample_claims) = (Inr u, st')" by (metis prod.collapse)
  with sample_held sample_cancelled(2) have "st' \<noteq> after sample_env sample_claims" by auto
  from cancel_fences [OF run this, of "[]", THEN conjunct1, rule_format, of sample_lease 3000000000
      "DoRelease 5000000000 sample_lease"] sample_held sample_cancelled(3) show ?thesis by auto
qed

lemma sample_moved:
  "\<not> isl (fst (run_tx (TransitionLease 3000000000 3000000000 sample_lease DeliveryReconciling) (after sample_env sample_claims)))"
  by code_simp

theorem lease_transition_once_witness:
  "\<exists>st' e. fst (run_tx (TransitionLease 5000000000 5000000000 sample_lease DeliveryReconciling)
     (fold (store_step sample_env) [DoTransitionLease 4000000000 4000000000 sample_lease DeliveryRunning] st')) = Inl e \<and>
   validDeliveryTransition DeliveryRunning DeliveryReconciling"
proof -
  from not_isl_Inr [OF sample_moved] obtain d st' where run:
    "run_tx (TransitionLease 3000000000 3000000000 sample_lease DeliveryReconciling) (after sample_env sample_claims) = (Inr d, st')"
    by (metis prod.collapse)
  have "validDeliveryTransition DeliveryRunning DeliveryReconciling" by code_simp
  with lease_transition_once [OF run refl refl, of 5000000000 5000000000
      "[DoTransitionLease 4000000000 4000000000 sample_lease DeliveryRunning]"] show ?thesis by blast
qed

definition sample_unqueued :: "store_op list" where
  "sample_unqueued = [DoAdmit sample_admission False 1000000000]"

lemma sample_admitted:
  "map_sum (\<lambda>e. ()) d_state (store_Load sample_key (after sample_env sample_unqueued)) = Inr DeliveryAdmitted"
  "row_find (\<lambda>q. q_key q = sample_key) (t_queue (after sample_env sample_unqueued)) = None"
  by code_simp+

theorem cancel_needs_queue_row_witness:
  "\<exists>e. run_tx (Cancel 2000000000 sample_key) (after sample_env sample_unqueued) = (Inl e, after sample_env sample_unqueued)"
proof -
  from sample_admitted(1) obtain d where "store_Load sample_key (after sample_env sample_unqueued) = Inr d" "d_state d = DeliveryAdmitted"
    by (cases "store_Load sample_key (after sample_env sample_unqueued)") auto
  from cancel_needs_queue_row [OF this(1) sample_admitted(2) this(2)] show ?thesis by blast
qed

end
