(* ===== verification/Delivery_Effects.thy ===== *)
theory Delivery_Effects
  imports Delivery_Leases
begin

text \<open>
  The effect journal under every call of the store: the rows of operations stay, keep what they
  were prepared with, and only move from prepared to running to observed or reconciled. So an
  effect is begun at most once.
\<close>

section \<open>Calls that leave journal and usage alone\<close>

definition same_journal :: "'a tx \<Rightarrow> bool" where
  "same_journal f = (\<forall>st x st'. f st = Inr (x, st') \<longrightarrow> t_operations st' = t_operations st \<and> t_usage st' = t_usage st)"

lemma same_journalI:
  "(\<And>st x st'. f st = Inr (x, st') \<Longrightarrow> t_operations st' = t_operations st \<and> t_usage st' = t_usage st) \<Longrightarrow> same_journal f"
  unfolding same_journal_def by blast

lemma same_journalD:
  "same_journal f \<Longrightarrow> f st = Inr (x, st') \<Longrightarrow> t_operations st' = t_operations st \<and> t_usage st' = t_usage st"
  unfolding same_journal_def by blast

lemma append_journal:
  "appendDeliveryEvent k ty p i fp st = Inr (row, st') \<Longrightarrow> t_operations st' = t_operations st \<and> t_usage st' = t_usage st"
  by (erule appendE) simp_all

lemma transition_journal:
  "transitionInTx d nxt i st = Inr (d', st') \<Longrightarrow> t_operations st' = t_operations st \<and> t_usage st' = t_usage st"
  by (auto simp: transitionInTx_def tx_simps Let_def set_delivery_row_def dest!: append_journal)

lemma insertQueueRow_journal:
  "insertQueueRow q st = Inr (u, st') \<Longrightarrow> t_operations st' = t_operations st \<and> t_usage st' = t_usage st"
  by (auto simp: insertQueueRow_def tx_simps split: if_splits)

lemma set_journal [simp]:
  "t_operations (set_queue p f st) = t_operations st" "t_usage (set_queue p f st) = t_usage st"
  "t_operations (set_attempts p' f' st) = t_operations st" "t_usage (set_attempts p' f' st) = t_usage st"
  "t_operations (set_delivery_row k f'' st) = t_operations st" "t_usage (set_delivery_row k f'' st) = t_usage st"
  by (simp_all add: set_queue_def set_attempts_def set_delivery_row_def)

lemma update_queue_one_journal:
  "update_queue_one p f st = Inr (u, st') \<Longrightarrow> t_operations st' = t_operations st \<and> t_usage st' = t_usage st"
  by (auto simp: update_queue_one_def requireChanged_def tx_simps)

lemmas journals = append_journal transition_journal insertQueueRow_journal update_queue_one_journal

lemma queue_calls_journal:
  "same_journal (QueueAdmitted now k v)" "same_journal (Heartbeat now l duration)"
  "same_journal (TransitionLease now now2 l nxt)" "same_journal (SignalWaiting now k s)"
  "same_journal (WithLeaseEffect now l duration ok)"
  by (rule same_journalI, auto simp: QueueAdmitted_def Heartbeat_def TransitionLease_def SignalWaiting_def
      WithLeaseEffect_def tx_simps dest!: journals)+

lemma updateAttempt_journal: "same_journal (updateAttempt now l f)"
  by (rule same_journalI) (auto simp: updateAttempt_def requireChanged_def tx_simps Let_def)

lemma Release_journal: "same_journal (Release now l)"
  by (rule same_journalI) (auto simp: Release_def tx_simps split: if_splits dest!: journals)

lemma Finalize_journal: "same_journal (Finalize now l oc)"
  by (rule same_journalI)
    (auto simp: Finalize_def finish_attempt_def requireChanged_def Let_def tx_simps split: if_splits dest!: journals)

lemma Cancel_journal: "same_journal (Cancel now k)"
  by (rule same_journalI) (auto simp: Cancel_def tx_simps split: if_splits dest!: journals)

lemma Claim_journal: "same_journal (Claim now owner duration)"
  by (rule same_journalI)
    (auto simp: Claim_def claim_row_def claim_transitions_def insertAttempt_def Let_def tx_simps
      split: if_splits option.splits dest!: journals)

lemma append_tx_journal: "same_journal (append_tx k ty p i)"
  by (rule same_journalI) (auto simp: append_tx_def tx_simps dest!: journals)

lemma admit_tx_journal: "same_journal (admit_tx a fp runnable)"
proof (rule same_journalI)
  fix st d st'
  assume run: "admit_tx a fp runnable st = Inr (d, st')"
  have again: "t_operations st' = t_operations st \<and> t_usage st' = t_usage st"
    if "admit_again a fp runnable r st = Inr (d, st')" for r
    using that by (cases rule: admit_again_cases)
      (auto simp: ensureQueueRow_def tx_simps split: if_splits dest!: journals)
  have "t_operations st' = t_operations st \<and> t_usage st' = t_usage st"
    if "admit_new a fp runnable st = Inr (d, st')"
    using that by (auto simp: admit_new_rows admit_rows_def admit_queue_def Let_def tx_simps split: if_splits
        dest!: journals insertGoal_effect)
  with again run show "t_operations st' = t_operations st \<and> t_usage st' = t_usage st"
    by (auto simp: admit_tx_def split: option.splits)
qed

lemma mutate_journal:
  assumes "\<And>d. same_journal (mu d)"
  shows "t_operations (snd (mutate obs now k v ty i0 fp mu st)) = t_operations st \<and>
    t_usage (snd (mutate obs now k v ty i0 fp mu st)) = t_usage st"
proof (cases rule: mutate_cases [of obs now k v ty i0 fp mu st])
  case unchanged
  then show ?thesis by simp
next
  case (applied d2 st2 d)
  from applied(5) obtain x st1 where "mu d st = Inr (x, st1)" "t_operations st2 = t_operations st1 \<and> t_usage st2 = t_usage st1"
    by (auto simp: apply_mutation_def Let_def split: sum.splits if_splits dest!: append_journal)
  with same_journalD [OF assms] applied(1) show ?thesis by fastforce
qed

lemma change_journal:
  "t_operations (snd (make_change obs now k v i ch st)) = t_operations st \<and>
   t_usage (snd (make_change obs now k v i ch st)) = t_usage st"
proof -
  have "same_journal (transition_mutation nxt d)" for nxt d
    by (rule same_journalI) (auto simp: transition_mutation_def tx_simps)
  moreover have "same_journal (goal_mutation g rs d)" for g rs d
    by (rule same_journalI) (auto simp: goal_mutation_def tx_simps split: if_splits dest!: insertGoal_effect)
  moreover have "same_journal (requirement_mutation rid status w d)" for rid status w d
    by (rule same_journalI) (auto simp: requirement_mutation_def Let_def tx_simps split: if_splits)
  moreover have "same_journal (request_mutation dec d)" for dec d
    by (rule same_journalI) (auto simp: request_mutation_def tx_simps split: if_splits dest!: insert_decision_effect)
  moreover have "same_journal (resolve_mutation did res d)" for did res d
    by (rule same_journalI) (auto simp: resolve_mutation_def tx_simps split: if_splits dest!: insert_resolution_effect)
  ultimately show ?thesis
    by (cases ch) (simp_all add: store_Transition_def ReviseGoal_def UpdateRequirement_def RequestDecision_def
        ResolveDecision_def Let_def mutate_journal)
qed

lemma run_journal:
  "same_journal f \<Longrightarrow> t_operations (snd (run_tx f st)) = t_operations st \<and> t_usage (snd (run_tx f st)) = t_usage st"
  by (auto simp: run_tx_def dest: same_journalD split: sum.splits)

text \<open>The calls that write the journal or usage.\<close>

fun journal_op :: "store_op \<Rightarrow> bool" where
  "journal_op (DoPrepare now1 now2 l o1) = True"
| "journal_op (DoBegin now l oid) = True"
| "journal_op (DoObserve now l oid res out err) = True"
| "journal_op (DoReconcileOperation now l oid evid out res) = True"
| "journal_op op1 = False"

fun usage_op :: "store_op \<Rightarrow> bool" where
  "usage_op (DoReserve now k l q) = True"
| "usage_op (DoReconcile k call a) = True"
| "usage_op (DoMarkUnknown k call active provider) = True"
| "usage_op (DoCancelReservation k call) = True"
| "usage_op op1 = False"

lemma append_event_journal:
  "t_operations (snd (AppendEvent now k ty raw i st)) = t_operations st \<and>
   t_usage (snd (AppendEvent now k ty raw i st)) = t_usage st"
  by (auto simp: AppendEvent_def run_tx_def tx_bind_def tx_read_def tx_return_def
      split: sum.splits dest: append_journal)

lemma other_step_journal:
  assumes "\<not> journal_op op1" and "\<not> usage_op op1"
  shows "t_operations (store_step sh op1 st) = t_operations st \<and> t_usage (store_step sh op1 st) = t_usage st"
proof (cases op1)
  case (DoAdmit a runnable now)
  then show ?thesis by (auto simp: admit_def run_journal admit_tx_journal split: sum.splits)
qed (use assms in \<open>simp_all add: run_journal queue_calls_journal updateAttempt_journal Release_journal Finalize_journal
    Cancel_journal Claim_journal change_journal append_event_journal Checkpoint_def PublishResult_def\<close>)

section \<open>How the journal moves\<close>

definition status_rank :: "operation_status \<Rightarrow> nat" where
  "status_rank s = (case s of OperationPrepared \<Rightarrow> 0 | OperationRunning \<Rightarrow> 1 | _ \<Rightarrow> 2)"

text \<open>A row keeps what it was prepared with and its status rises, or the row does not change.\<close>

definition op_up :: "operation_row \<Rightarrow> operation_row \<Rightarrow> bool" where
  "op_up a b = (op_key b = op_key a \<and> op_id b = op_id a \<and> op_effect b = op_effect a \<and> op_kind b = op_kind a \<and>
     op_role b = op_role a \<and> op_node b = op_node a \<and> op_descriptor b = op_descriptor a \<and> op_class b = op_class a \<and>
     op_input b = op_input a \<and> op_arguments b = op_arguments a \<and> op_path b = op_path a \<and>
     op_expected b = op_expected a \<and> op_revision b = op_revision a \<and>
     (b = a \<or> status_rank (op_status a) < status_rank (op_status b)))"

definition ops_ok :: "store \<Rightarrow> bool" where
  "ops_ok st = (distinct (map (\<lambda>o1. (op_key o1, op_id o1)) (t_operations st)) \<and>
     distinct (map (\<lambda>o1. (op_key o1, op_effect o1)) (t_operations st)))"

definition ops_le :: "store \<Rightarrow> store \<Rightarrow> bool" where
  "ops_le st st' = (\<exists>g new. t_operations st' = map g (t_operations st) @ new \<and> (\<forall>a \<in> set (t_operations st). op_up a (g a)))"

lemma op_up_refl [simp]: "op_up a a"
  by (simp add: op_up_def)

lemma op_up_trans: "op_up a b \<Longrightarrow> op_up b c \<Longrightarrow> op_up a c"
  unfolding op_up_def by (elim conjE, intro conjI) (auto dest: less_trans)

lemma ops_le_same: "t_operations st' = t_operations st \<Longrightarrow> ops_le st st'"
  unfolding ops_le_def by (intro exI [of _ id] exI [of _ "[]"]) simp

lemma ops_le_trans:
  assumes "ops_le a b" and "ops_le b c"
  shows "ops_le a c"
proof -
  from assms obtain g new h more where
    g: "t_operations b = map g (t_operations a) @ new" "\<forall>x \<in> set (t_operations a). op_up x (g x)" and
    h: "t_operations c = map h (t_operations b) @ more" "\<forall>x \<in> set (t_operations b). op_up x (h x)"
    unfolding ops_le_def by blast
  have "t_operations c = map (h \<circ> g) (t_operations a) @ (map h new @ more)" using g(1) h(1) by simp
  moreover have "\<forall>x \<in> set (t_operations a). op_up x ((h \<circ> g) x)"
    using g h(2) by (auto intro: op_up_trans)
  ultimately show ?thesis unfolding ops_le_def by blast
qed

definition moves_ops :: "'a tx \<Rightarrow> bool" where
  "moves_ops f = (\<forall>st x st'. ops_ok st \<longrightarrow> f st = Inr (x, st') \<longrightarrow> ops_ok st' \<and> ops_le st st')"

lemma moves_ops_run: "moves_ops f \<Longrightarrow> ops_ok st \<Longrightarrow> ops_ok (snd (run_tx f st)) \<and> ops_le st (snd (run_tx f st))"
  by (auto simp: run_tx_def moves_ops_def ops_le_same split: sum.splits)

lemma operation_event_ops: "appendOperationEvent k o1 ty st = Inr (row, st') \<Longrightarrow> t_operations st' = t_operations st"
  by (simp add: appendOperationEvent_def Let_def append_journal)

lemma ops_le_insert: "t_operations st' = t_operations st @ new \<Longrightarrow> ops_le st st'"
  unfolding ops_le_def by (intro exI [of _ id] exI [of _ new]) simp

lemma prepared_key: "op_key (prepared_row l n now o1) = d_key (le_delivery l) \<and> op_id (prepared_row l n now o1) = op_id o1 \<and>
    op_effect (prepared_row l n now o1) = op_effect o1"
  by (simp add: prepared_row_def)

lemma PrepareOperation_moves: "moves_ops (PrepareOperation now1 now2 l o1)"
  unfolding moves_ops_def
proof (intro allI impI)
  fix st x st'
  assume ok: "ops_ok st" and run: "PrepareOperation now1 now2 l o1 st = Inr (x, st')"
  let ?k = "d_key (le_delivery l)"
  from run obtain n where step: "(case row_find (\<lambda>x. op_key x = ?k \<and> op_id x = op_id o1) (t_operations st) of
        Some ex \<Rightarrow> prepare_existing ex o1 n | None \<Rightarrow> prepare_new l n now2 o1) st = Inr (x, st')"
    by (auto simp: PrepareOperation_def Let_def tx_simps)
  show "ops_ok st' \<and> ops_le st st'"
  proof (cases "row_find (\<lambda>x. op_key x = ?k \<and> op_id x = op_id o1) (t_operations st)")
    case (Some ex)
    with step have "st' = st" by (auto simp: prepare_existing_def tx_simps split: if_splits)
    with ok show ?thesis by (simp add: ops_le_same)
  next
    case None
    let ?o = "(prepared_row l n now2 o1)\<lparr>op_output := '''', op_result := '''', op_error := ''''\<rparr>"
    from None step have none: "row_find (\<lambda>x. op_key x = ?k \<and> op_effect x = op_effect o1) (t_operations st) = None"
      and ops: "t_operations st' = t_operations st @ [?o]"
      by (auto simp: prepare_new_def insertOperation_def Let_def tx_simps split: if_splits dest!: operation_event_ops)
    have "ops_ok st'"
      using ok None none unfolding ops_ok_def ops
      by (auto simp: row_find_None prepared_key)
    with ops_le_insert [OF ops] show ?thesis by blast
  qed
qed

lemma advance_ranks:
  assumes "advance_guard sh l s1 s2 out res err n o1 = Inr ()"
  shows "op_status o1 = s1"
  using assms by (auto simp: advance_guard_def split: if_splits)

lemma op_unique:
  assumes "ops_ok st" and "a \<in> set (t_operations st)" and "b \<in> set (t_operations st)"
    and "op_key a = op_key b" and "op_id a = op_id b"
  shows "a = b"
  using assms unfolding ops_ok_def by (simp add: distinct_map) (metis (mono_tags, lifting) inj_onD)

lemma loadOperation_mem:
  "loadOperation k oid st = Inr o1 \<Longrightarrow> o1 \<in> set (t_operations st) \<and> op_key o1 = k \<and> op_id o1 = oid"
  by (auto simp: loadOperation_def split: option.splits dest: row_find_SomeD)

lemma advance_effect:
  assumes "advanceOperation sh now l oid s1 s2 out res err st = Inr (o2, st')"
  obtains o1 n where "loadOperation (d_key (le_delivery l)) oid st = Inr o1"
    and "advance_guard sh l s1 s2 out res err n o1 = Inr ()"
    and "o2 = advanced_row l now s2 out res err o1"
    and "t_operations st' = row_update (\<lambda>x. op_key x = d_key (le_delivery l) \<and> op_id x = oid)
      (advanced_row l now s2 out res err) (t_operations st)"
proof -
  let ?k = "d_key (le_delivery l)"
  from assms obtain o1 n row where load: "loadOperation ?k oid st = Inr o1"
    and guard: "advance_guard sh l s1 s2 out res err n o1 = Inr ()" and o2: "o2 = advanced_row l now s2 out res err o1"
    and app: "appendOperationEvent ?k o2 (advance_event s2) (st\<lparr>t_operations :=
      row_update (\<lambda>x. op_key x = ?k \<and> op_id x = op_id o1) (advanced_row l now s2 out res err) (t_operations st)\<rparr>) = Inr (row, st')"
    by (auto simp: advanceOperation_def Let_def tx_simps)
  from load have "op_id o1 = oid" using loadOperation_mem by blast
  with operation_event_ops [OF app] show ?thesis by (intro that [OF load guard o2]) simp
qed

lemma advance_moves:
  assumes rank: "status_rank s1 < status_rank s2"
  shows "moves_ops (advanceOperation sh now l oid s1 s2 out res err)"
  unfolding moves_ops_def
proof (intro allI impI)
  fix st o2 st'
  assume ok: "ops_ok st" and run: "advanceOperation sh now l oid s1 s2 out res err st = Inr (o2, st')"
  let ?k = "d_key (le_delivery l)" and ?f = "advanced_row l now s2 out res err"
  let ?g = "\<lambda>x. if op_key x = ?k \<and> op_id x = oid then ?f x else x"
  obtain o1 n where load: "loadOperation ?k oid st = Inr o1"
    and guard: "advance_guard sh l s1 s2 out res err n o1 = Inr ()"
    and update: "t_operations st' = row_update (\<lambda>x. op_key x = ?k \<and> op_id x = oid) ?f (t_operations st)"
    by (rule advance_effect [OF run])
  have ops: "t_operations st' = map ?g (t_operations st)" by (simp only: update row_update_def)
  note mem = loadOperation_mem [OF load] and status = advance_ranks [OF guard]
  have up: "op_up x (?g x)" if "x \<in> set (t_operations st)" for x
  proof (cases "op_key x = ?k \<and> op_id x = oid")
    case True
    with op_unique [OF ok that, of o1] mem have "x = o1" by simp
    with status rank True show ?thesis by (simp add: op_up_def advanced_row_def)
  qed auto
  have "map (\<lambda>x. (op_key x, op_id x)) (map ?g (t_operations st)) = map (\<lambda>x. (op_key x, op_id x)) (t_operations st)"
    and "map (\<lambda>x. (op_key x, op_effect x)) (map ?g (t_operations st)) = map (\<lambda>x. (op_key x, op_effect x)) (t_operations st)"
    using up by (auto simp: op_up_def)
  with ok have "ops_ok st'" by (simp only: ops_ok_def ops)
  moreover have "ops_le st st'"
    unfolding ops_le_def using ops up by (intro exI [of _ ?g] exI [of _ "[]"]) simp
  ultimately show "ops_ok st' \<and> ops_le st st'" by blast
qed

lemma ranks: "status_rank OperationPrepared < status_rank OperationRunning"
  "status_rank OperationRunning < status_rank OperationObserved"
  "status_rank OperationRunning < status_rank OperationReconciled"
  by (simp_all add: status_rank_def)

lemma journal_moves:
  "moves_ops (BeginOperation sh now l oid)" "moves_ops (ObserveOperation jv sh now l oid res out err)"
  "moves_ops (ReconcileOperation jv sh now l oid evid out res)"
proof -
  show "moves_ops (BeginOperation sh now l oid)"
    using advance_moves [OF ranks(1)] by (simp add: BeginOperation_def)
  show "moves_ops (ObserveOperation jv sh now l oid res out err)"
    using advance_moves [OF ranks(2)] by (auto simp: ObserveOperation_def moves_ops_def tx_simps)
  show "moves_ops (ReconcileOperation jv sh now l oid evid out res)"
    using advance_moves [OF ranks(3)] by (auto simp: ReconcileOperation_def moves_ops_def tx_simps)
qed

lemma usage_step_ops: "usage_op op1 \<Longrightarrow> t_operations (store_step sh op1 st) = t_operations st"
proof (cases op1)
  case (DoReserve now k l q)
  have "t_operations (snd (run_tx (reserveUsage now k l q) st)) = t_operations st"
    by (auto simp: run_tx_def reserveUsage_def tx_bind_def tx_require_def tx_read_def tx_modify_def tx_return_def
        verifyLease_def split: sum.splits option.splits if_splits)
  with DoReserve show ?thesis by simp
next
  case (DoReconcile k call a)
  then show ?thesis
    by (simp add: ReconcileUsage_def reconcile_new_def update_usage_def Let_def split: sum.split option.split)
next
  case (DoMarkUnknown k call active provider)
  then show ?thesis
    by (simp add: run_tx_def markUsageUnknownWithDurations_def update_usage_one_def tx_bind_def tx_require_def
        tx_read_def tx_modify_def)
next
  case (DoCancelReservation k call)
  then show ?thesis
    by (simp add: run_tx_def CancelUnusedReservation_def update_usage_one_def tx_bind_def tx_require_def
        tx_read_def tx_modify_def)
qed simp_all

lemma step_ops:
  assumes "ops_ok st"
  shows "ops_ok (store_step sh op1 st) \<and> ops_le st (store_step sh op1 st)"
proof (cases "journal_op op1")
  case True
  then show ?thesis
    by (cases op1) (simp_all add: moves_ops_run [OF _ assms] PrepareOperation_moves journal_moves)
next
  case False
  have "t_operations (store_step sh op1 st) = t_operations st"
    using False other_step_journal [OF False] usage_step_ops by (cases "usage_op op1") auto
  with assms show ?thesis by (simp add: ops_ok_def ops_le_same)
qed

interpretation operations: monotone_machine "store_step sh" ops_ok ops_le for sh :: environment
  by unfold_locales (use step_ops ops_le_trans in \<open>auto simp: ops_le_same\<close>)

lemma empty_ops_ok: "ops_ok empty_store"
  by (simp add: ops_ok_def empty_store_def)

section \<open>An effect begins at most once\<close>

lemma ops_le_row:
  assumes "ops_le st st'" and "o1 \<in> set (t_operations st)"
  obtains o2 where "o2 \<in> set (t_operations st')" and "op_up o1 o2"
proof -
  from assms(1) obtain g new where "t_operations st' = map g (t_operations st) @ new" "\<forall>a \<in> set (t_operations st). op_up a (g a)"
    unfolding ops_le_def by blast
  with assms(2) show ?thesis by (intro that [of "g o1"]) auto
qed

lemma begun_row:
  assumes "ops_ok st" and "BeginOperation sh now l oid st = Inr (o2, st')"
  shows "o2 \<in> set (t_operations st') \<and> op_key o2 = d_key (le_delivery l) \<and> op_id o2 = oid \<and>
    op_status o2 = OperationRunning"
proof -
  obtain o1 n where load: "loadOperation (d_key (le_delivery l)) oid st = Inr o1"
    and o2: "o2 = advanced_row l now OperationRunning '''' '''' '''' o1"
    and update: "t_operations st' = row_update (\<lambda>x. op_key x = d_key (le_delivery l) \<and> op_id x = oid)
      (advanced_row l now OperationRunning '''' '''' '''') (t_operations st)"
    by (rule advance_effect [OF assms(2) [unfolded BeginOperation_def]])
  from loadOperation_mem [OF load] show ?thesis
    by (auto simp: o2 update set_row_update advanced_row_def)
qed

text \<open>The row of an effect that has begun, in any later store.\<close>

lemma begun_later:
  assumes "BeginOperation (snd sh) now l oid (after sh ops) = Inr (o2, st')"
  obtains o3 where "ops_ok (fold (store_step sh) ops' st')" and "o3 \<in> set (t_operations (fold (store_step sh) ops' st'))"
    and "op_key o3 = d_key (le_delivery l)" and "op_id o3 = oid" and "op_effect o3 = op_effect o2"
    and "op_status o3 \<noteq> OperationPrepared"
proof -
  have ok: "ops_ok (after sh ops)" by (rule operations.run_inv [OF empty_ops_ok])
  have ok': "ops_ok st'" using journal_moves(1) ok assms unfolding moves_ops_def by blast
  note row = begun_row [OF ok assms]
  from ops_le_row [OF operations.run_le [OF ok'] conjunct1 [OF row]]
  obtain o3 where "o3 \<in> set (t_operations (fold (store_step sh) ops' st'))" "op_up o2 o3" by blast
  moreover from this row have "op_status o3 \<noteq> OperationPrepared"
    by (auto simp: op_up_def status_rank_def)
  ultimately show ?thesis
    using that operations.run_inv [OF ok'] row by (auto simp: op_up_def)
qed

lemma loadOperation_unique:
  assumes "ops_ok st" and "o1 \<in> set (t_operations st)"
  shows "loadOperation (op_key o1) (op_id o1) st = Inr o1"
proof -
  obtain x where x: "row_find (\<lambda>x. op_key x = op_key o1 \<and> op_id x = op_id o1) (t_operations st) = Some x"
    using assms(2) by (cases "row_find (\<lambda>x. op_key x = op_key o1 \<and> op_id x = op_id o1) (t_operations st)")
      (auto simp: row_find_None)
  with op_unique [OF assms(1) _ assms(2), of x] have "x = o1" by (auto dest: row_find_SomeD)
  with x show ?thesis by (simp add: loadOperation_def)
qed

text \<open>
  C5. An effect begins at most once: after an operation was recorded as running, no later call
  records it as running again, whichever lease it comes under and whatever was done in between.
\<close>

theorem effect_begins_once:
  assumes "BeginOperation (snd sh) now l oid (after sh ops) = Inr (o2, st')"
    and "d_key (le_delivery l') = d_key (le_delivery l)"
  shows "\<exists>e. run_tx (BeginOperation (snd sh) now' l' oid) (fold (store_step sh) ops' st') =
    (Inl e, fold (store_step sh) ops' st')"
proof (cases "BeginOperation (snd sh) now' l' oid (fold (store_step sh) ops' st')")
  case (Inl e)
  then show ?thesis by (simp add: run_tx_Inl)
next
  case (Inr x)
  then obtain o4 st4 where again: "BeginOperation (snd sh) now' l' oid (fold (store_step sh) ops' st') = Inr (o4, st4)"
    by (cases x) simp
  obtain o3 where o3: "ops_ok (fold (store_step sh) ops' st')" "o3 \<in> set (t_operations (fold (store_step sh) ops' st'))"
    "op_key o3 = d_key (le_delivery l)" "op_id o3 = oid" "op_status o3 \<noteq> OperationPrepared"
    by (rule begun_later [OF assms(1)])
  obtain o1 n where "loadOperation (d_key (le_delivery l')) oid (fold (store_step sh) ops' st') = Inr o1"
    and "op_status o1 = OperationPrepared"
    by (rule advance_effect [OF again [unfolded BeginOperation_def]]) (use advance_ranks in blast)
  with loadOperation_unique [OF o3(1,2)] o3 assms(2) show ?thesis by simp
qed

text \<open>
  C29. An effect key belongs to one operation: once it has begun, preparing that effect again either
  fails or hands back the same operation, as one to reconcile while its outcome is unknown and as
  finished afterwards; never as one that may be begun.
\<close>

theorem effect_prepared_again:
  assumes "BeginOperation (snd sh) now l oid (after sh ops) = Inr (o2, st')"
    and "d_key (le_delivery l') = d_key (le_delivery l)" and "op_effect o1 = op_effect o2"
    and "PrepareOperation now1 now2 l' o1 (fold (store_step sh) ops' st') = Inr ((ex, err), st2)"
  shows "st2 = fold (store_step sh) ops' st' \<and> op_id ex = oid \<and> op_status ex \<noteq> OperationPrepared \<and>
    err = (if op_status ex = OperationRunning then Some ErrEffectNeedsReconciliation else None)"
proof -
  let ?k = "d_key (le_delivery l)" and ?t = "fold (store_step sh) ops' st'"
  obtain o3 where ok: "ops_ok ?t" and o3: "o3 \<in> set (t_operations ?t)"
    "op_key o3 = ?k" "op_id o3 = oid" "op_effect o3 = op_effect o2" "op_status o3 \<noteq> OperationPrepared"
    by (rule begun_later [OF assms(1)])
  have same: "x = o3" if "x \<in> set (t_operations ?t)" "op_key x = ?k" "op_effect x = op_effect o2" for x
    using ok o3 that unfolding ops_ok_def by (simp add: distinct_map) (metis (mono_tags, lifting) inj_onD)
  from assms(4) obtain n where step: "(case row_find (\<lambda>x. op_key x = ?k \<and> op_id x = op_id o1) (t_operations ?t) of
        Some ex \<Rightarrow> prepare_existing ex o1 n | None \<Rightarrow> prepare_new l' n now2 o1) ?t = Inr ((ex, err), st2)"
    by (auto simp: PrepareOperation_def Let_def tx_simps assms(2))
  show ?thesis
  proof (cases "row_find (\<lambda>x. op_key x = ?k \<and> op_id x = op_id o1) (t_operations ?t)")
    case None
    with step have "row_find (\<lambda>x. op_key x = ?k \<and> op_effect x = op_effect o1) (t_operations ?t) = None"
      by (auto simp: prepare_new_def Let_def tx_simps assms(2) split: if_splits)
    with o3 assms(3) show ?thesis by (auto simp: row_find_None)
  next
    case (Some r)
    with step have "op_effect r = op_effect o1" "ex = r" "st2 = ?t" and
      err: "err = (if op_status r = OperationRunning then Some ErrEffectNeedsReconciliation else None)"
      by (auto simp: prepare_existing_def operation_conflicts_def tx_simps split: if_splits)
    with same [of r] Some assms(3) have "r = o3" by (auto dest: row_find_SomeD)
    with \<open>ex = r\<close> \<open>st2 = ?t\<close> err o3 show ?thesis by simp
  qed
qed

section \<open>Outcomes are proved\<close>

text \<open>
  A row of the journal: what \<^verbatim>\<open>PrepareOperation\<close> admitted, in one of the four states, and, when it was
  reconciled, with the evidence of its outcome.
\<close>

definition op_wf :: "environment \<Rightarrow> operation_row \<Rightarrow> bool" where
  "op_wf sh o1 = (valid_operation o1 \<and>
     op_status o1 \<in> {OperationPrepared, OperationRunning, OperationObserved, OperationReconciled} \<and>
     (op_status o1 = OperationReconciled \<longrightarrow> reconcilable (snd sh) o1 (op_output o1) (op_result o1) (op_error o1)))"

definition journal_wf :: "environment \<Rightarrow> store \<Rightarrow> bool" where
  "journal_wf sh st = (\<forall>o1 \<in> set (t_operations st). op_wf sh o1)"

definition keeps_journal :: "environment \<Rightarrow> 'a tx \<Rightarrow> bool" where
  "keeps_journal sh f = (\<forall>st x st'. journal_wf sh st \<longrightarrow> f st = Inr (x, st') \<longrightarrow> journal_wf sh st')"

lemma keeps_journal_run: "keeps_journal sh f \<Longrightarrow> journal_wf sh st \<Longrightarrow> journal_wf sh (snd (run_tx f st))"
  by (auto simp: run_tx_def keeps_journal_def split: sum.splits)

lemma prepared_wf:
  "valid_operation o1 \<Longrightarrow> op_wf sh ((prepared_row l n now o1)\<lparr>op_output := '''', op_result := '''', op_error := ''''\<rparr>)"
  by (simp add: op_wf_def valid_operation_def prepared_row_def)

lemma PrepareOperation_journal_wf: "keeps_journal sh (PrepareOperation now1 now2 l o1)"
  unfolding keeps_journal_def
proof (intro allI impI)
  fix st x st'
  assume wf: "journal_wf sh st" and run: "PrepareOperation now1 now2 l o1 st = Inr (x, st')"
  let ?k = "d_key (le_delivery l)"
  from run obtain n where valid: "valid_operation o1" and
    step: "(case row_find (\<lambda>x. op_key x = ?k \<and> op_id x = op_id o1) (t_operations st) of
        Some ex \<Rightarrow> prepare_existing ex o1 n | None \<Rightarrow> prepare_new l n now2 o1) st = Inr (x, st')"
    by (auto simp: PrepareOperation_def Let_def tx_simps)
  show "journal_wf sh st'"
  proof (cases "row_find (\<lambda>x. op_key x = ?k \<and> op_id x = op_id o1) (t_operations st)")
    case (Some ex)
    with step wf show ?thesis by (auto simp: prepare_existing_def tx_simps split: if_splits)
  next
    case None
    with step have "t_operations st' = t_operations st @
        [(prepared_row l n now2 o1)\<lparr>op_output := '''', op_result := '''', op_error := ''''\<rparr>]"
      by (auto simp: prepare_new_def insertOperation_def Let_def tx_simps split: if_splits dest!: operation_event_ops)
    with wf prepared_wf [OF valid] show ?thesis by (simp add: journal_wf_def)
  qed
qed

lemma advanced_wf:
  assumes "op_wf sh o1" and "advance_guard (snd sh) l s1 s2 out res err n o1 = Inr ()"
    and "s2 \<in> {OperationRunning, OperationObserved, OperationReconciled}"
  shows "op_wf sh (advanced_row l now s2 out res err o1)"
  using assms by (auto simp: op_wf_def valid_operation_def advanced_row_def advance_guard_def reconcilable_def
      split: if_splits replay_class.splits)

lemma row_find_update:
  "row_find q rows = Some r \<Longrightarrow> \<forall>x \<in> set rows. P x \<Longrightarrow> P (f r) \<Longrightarrow> (\<And>x. x \<in> set rows \<Longrightarrow> q x \<Longrightarrow> x = r) \<Longrightarrow>
   \<forall>x \<in> set (row_update q f rows). P x"
  by (auto simp: set_row_update)

definition journal_inv :: "environment \<Rightarrow> store \<Rightarrow> bool" where
  "journal_inv sh st = (ops_ok st \<and> journal_wf sh st)"

lemma advance_journal_wf:
  assumes "s2 \<in> {OperationRunning, OperationObserved, OperationReconciled}" and "journal_inv sh st"
    and run: "advanceOperation (snd sh) now l oid s1 s2 out res err st = Inr (o2, st')"
  shows "journal_wf sh st'"
proof -
  let ?k = "d_key (le_delivery l)" and ?f = "advanced_row l now s2 out res err"
  have ok: "ops_ok st" and wf: "journal_wf sh st" using assms(2) by (simp_all add: journal_inv_def)
  obtain o1 n where load: "loadOperation ?k oid st = Inr o1"
    and guard: "advance_guard (snd sh) l s1 s2 out res err n o1 = Inr ()"
    and update: "t_operations st' = row_update (\<lambda>x. op_key x = ?k \<and> op_id x = oid) ?f (t_operations st)"
    by (rule advance_effect [OF run])
  note mem = loadOperation_mem [OF load]
  with wf have "op_wf sh (?f o1)" by (intro advanced_wf [OF _ guard assms(1)]) (simp add: journal_wf_def)
  moreover have "x = o1" if "x \<in> set (t_operations st)" "op_key x = ?k \<and> op_id x = oid" for x
    using op_unique [OF ok that(1), of o1] that mem by simp
  ultimately show ?thesis using wf by (auto simp: journal_wf_def update set_row_update)
qed

lemma journal_wf_same: "t_operations st' = t_operations st \<Longrightarrow> journal_wf sh st \<Longrightarrow> journal_wf sh st'"
  by (simp add: journal_wf_def)

lemma run_tx_cases: "(\<And>x st'. f st = Inr (x, st') \<Longrightarrow> P st') \<Longrightarrow> P st \<Longrightarrow> P (snd (run_tx f st))"
  by (auto simp: run_tx_def split: sum.splits)

lemma step_journal_wf:
  assumes "journal_inv sh st"
  shows "journal_wf sh (store_step sh op1 st)"
proof -
  have wf: "journal_wf sh st" using assms by (simp add: journal_inv_def)
  have adv: "journal_wf sh (snd (run_tx (advanceOperation (snd sh) now l oid s1 s2 out res err) st))"
    if "s2 \<in> {OperationRunning, OperationObserved, OperationReconciled}" for now l oid s1 s2 out res err
    by (rule run_tx_cases [where P = "journal_wf sh"]) (rule advance_journal_wf [OF that assms], assumption, rule wf)
  have fail: "snd (run_tx (tx_fail e) st) = st" for e by (simp add: run_tx_def tx_fail_def)
  show ?thesis
  proof (cases "journal_op op1")
    case True
    then show ?thesis
      by (cases op1) (simp_all add: keeps_journal_run [OF PrepareOperation_journal_wf wf] BeginOperation_def
          ObserveOperation_def ReconcileOperation_def adv fail wf)
  next
    case False
    then have "t_operations (store_step sh op1 st) = t_operations st"
      using other_step_journal [OF False] usage_step_ops by (cases "usage_op op1") auto
    then show ?thesis by (rule journal_wf_same [OF _ wf])
  qed
qed

lemma op_wf_facts:
  assumes "op_wf sh o1"
  shows "valid_operation o1 \<and>
    op_status o1 \<in> {OperationPrepared, OperationRunning, OperationObserved, OperationReconciled} \<and>
    (op_status o1 = OperationReconciled \<longrightarrow>
      op_class o1 = ReplayFingerprintedWrite \<and> op_output o1 = op_expected o1 \<and> op_expected o1 \<noteq> '''' \<or>
      op_class o1 = ReplayIdempotentExternal \<and> op_output o1 = snd sh (op_result o1))"
  using assms by (cases "op_class o1") (auto simp: op_wf_def reconcilable_def split: if_splits)

interpretation journal: machine "store_step sh" "journal_inv sh" for sh :: environment
  by unfold_locales (use step_journal_wf step_ops in \<open>auto simp: journal_inv_def\<close>)

text \<open>
  C32. Every operation of the journal is as \<^verbatim>\<open>PrepareOperation\<close> admits it and in one of its four
  states, its identifier and its effect key are its own within the delivery, and a reconciled one
  carries the evidence of its outcome: a file whose content hash is the expected one, or a
  destination that reports the digest of the recorded result.
\<close>

theorem journal_well_formed:
  "let os = t_operations (after sh ops) in
     (\<forall>o1 \<in> set os. valid_operation o1 \<and>
        op_status o1 \<in> {OperationPrepared, OperationRunning, OperationObserved, OperationReconciled} \<and>
        (op_status o1 = OperationReconciled \<longrightarrow>
          op_class o1 = ReplayFingerprintedWrite \<and> op_output o1 = op_expected o1 \<and> op_expected o1 \<noteq> '''' \<or>
          op_class o1 = ReplayIdempotentExternal \<and> op_output o1 = snd sh (op_result o1))) \<and>
     distinct (map (\<lambda>o1. (op_key o1, op_id o1)) os) \<and> distinct (map (\<lambda>o1. (op_key o1, op_effect o1)) os)"
proof -
  have "journal_wf sh empty_store" by (simp add: journal_wf_def empty_store_def)
  then have "journal_inv sh empty_store" by (simp add: journal_inv_def empty_ops_ok)
  from journal.run_inv [OF this, of ops] have inv: "journal_inv sh (after sh ops)" .
  then have "op_wf sh o1" if "o1 \<in> set (t_operations (after sh ops))" for o1
    using that by (simp add: journal_inv_def journal_wf_def)
  with op_wf_facts inv show ?thesis unfolding Let_def journal_inv_def ops_ok_def by blast
qed

text \<open>
  A running operation is observed only under the lease that began it (owner, epoch and attempt);
  any other holder of the delivery must reconcile it.
\<close>

theorem observation_by_beginner:
  assumes "BeginOperation (snd sh) now l oid (after sh ops) = Inr (o2, st')"
    and "ObserveOperation (fst sh) (snd sh) now' l' oid res out err st' = Inr (o3, st2)"
    and "d_key (le_delivery l') = d_key (le_delivery l)"
  shows "le_owner l' = le_owner l \<and> le_epoch l' = le_epoch l \<and> le_attempt l' = le_attempt l \<and> op_status o3 = OperationObserved"
proof -
  have ok: "ops_ok (after sh ops)" by (rule operations.run_inv [OF empty_ops_ok])
  have ok': "ops_ok st'" using journal_moves(1) ok assms(1) unfolding moves_ops_def by blast
  note row = begun_row [OF ok assms(1)]
  have owner: "op_owner o2 = le_owner l \<and> op_epoch o2 = le_epoch l \<and> op_attempt o2 = le_attempt l"
    by (rule advance_effect [OF assms(1) [unfolded BeginOperation_def]]) (simp add: advanced_row_def)
  have obs: "advanceOperation (snd sh) now' l' oid OperationRunning OperationObserved out res err st' = Inr (o3, st2)"
    using assms(2) by (auto simp: ObserveOperation_def tx_simps split: if_splits)
  obtain o1 n where o1: "loadOperation (d_key (le_delivery l')) oid st' = Inr o1"
    "advance_guard (snd sh) l' OperationRunning OperationObserved out res err n o1 = Inr ()"
    "o3 = advanced_row l' now' OperationObserved out res err o1"
    by (rule advance_effect [OF obs])
  with loadOperation_unique [OF ok' conjunct1 [OF row]] row assms(3) have "o1 = o2" by simp
  with o1(2,3) owner show ?thesis by (auto simp: advance_guard_def advanced_row_def split: if_splits)
qed

section \<open>Instances\<close>

definition sample_operation :: operation_row where
  "sample_operation = \<lparr>op_key = sample_key, op_id = ''o'', op_effect = ''f'', op_kind = ''write'', op_role = '''',
     op_node = '''', op_descriptor = '''', op_class = ReplayFingerprintedWrite, op_input = ''i'', op_arguments = '''',
     op_path = ''p'', op_input_state = '''', op_expected = ''h'', op_output = '''', op_revision = 0,
     op_status = OperationPrepared, op_owner = '''', op_epoch = 0, op_attempt = 0, op_prepared = timestamp 0,
     op_updated = timestamp 0, op_result = '''', op_error = ''''\<rparr>"

definition sample_effect :: "store_op list" where
  "sample_effect = sample_claims @ [DoPrepare 3000000000 3000000000 sample_lease sample_operation]"

lemma sample_begins:
  "\<not> isl (BeginOperation (snd sample_env) 4000000000 sample_lease ''o'' (after sample_env sample_effect))"
  "map_sum (\<lambda>e. ()) (\<lambda>x. op_effect (fst x)) (BeginOperation (snd sample_env) 4000000000 sample_lease ''o''
     (after sample_env sample_effect)) = Inr (op_effect sample_operation)"
  by code_simp+

lemma sample_again:
  "map_sum (\<lambda>e. ()) (\<lambda>x. snd (fst x)) (PrepareOperation 5000000000 5000000000 sample_lease sample_operation
     (snd (run_tx (BeginOperation (snd sample_env) 4000000000 sample_lease ''o'') (after sample_env sample_effect)))) =
   Inr (Some ErrEffectNeedsReconciliation)"
  "\<not> isl (ObserveOperation (fst sample_env) (snd sample_env) 5000000000 sample_lease ''o'' '''' ''h'' ''''
     (snd (run_tx (BeginOperation (snd sample_env) 4000000000 sample_lease ''o'') (after sample_env sample_effect))))"
  by code_simp+

lemma sample_began:
  obtains o2 st' where "BeginOperation (snd sample_env) 4000000000 sample_lease ''o'' (after sample_env sample_effect) = Inr (o2, st')"
    and "st' = snd (run_tx (BeginOperation (snd sample_env) 4000000000 sample_lease ''o'') (after sample_env sample_effect))"
    and "op_effect sample_operation = op_effect o2"
  using sample_begins not_isl_Inr [OF sample_begins(1)] by (fastforce simp: run_tx_def)

theorem effect_begins_once_witness:
  "\<exists>st e. fst (run_tx (BeginOperation (snd sample_env) 6000000000 sample_lease ''o'')
     (fold (store_step sample_env) [DoHeartbeat 5000000000 sample_lease 10000000000] st)) = Inl e"
proof -
  obtain o2 st' where "BeginOperation (snd sample_env) 4000000000 sample_lease ''o'' (after sample_env sample_effect) = Inr (o2, st')"
    by (rule sample_began)
  from effect_begins_once [OF this refl, of 6000000000 "[DoHeartbeat 5000000000 sample_lease 10000000000]"]
  show ?thesis by (metis fst_conv)
qed

theorem effect_prepared_again_witness:
  "\<exists>(ex::operation_row). op_id ex = ''o'' \<and> op_status ex \<noteq> OperationPrepared"
proof -
  obtain o2 st' where run: "BeginOperation (snd sample_env) 4000000000 sample_lease ''o'' (after sample_env sample_effect) = Inr (o2, st')"
    and st': "st' = snd (run_tx (BeginOperation (snd sample_env) 4000000000 sample_lease ''o'') (after sample_env sample_effect))"
    and eff: "op_effect sample_operation = op_effect o2" by (rule sample_began)
  from sample_again(1) obtain ex err st2 where
    "PrepareOperation 5000000000 5000000000 sample_lease sample_operation (fold (store_step sample_env) [] st') = Inr ((ex, err), st2)"
    unfolding st' by (cases "PrepareOperation 5000000000 5000000000 sample_lease sample_operation
      (snd (run_tx (BeginOperation (snd sample_env) 4000000000 sample_lease ''o'') (after sample_env sample_effect)))") auto
  from effect_prepared_again [OF run refl eff this] show ?thesis by blast
qed

theorem observation_by_beginner_witness:
  "\<exists>o3. op_status (o3::operation_row) = OperationObserved"
proof -
  obtain o2 st' where run: "BeginOperation (snd sample_env) 4000000000 sample_lease ''o'' (after sample_env sample_effect) = Inr (o2, st')"
    and st': "st' = snd (run_tx (BeginOperation (snd sample_env) 4000000000 sample_lease ''o'') (after sample_env sample_effect))"
    by (rule sample_began)
  from not_isl_Inr [OF sample_again(2)] obtain x where
    "ObserveOperation (fst sample_env) (snd sample_env) 5000000000 sample_lease ''o'' '''' ''h'' '''' st' = Inr x"
    unfolding st' by blast
  then obtain o3 st2 where
    "ObserveOperation (fst sample_env) (snd sample_env) 5000000000 sample_lease ''o'' '''' ''h'' '''' st' = Inr (o3, st2)"
    by (cases x) simp
  from observation_by_beginner [OF run this refl] show ?thesis by blast
qed

definition sample_reconciled :: "store_op list" where
  "sample_reconciled = sample_effect @ [DoBegin 4000000000 sample_lease ''o'',
     DoReconcileOperation 5000000000 sample_lease ''o'' ''file-content:h'' ''h'' ''r'']"

lemma sample_reconciled_row:
  "map (\<lambda>o1. (op_status o1, op_class o1)) (t_operations (after sample_env sample_reconciled)) =
     [(OperationReconciled, ReplayFingerprintedWrite)]"
  by code_simp

theorem journal_well_formed_witness:
  "\<exists>o1 \<in> set (t_operations (after sample_env sample_reconciled)).
     op_status o1 = OperationReconciled \<and> valid_operation o1 \<and> op_output o1 = op_expected o1"
proof -
  from sample_reconciled_row obtain o1 where "t_operations (after sample_env sample_reconciled) = [o1]"
    "op_status o1 = OperationReconciled" "op_class o1 = ReplayFingerprintedWrite" by (auto simp: map_eq_Cons_conv)
  with journal_well_formed [of sample_env sample_reconciled] show ?thesis by (simp add: Let_def)
qed

end
