(* ===== verification/Delivery_Spending.thy ===== *)
theory Delivery_Spending
  imports Delivery_Effects
begin

text \<open>
  The spending authority under every call of the store: reservations stay within the cap of their
  delivery, what a call cost is recorded once, and the cumulative sums are the sums of the rows.
\<close>

declare split_paired_All [simp del] split_paired_Ex [simp del]

section \<open>What a call commits\<close>

text \<open>
  The money a call holds: its reservation while its outcome is open, then what it cost. The part of
  it that was authorised is never more than the reservation; the rest is an overrun.
\<close>

definition exposure :: "usage_row \<Rightarrow> int" where
  "exposure r = (case u_status r of
     UsageReserved \<Rightarrow> u_reserved r | UsageUnknown \<Rightarrow> u_reserved r | UsageReconciled \<Rightarrow> u_cost r | UsageCancelled \<Rightarrow> 0)"

definition committed :: "usage_row \<Rightarrow> int" where
  "committed r = (case u_status r of UsageReconciled \<Rightarrow> min (u_cost r) (u_reserved r) | _ \<Rightarrow> exposure r)"

definition overrun :: "usage_row \<Rightarrow> int" where
  "overrun r = (if u_status r = UsageReconciled then max 0 (u_cost r - u_reserved r) else 0)"

definition total :: "(usage_row \<Rightarrow> int) \<Rightarrow> dkey \<Rightarrow> store \<Rightarrow> int" where
  "total f k st = sum_list (map f (usage_rows k st))"

lemma exposure_split: "exposure r = committed r + overrun r"
  by (simp add: exposure_def committed_def overrun_def min_def max_def split: usage_status.split)

lemma total_add:
  assumes "\<And>r. f r = g r + h r"
  shows "total f k st = total g k st + total h k st"
proof -
  have "f = (\<lambda>r. g r + h r)" using assms by blast
  then show ?thesis by (simp add: total_def sum_list_addf)
qed

lemma committed_le: "committed r \<le> exposure r"
  by (simp add: exposure_def committed_def split: usage_status.split)

lemma total_split: "total exposure k st = total committed k st + total overrun k st"
  by (rule total_add [OF exposure_split])

lemma total_mono: "(\<And>r. f r \<le> g r) \<Longrightarrow> total f k st \<le> total g k st"
  unfolding total_def by (rule sum_list_mono)

section \<open>The cumulative sums\<close>

text \<open>The money of a call by where the sums keep it.\<close>

definition spent_of :: "usage_row \<Rightarrow> int" where
  "spent_of r = (if u_status r = UsageReconciled then u_cost r else 0)"

definition reserved_of :: "usage_row \<Rightarrow> int" where
  "reserved_of r = (if u_status r = UsageReserved \<or> u_status r = UsageUnknown then u_reserved r else 0)"

lemma exposure_sums: "exposure r = spent_of r + reserved_of r"
  by (simp add: exposure_def spent_of_def reserved_of_def split: usage_status.split)

lemma add_item_Inr: "add_item v s = Inr s' \<longleftrightarrow> 0 \<le> v \<and> s + v \<le> max_int64 \<and> s' = s + v"
  by (auto simp: add_item_def)

lemma add_duration_Inr: "add_duration v s = Inr s' \<longleftrightarrow> 0 \<le> v \<and> s + v \<le> max_int64 \<and> s' = s + v"
  by (auto simp: add_duration_def)

definition in_bounds :: "cumulative \<Rightarrow> bool" where
  "in_bounds c = (\<forall>x \<in> {cu_input c, cu_output c, cu_cache_read c, cu_cache_creation c, cu_spent c, cu_active c,
     cu_provider_ns c, cu_reserved c}. x \<le> max_int64)"

definition counted :: "usage_row \<Rightarrow> cumulative \<Rightarrow> cumulative \<Rightarrow> bool" where
  "counted r c c' = (cu_spent c' = cu_spent c + spent_of r \<and> cu_reserved c' = cu_reserved c + reserved_of r \<and>
     cu_unknown c' = cu_unknown c + (if u_status r = UsageUnknown then 1 else 0) \<and>
     cu_outstanding c' = cu_outstanding c + (if u_status r = UsageReserved \<or> u_status r = UsageUnknown then 1 else 0) \<and>
     cu_reconciled c' = cu_reconciled c + (if u_status r = UsageReconciled then 1 else 0) \<and>
     (in_bounds c \<longrightarrow> in_bounds c'))"

lemma count_row_counted:
  assumes "count_row r c = Inr c'"
  shows "counted r c c'"
  using assms
  by (cases "u_status r")
    (auto simp: count_row_def count_unknown_def count_outstanding_def count_reconciled_def and_then_Inr add_item_Inr
      add_duration_Inr counted_def spent_of_def reserved_of_def in_bounds_def split: if_splits)

lemma count_rows_sums:
  "count_rows rs c = Inr c' \<Longrightarrow>
     cu_spent c' = cu_spent c + sum_list (map spent_of rs) \<and> cu_reserved c' = cu_reserved c + sum_list (map reserved_of rs) \<and>
     cu_unknown c' = cu_unknown c + int (length (filter (\<lambda>r. u_status r = UsageUnknown) rs)) \<and>
     cu_outstanding c' = cu_outstanding c + int (length (filter (\<lambda>r. u_status r = UsageReserved \<or> u_status r = UsageUnknown) rs)) \<and>
     cu_reconciled c' = cu_reconciled c + int (length (filter (\<lambda>r. u_status r = UsageReconciled) rs)) \<and>
     (in_bounds c \<longrightarrow> in_bounds c')"
proof (induction rs arbitrary: c)
  case Nil
  then show ?case by simp
next
  case (Cons r rs)
  then obtain c1 where c1: "count_row r c = Inr c1" "count_rows rs c1 = Inr c'" by (auto simp: and_then_Inr)
  from count_row_counted [OF c1(1)] Cons.IH [OF c1(2)] show ?case
    by (auto simp: counted_def)
qed

lemma count_attempts_sums:
  "count_attempts ats c = Inr c' \<Longrightarrow>
     cu_spent c' = cu_spent c \<and> cu_reserved c' = cu_reserved c \<and> cu_unknown c' = cu_unknown c \<and>
     cu_outstanding c' = cu_outstanding c \<and> cu_reconciled c' = cu_reconciled c \<and> (in_bounds c \<longrightarrow> in_bounds c')"
proof (induction ats arbitrary: c)
  case (Cons a ats)
  then obtain s where s: "add_duration (at_active a) (cu_active c) = Inr s"
    "count_attempts ats (c\<lparr>cu_active := s\<rparr>) = Inr c'" by (auto simp: and_then_Inr)
  from Cons.IH [OF s(2)] s(1) show ?case by (auto simp: add_duration_Inr in_bounds_def)
qed simp

lemma usage_exact_sums:
  assumes "loadCumulativeUsage k st = Inr c"
  shows "cu_spent c = total spent_of k st \<and> cu_reserved c = total reserved_of k st \<and>
    cu_spent c + cu_reserved c = total exposure k st \<and> in_bounds c \<and>
    cu_unknown c = int (row_count (\<lambda>r. u_key r = k \<and> u_status r = UsageUnknown) (t_usage st)) \<and>
    cu_outstanding c = int (row_count (\<lambda>r. u_key r = k \<and> (u_status r = UsageReserved \<or> u_status r = UsageUnknown)) (t_usage st)) \<and>
    cu_reconciled c = int (row_count (\<lambda>r. u_key r = k \<and> u_status r = UsageReconciled) (t_usage st))"
proof -
  from assms obtain c1 where c1: "count_rows (usage_rows k st) zero_cumulative = Inr c1"
    and c2: "count_attempts (filter (\<lambda>a. at_key a = k) (t_attempts st)) c1 = Inr c"
    by (auto simp: loadCumulativeUsage_def and_then_Inr)
  have zero: "in_bounds zero_cumulative" by (simp add: in_bounds_def zero_cumulative_def)
  have both: "total exposure k st = total spent_of k st + total reserved_of k st"
    by (rule total_add [OF exposure_sums])
  from count_rows_sums [OF c1] count_attempts_sums [OF c2] zero show ?thesis
    unfolding both by (simp add: total_def zero_cumulative_def row_count_def conj_commute)
qed

section \<open>The rows under every call\<close>

text \<open>Rows are of existing deliveries, one for each call, with non-negative amounts.\<close>

definition usage_row_ok :: "usage_row \<Rightarrow> bool" where
  "usage_row_ok r = (0 \<le> u_reserved r \<and> 0 \<le> u_cost r \<and> u_call r \<noteq> '''')"

definition usage_ok :: "store \<Rightarrow> bool" where
  "usage_ok st = (distinct (map (\<lambda>r. (u_key r, u_call r)) (t_usage st)) \<and> (\<forall>r \<in> set (t_usage st). usage_row_ok r) \<and>
     (\<forall>r \<in> set (t_usage st). \<exists>d. store_Load (u_key r) st = Inr d) \<and>
     (\<forall>k d. store_Load k st = Inr d \<longrightarrow> 0 < d_max_cost d \<longrightarrow> total committed k st \<le> d_max_cost d))"

definition spending_inv :: "store \<Rightarrow> bool" where
  "spending_inv st = (store_ok st \<and> usage_ok st)"

text \<open>Rows that were reconciled or cancelled do not change.\<close>

definition usage_le :: "store \<Rightarrow> store \<Rightarrow> bool" where
  "usage_le st st' = (\<forall>r \<in> set (t_usage st). u_status r \<in> {UsageReconciled, UsageCancelled} \<longrightarrow> r \<in> set (t_usage st'))"

lemma later_cost:
  assumes "store_ok st" and "good st st'" and "store_Load k st = Inr d"
  obtains d' where "store_Load k st' = Inr d'" and "d_max_cost d' = d_max_cost d"
proof -
  obtain d0 d0' d' es i where "store_Load k st' = Inr d'" "same_aggregate d0 d" "same_aggregate d0' d'"
    "replay_from i d0 es = Inr d0'" "0 < i"
    by (rule later_load [OF assms])
  moreover from this have "d_max_cost d' = d_max_cost d"
    using replay_from_frame by (metis same_aggregate_scalars)
  ultimately show ?thesis using that by blast
qed

lemma row_exists:
  assumes "total f k st \<noteq> 0"
  shows "\<exists>r \<in> set (t_usage st). u_key r = k"
  using assms by (rule contrapos_np) (auto simp: total_def filter_empty_conv)

text \<open>A call that leaves usage alone: the deliveries of the rows persist with their caps.\<close>

lemma usage_ok_frame:
  assumes "spending_inv st" and "good st st'" and "t_usage st' = t_usage st"
  shows "usage_ok st'"
proof -
  have ok: "store_ok st" "usage_ok st" using assms(1) by (simp_all add: spending_inv_def)
  have tot: "total committed k st' = total committed k st" for k by (simp add: total_def assms(3))
  have "total committed k st' \<le> d_max_cost d'" if d': "store_Load k st' = Inr d'" "0 < d_max_cost d'" for k d'
  proof (cases "total committed k st = 0")
    case True
    with d'(2) show ?thesis by (simp add: tot)
  next
    case False
    from row_exists [OF this] obtain r where "r \<in> set (t_usage st)" "u_key r = k" by blast
    with ok(2) obtain d where d: "store_Load k st = Inr d" by (auto simp: usage_ok_def)
    obtain d2 where "store_Load k st' = Inr d2" "d_max_cost d2 = d_max_cost d"
      by (rule later_cost [OF ok(1) assms(2) d])
    with d d' ok(2) show ?thesis by (auto simp: tot usage_ok_def)
  qed
  moreover have "\<exists>d. store_Load (u_key r) st' = Inr d" if row: "r \<in> set (t_usage st')" for r
  proof -
    from row ok(2) assms(3) obtain d where "store_Load (u_key r) st = Inr d" by (auto simp: usage_ok_def)
    from later_cost [OF ok(1) assms(2) this] show ?thesis by blast
  qed
  ultimately show ?thesis using ok(2) by (simp add: usage_ok_def assms(3))
qed

text \<open>A call that updates open rows without raising what they commit.\<close>

lemma load_usage: "store_Load k (st\<lparr>t_usage := u\<rparr>) = store_Load k st"
proof -
  have "loadDelivery k (st\<lparr>t_usage := u\<rparr>) = loadDelivery k st"
    by (simp add: loadDelivery_view store_simps cong: list.case_cong)
      (simp add: delivery_of_row_def loadGoals_def loadRequirements_def loadDecisions_def decision_of_row_def
        requirement_of_row_def loadAcceptanceChecks_def split: list.split)
  then show ?thesis by (simp add: store_Load_def)
qed

definition lowers :: "(usage_row \<Rightarrow> bool) \<Rightarrow> (usage_row \<Rightarrow> usage_row) \<Rightarrow> store \<Rightarrow> bool" where
  "lowers p f st = (\<forall>r \<in> set (t_usage st). p r \<longrightarrow> u_status r \<in> {UsageReserved, UsageUnknown} \<and> u_key (f r) = u_key r \<and>
     u_call (f r) = u_call r \<and> committed (f r) \<le> committed r \<and> (usage_row_ok r \<longrightarrow> usage_row_ok (f r)))"

lemma usage_ok_update:
  assumes ok: "usage_ok st" and low: "lowers p f st"
  shows "usage_ok (st\<lparr>t_usage := row_update p f (t_usage st)\<rparr>)"
    and "usage_le st (st\<lparr>t_usage := row_update p f (t_usage st)\<rparr>)"
proof -
  let ?g = "\<lambda>r. if p r then f r else r" and ?st' = "st\<lparr>t_usage := row_update p f (t_usage st)\<rparr>"
  have keys: "map (\<lambda>r. (u_key r, u_call r)) (map ?g (t_usage st)) = map (\<lambda>r. (u_key r, u_call r)) (t_usage st)"
    using low by (auto simp: lowers_def)
  have sums: "sum_list (map committed (filter (\<lambda>r. u_key r = k) (map ?g rs))) \<le>
      sum_list (map committed (filter (\<lambda>r. u_key r = k) rs))" if "set rs \<subseteq> set (t_usage st)" for k rs
    using that
  proof (induction rs)
    case (Cons r rs)
    have "u_key (?g r) = u_key r \<and> committed (?g r) \<le> committed r" using low Cons.prems by (auto simp: lowers_def)
    with Cons show ?case by auto
  qed simp
  have tot: "total committed k ?st' \<le> total committed k st" for k
    using sums [of "t_usage st" k] by (simp add: total_def row_update_def)
  have "\<forall>r \<in> set (t_usage ?st'). usage_row_ok r \<and> (\<exists>d. store_Load (u_key r) st = Inr d)"
    using ok low by (auto simp: set_row_update usage_ok_def lowers_def)
  moreover have "\<forall>k d. store_Load k st = Inr d \<longrightarrow> 0 < d_max_cost d \<longrightarrow> total committed k ?st' \<le> d_max_cost d"
    using ok tot order_trans unfolding usage_ok_def by blast
  moreover have "t_usage ?st' = map ?g (t_usage st)" by (simp add: row_update_def)
  then have "distinct (map (\<lambda>r. (u_key r, u_call r)) (t_usage ?st'))"
    using ok by (simp only: usage_ok_def keys)
  ultimately show "usage_ok ?st'"
    by (simp only: usage_ok_def load_usage) blast
  show "usage_le st ?st'"
    using low by (force simp: usage_le_def set_row_update lowers_def)
qed

section \<open>Every step keeps the authority\<close>

lemma reserve_guard_cap:
  assumes "reserve_guard m c q = Inr ()" and "0 < m"
  shows "cu_spent c + cu_reserved c + ur_reserved q \<le> m"
  using assms by (auto simp: reserve_guard_def Let_def split: if_splits)

lemma total_append: "total f k (st\<lparr>t_usage := t_usage st @ [r]\<rparr>) = total f k st + (if u_key r = k then f r else 0)"
  by (simp add: total_def)

lemma reserve_usage_ok:
  assumes inv: "spending_inv st" and run: "reserveUsage now k l q st = Inr (x, st')"
  shows "usage_ok st' \<and> usage_le st st'"
proof -
  have ok: "usage_ok st" using inv by (simp add: spending_inv_def)
  from run obtain d st1 where valid: "valid_reservation k q" and load: "loadDelivery k st = Inr d"
    and step: "(case loadUsageReservation k (ur_call q) st of
         Some r \<Rightarrow> tx_read (\<lambda>_. reserve_again q r)
       | None \<Rightarrow> tx_bind (tx_read (loadCumulativeUsage k))
           (\<lambda>usage. tx_bind (tx_read (\<lambda>_. reserve_guard (d_max_cost d) usage q))
           (\<lambda>_. tx_bind (tx_modify (\<lambda>st. st\<lparr>t_usage := t_usage st @ [usage_row_of k q]\<rparr>))
           (\<lambda>_. tx_return (q\<lparr>ur_status := UsageReserved\<rparr>, None))))) st = Inr (x, st')"
    by (auto simp: reserveUsage_def tx_simps verifyLease_Inr split: option.splits)
  show ?thesis
  proof (cases "loadUsageReservation k (ur_call q) st")
    case (Some r)
    with step have "st' = st" by (simp add: tx_simps)
    with ok show ?thesis by (simp add: usage_le_def)
  next
    case None
    with step obtain c where c: "loadCumulativeUsage k st = Inr c" and guard: "reserve_guard (d_max_cost d) c q = Inr ()"
      and st': "st' = st\<lparr>t_usage := t_usage st @ [usage_row_of k q]\<rparr>" by (auto simp: tx_simps)
    let ?r = "usage_row_of k q"
    have row: "u_key ?r = k" "u_call ?r = ur_call q" "usage_row_ok ?r" "committed ?r = ur_reserved q"
      using valid by (simp_all add: usage_row_of_def usage_row_ok_def valid_reservation_def committed_def exposure_def)
    have Load: "store_Load k st = Inr d" using load valid by (simp add: store_Load_def valid_reservation_def)
    have fresh: "(k, ur_call q) \<notin> (\<lambda>r. (u_key r, u_call r)) ` set (t_usage st)"
      using None by (auto simp: loadUsageReservation_def row_find_None)
    have new: "total committed k st + ur_reserved q \<le> d_max_cost d" if "0 < d_max_cost d"
      using reserve_guard_cap [OF guard that] usage_exact_sums [OF c] total_mono [of committed exposure k st, OF committed_le] by simp
    have "total committed k' st' \<le> d_max_cost d'" if "store_Load k' st = Inr d'" "0 < d_max_cost d'" for k' d'
    proof (cases "k' = k")
      case True
      with that Load new show ?thesis by (simp add: st' total_append row)
    next
      case False
      with that ok show ?thesis unfolding usage_ok_def by (simp add: st' total_append row)
    qed
    moreover have "distinct (map (\<lambda>r. (u_key r, u_call r)) (t_usage st'))"
      using ok fresh by (simp add: usage_ok_def st' row)
    moreover have "\<forall>r \<in> set (t_usage st'). usage_row_ok r \<and> (\<exists>d. store_Load (u_key r) st = Inr d)"
      using ok row Load by (auto simp: usage_ok_def st')
    moreover have "store_Load k' st' = store_Load k' st" for k' by (simp add: st' load_usage)
    ultimately have "usage_ok st'" unfolding usage_ok_def by simp
    then show ?thesis by (auto simp: usage_le_def st')
  qed
qed

lemma update_usage_one_ok:
  assumes "usage_ok st" and "lowers p f st" and "update_usage_one p f st = Inr (u, st')"
  shows "usage_ok st' \<and> usage_le st st'"
  using assms usage_ok_update [OF assms(1,2)] by (auto simp: update_usage_one_def tx_simps)

lemma unknown_lowers:
  "lowers (\<lambda>r. u_key r = k \<and> u_call r = call \<and> (u_status r = UsageReserved \<or> u_status r = UsageUnknown)) (unknown_row a p) st"
  by (auto simp: lowers_def unknown_row_def committed_def exposure_def usage_row_ok_def)

lemma cancel_lowers:
  "\<forall>r \<in> set (t_usage st). usage_row_ok r \<Longrightarrow>
   lowers (\<lambda>r. u_key r = k \<and> u_call r = call \<and> u_status r = UsageReserved) (\<lambda>r. r\<lparr>u_status := UsageCancelled\<rparr>) st"
  by (auto simp: lowers_def committed_def exposure_def usage_row_ok_def)

lemma usage_row_unique:
  assumes "usage_ok st" and "loadUsageReservation k call st = Some r" and "x \<in> set (t_usage st)"
    and "u_key x = k" and "u_call x = call"
  shows "x = r"
  using assms unfolding usage_ok_def
  by (auto simp: loadUsageReservation_def distinct_map dest!: row_find_SomeD) (metis (mono_tags, lifting) inj_onD)

lemma reconcile_lowers:
  assumes "usage_ok st" and "valid_incurred k call a" and "loadUsageReservation k call st = Some r"
    and "u_status r \<noteq> UsageCancelled" and "u_status r \<noteq> UsageReconciled"
  shows "lowers (\<lambda>r. u_key r = k \<and> u_call r = call) (reconcile_row a) st"
  unfolding lowers_def
proof (intro ballI impI)
  fix x assume "x \<in> set (t_usage st)" and "u_key x = k \<and> u_call x = call"
  then have "x = r" using usage_row_unique [OF assms(1,3)] by blast
  with assms(2,4,5) show "u_status x \<in> {UsageReserved, UsageUnknown} \<and> u_key (reconcile_row a x) = u_key x \<and>
      u_call (reconcile_row a x) = u_call x \<and> committed (reconcile_row a x) \<le> committed x \<and>
      (usage_row_ok x \<longrightarrow> usage_row_ok (reconcile_row a x))"
    by (cases "u_status r")
      (auto simp: reconcile_row_def committed_def exposure_def usage_row_ok_def valid_incurred_def)
qed

lemma reconcile_usage_ok:
  assumes ok: "usage_ok st"
  shows "usage_ok (snd (ReconcileUsage k call a st)) \<and> usage_le st (snd (ReconcileUsage k call a st))"
proof -
  have same: "usage_ok st \<and> usage_le st st" using ok by (simp add: usage_le_def)
  have "usage_ok (snd (reconcile_new k call a m st)) \<and> usage_le st (snd (reconcile_new k call a m st))"
    if "valid_incurred k call a" "loadUsageReservation k call st = Some r" "u_status r \<noteq> UsageCancelled"
      "u_status r \<noteq> UsageReconciled" for m r
    using usage_ok_update [OF ok reconcile_lowers [OF ok that]] same
    by (simp add: reconcile_new_def Let_def update_usage_def split: sum.split)
  with same show ?thesis by (simp add: ReconcileUsage_def split: sum.split option.split)
qed

lemma usage_le_trans: "usage_le a b \<Longrightarrow> usage_le b c \<Longrightarrow> usage_le a c"
  by (auto simp: usage_le_def)

lemma usage_le_same: "t_usage st' = t_usage st \<Longrightarrow> usage_le st st'"
  by (simp add: usage_le_def)

lemma usage_frame_step:
  assumes "spending_inv st" and "t_usage (store_step sh op1 st) = t_usage st"
  shows "usage_ok (store_step sh op1 st) \<and> usage_le st (store_step sh op1 st)"
proof -
  have "good st (store_step sh op1 st)" using assms(1) step_good by (simp add: spending_inv_def good_def)
  with usage_ok_frame [OF assms(1) _ assms(2)] usage_le_same [OF assms(2)] show ?thesis by blast
qed

lemma journal_step_usage:
  assumes "journal_op op1"
  shows "t_usage (store_step sh op1 st) = t_usage st"
proof -
  have event: "t_usage st2 = t_usage st1" if "appendOperationEvent k o1 ty st1 = Inr (row, st2)" for k o1 ty row st1 st2
    using that by (simp add: appendOperationEvent_def Let_def append_journal)
  have prepare: "t_usage (snd (run_tx (PrepareOperation now1 now2 l o1) st)) = t_usage st" for now1 now2 l o1
    by (rule run_tx_cases) (auto simp: PrepareOperation_def prepare_existing_def prepare_new_def insertOperation_def
        Let_def tx_simps verifyLease_Inr split: option.splits if_splits dest!: event)
  have advance: "t_usage (snd (run_tx (advanceOperation sx now l oid s1 s2 out res err) st)) = t_usage st"
    for sx now l oid s1 s2 out res err
    by (rule run_tx_cases) (auto simp: advanceOperation_def Let_def tx_simps verifyLease_Inr dest!: event)
  have fail: "snd (run_tx (tx_fail e) st) = st" for e by (simp add: run_tx_def tx_fail_def)
  show ?thesis
    using assms by (cases op1) (simp_all add: prepare advance fail BeginOperation_def ObserveOperation_def ReconcileOperation_def)
qed

lemma usage_run:
  assumes "usage_ok st" and "\<And>x st'. f st = Inr (x, st') \<Longrightarrow> usage_ok st' \<and> usage_le st st'"
  shows "usage_ok (snd (run_tx f st)) \<and> usage_le st (snd (run_tx f st))"
  using assms by (auto simp: run_tx_def usage_le_def split: sum.split)

lemma update_usage_run:
  assumes "usage_ok st" and "lowers p f st"
  shows "usage_ok (snd (run_tx (update_usage_one p f) st)) \<and> usage_le st (snd (run_tx (update_usage_one p f) st))"
  using assms by (intro usage_run update_usage_one_ok)

lemma spending_step:
  assumes inv: "spending_inv st"
  shows "spending_inv (store_step sh op1 st) \<and> usage_le st (store_step sh op1 st)"
proof -
  have ok: "usage_ok st" and rows: "\<forall>r \<in> set (t_usage st). usage_row_ok r"
    using inv by (simp_all add: spending_inv_def usage_ok_def)
  have "usage_ok (store_step sh op1 st) \<and> usage_le st (store_step sh op1 st)"
  proof (cases "usage_op op1")
    case True
    then show ?thesis
    proof (cases op1)
      case (DoReserve now k l q)
      with usage_run [OF ok reserve_usage_ok [OF inv]] show ?thesis by simp
    next
      case (DoReconcile k call a)
      with reconcile_usage_ok [OF ok] show ?thesis by simp
    next
      case (DoMarkUnknown k call active provider)
      have "usage_le st st" by (simp add: usage_le_same)
      with DoMarkUnknown update_usage_run [OF ok unknown_lowers] ok show ?thesis
        by (simp add: markUsageUnknownWithDurations_def run_tx_require_bind)
    next
      case (DoCancelReservation k call)
      have "usage_le st st" by (simp add: usage_le_same)
      with DoCancelReservation update_usage_run [OF ok cancel_lowers [OF rows]] ok show ?thesis
        by (simp add: CancelUnusedReservation_def run_tx_require_bind)
    qed simp_all
  next
    case False
    then have "t_usage (store_step sh op1 st) = t_usage st"
      using journal_step_usage other_step_journal by (cases "journal_op op1") blast+
    then show ?thesis by (rule usage_frame_step [OF inv])
  qed
  moreover have "store_ok (store_step sh op1 st)" using inv step_good by (simp add: spending_inv_def)
  ultimately show ?thesis by (simp add: spending_inv_def)
qed

interpretation spending: monotone_machine "store_step sh" spending_inv usage_le for sh :: environment
  by unfold_locales (use spending_step usage_le_trans in \<open>auto simp: usage_le_same\<close>)

lemma empty_spending: "spending_inv empty_store"
  by (simp add: spending_inv_def empty_ok) (simp add: usage_ok_def total_def empty_store_def)

lemma run_spending: "spending_inv (fold (store_step sh) ops empty_store)"
  by (rule spending.run_inv [OF empty_spending])

section \<open>The authority\<close>

text \<open>
  C4. A delivery with a cap never commits more than the cap: whatever calls were made, what is
  reserved for open calls plus what finished calls cost is at most the cap plus what calls cost
  beyond their own reservations. Without such overruns the cap is never exceeded.
\<close>

theorem spending_within_cap:
  assumes "store_Load k (after sh ops) = Inr d" and "0 < d_max_cost d"
  shows "total exposure k (after sh ops) \<le> d_max_cost d + total overrun k (after sh ops)"
proof -
  have "total committed k (after sh ops) \<le> d_max_cost d"
    using run_spending [of sh ops] assms unfolding spending_inv_def usage_ok_def by blast
  then show ?thesis by (simp add: total_split)
qed


lemma reconciled_member:
  assumes "fst (ReconcileUsage k call a st) = Inr x"
  shows "\<exists>r \<in> set (t_usage (snd (ReconcileUsage k call a st))). u_key r = k \<and> u_call r = call \<and>
    u_status r = UsageReconciled \<and> incurred_of_row r = a"
proof -
  from assms obtain d r where row: "loadUsageReservation k call st = Some r" and load: "loadDelivery k st = Inr d"
    and valid: "valid_incurred k call a" and not_cancelled: "u_status r \<noteq> UsageCancelled"
    by (auto simp: ReconcileUsage_def split: if_splits sum.splits option.splits)
  then have mem: "r \<in> set (t_usage st)" "u_key r = k" "u_call r = call"
    by (auto simp: loadUsageReservation_def dest: row_find_SomeD)
  show ?thesis
  proof (cases "u_status r = UsageReconciled")
    case True
    then have run: "ReconcileUsage k call a st = (reconcile_again k a (d_max_cost d) r st, st)"
      using valid load row not_cancelled by (simp add: ReconcileUsage_def)
    with assms have "incurred_of_row r = a" by (auto simp: reconcile_again_def split: if_splits)
    with run mem True show ?thesis by auto
  next
    case False
    then have run: "ReconcileUsage k call a st = reconcile_new k call a (d_max_cost d) st"
      using valid load row not_cancelled by (simp add: ReconcileUsage_def)
    with assms have "snd (ReconcileUsage k call a st) = update_usage k call (reconcile_row a) st"
      by (auto simp: reconcile_new_def Let_def split: sum.splits if_splits)
    moreover have "reconcile_row a r \<in> set (t_usage (update_usage k call (reconcile_row a) st))"
      using mem by (auto simp: update_usage_def set_row_update)
    moreover have "incurred_of_row (reconcile_row a r) = a"
      by (cases a) (simp add: incurred_of_row_def reconcile_row_def)
    ultimately show ?thesis using mem by (intro bexI [of _ "reconcile_row a r"]) (simp_all add: reconcile_row_def)
  qed
qed

lemma reconciled_final:
  assumes "fst (ReconcileUsage k call a (after sh ops)) = Inr x"
    and "t = fold (store_step sh) ops' (snd (ReconcileUsage k call a (after sh ops)))"
  shows "snd (ReconcileUsage k call a' t) = t"
    and "valid_incurred k call a' \<Longrightarrow> a' \<noteq> a \<Longrightarrow> fst (ReconcileUsage k call a' t) = Inl ErrUsageConflict"
    and "snd (run_tx (markUsageUnknownWithDurations k call active provider) t) = t"
    and "snd (run_tx (CancelUnusedReservation k call) t) = t"
proof -
  let ?s = "snd (ReconcileUsage k call a (after sh ops))"
  have s: "?s = store_step sh (DoReconcile k call a) (after sh ops)" by simp
  have inv: "spending_inv ?s" unfolding s by (rule spending.step_inv [OF run_spending])
  then have ok: "usage_ok t" unfolding assms(2) using spending.run_inv by (simp add: spending_inv_def)
  from reconciled_member [OF assms(1)] obtain r where r: "r \<in> set (t_usage ?s)" "u_key r = k" "u_call r = call"
    "u_status r = UsageReconciled" "incurred_of_row r = a" by blast
  with spending.run_le [OF inv] have mem: "r \<in> set (t_usage t)" unfolding assms(2) by (auto simp: usage_le_def)
  then obtain d where d: "store_Load k t = Inr d" using ok r by (auto simp: usage_ok_def)
  then have load: "loadDelivery k t = Inr d" by (auto simp: store_Load_def split: if_splits)
  obtain r' where r': "loadUsageReservation k call t = Some r'"
    using mem r by (cases "loadUsageReservation k call t") (auto simp: loadUsageReservation_def row_find_None)
  with usage_row_unique [OF ok this mem r(2,3)] have row: "loadUsageReservation k call t = Some r" by simp
  show "snd (ReconcileUsage k call a' t) = t"
    using r(4) by (simp add: ReconcileUsage_def load row)
  show "valid_incurred k call a' \<Longrightarrow> a' \<noteq> a \<Longrightarrow> fst (ReconcileUsage k call a' t) = Inl ErrUsageConflict"
    using r(4,5) by (simp add: ReconcileUsage_def load row reconcile_again_def)
  have none: "row_count (\<lambda>x. u_key x = k \<and> u_call x = call \<and> P (u_status x)) (t_usage t) = 0"
    if "\<not> P UsageReconciled" for P
    using usage_row_unique [OF ok row] r(4) that by (auto simp: row_count_def filter_empty_conv)
  show "snd (run_tx (markUsageUnknownWithDurations k call active provider) t) = t"
    using none [of "\<lambda>s. s = UsageReserved \<or> s = UsageUnknown"]
    by (simp add: markUsageUnknownWithDurations_def run_tx_require_bind)
      (simp add: run_tx_def update_usage_one_def tx_bind_def tx_read_def tx_modify_def tx_require_def)
  show "snd (run_tx (CancelUnusedReservation k call) t) = t"
    using none [of "\<lambda>s. s = UsageReserved"]
    by (simp add: CancelUnusedReservation_def run_tx_require_bind)
      (simp add: run_tx_def update_usage_one_def tx_bind_def tx_read_def tx_modify_def tx_require_def)
qed

text \<open>
  C31. What a call cost is recorded once: after it was reconciled, reconciling it again, marking it
  unknown or cancelling it writes nothing, whatever was done in between, and a report that differs
  from the recorded one is refused as a conflict.
\<close>

theorem reconcile_once:
  assumes "fst (ReconcileUsage k call a (after sh ops)) = Inr x"
    and "t = fold (store_step sh) ops' (snd (ReconcileUsage k call a (after sh ops)))"
  shows "snd (ReconcileUsage k call a' t) = t \<and>
    (valid_incurred k call a' \<longrightarrow> a' \<noteq> a \<longrightarrow> fst (ReconcileUsage k call a' t) = Inl ErrUsageConflict) \<and>
    snd (run_tx (markUsageUnknownWithDurations k call active provider) t) = t \<and>
    snd (run_tx (CancelUnusedReservation k call) t) = t"
  using reconciled_final [OF assms] by blast

section \<open>Instances\<close>

definition capped_admission :: admission where
  "capped_admission = sample_admission\<lparr>a_max_cost := 100\<rparr>"

definition sample_reservation :: reservation where
  "sample_reservation = \<lparr>ur_call = ''c'', ur_node = '''', ur_provider = ''p'', ur_model = ''m'', ur_estimate = 5,
     ur_reserved = 40, ur_known_price = True, ur_status = UsageReserved\<rparr>"

definition sample_incurred :: incurred where
  "sample_incurred = \<lparr>iu_input = 3, iu_output = 4, iu_cache_read = 0, iu_cache_creation = 0, iu_cost = 30,
     iu_cost_known = True, iu_active = 1, iu_provider_ns = 1\<rparr>"

definition capped_ops :: "store_op list" where
  "capped_ops = [DoAdmit capped_admission True 1000000000, DoReserve 2000000000 sample_key None sample_reservation]"

lemma capped_runs:
  "map_sum (\<lambda>e. ()) d_max_cost (store_Load sample_key (after sample_env capped_ops)) = Inr 100"
  "map_sum (\<lambda>e. ()) cu_reserved (Usage sample_key (after sample_env capped_ops)) = Inr 40"
  "\<not> isl (fst (ReconcileUsage sample_key ''c'' sample_incurred (after sample_env capped_ops)))"
  "valid_incurred sample_key ''c'' (sample_incurred\<lparr>iu_cost := 31\<rparr>)"
  "total exposure sample_key (after sample_env capped_ops) = 40"
  by code_simp+

theorem spending_within_cap_witness:
  "(40::int) \<le> 100 + total overrun sample_key (after sample_env capped_ops)"
proof -
  from capped_runs(1) obtain d where "store_Load sample_key (after sample_env capped_ops) = Inr d" "d_max_cost d = 100"
    by (cases "store_Load sample_key (after sample_env capped_ops)") auto
  from spending_within_cap [OF this(1)] this(2) show ?thesis by (simp add: capped_runs(5))
qed


theorem reconcile_once_witness:
  "\<exists>t. fst (ReconcileUsage sample_key ''c'' (sample_incurred\<lparr>iu_cost := 31\<rparr>) t) = Inl ErrUsageConflict"
proof -
  from not_isl_Inr [OF capped_runs(3)] obtain x where
    "fst (ReconcileUsage sample_key ''c'' sample_incurred (after sample_env capped_ops)) = Inr x" by blast
  from reconcile_once [OF this refl, where a' = "sample_incurred\<lparr>iu_cost := 31\<rparr>" and ops' = "[]"] capped_runs(4)
  show ?thesis by (auto simp: sample_incurred_def)
qed

end
