(* ===== verification/Delivery_Progress.thy ===== *)
theory Delivery_Progress
  imports Delivery_Effects
begin

text \<open>
  When claiming makes progress. The epochs of recorded attempts never pass the epoch of their queue
  row, so a due delivery that is queued, running or waiting for its retry can always be claimed; a
  due row whose delivery is in any other state stands before every other delivery for ever.
\<close>

declare split_paired_All [simp del] split_paired_Ex [simp del]

section \<open>Attempts stay under the epoch of their row\<close>

abbreviation attempt_keys :: "store \<Rightarrow> (dkey \<times> int) list" where
  "attempt_keys st \<equiv> map (\<lambda>a. (at_key a, at_epoch a)) (t_attempts st)"

definition quiet :: "'a tx \<Rightarrow> bool" where
  "quiet f = (\<forall>st x st'. f st = Inr (x, st') \<longrightarrow> attempt_keys st' = attempt_keys st)"

lemma quietI: "(\<And>st x st'. f st = Inr (x, st') \<Longrightarrow> attempt_keys st' = attempt_keys st) \<Longrightarrow> quiet f"
  unfolding quiet_def by blast



lemma append_attempts: "appendDeliveryEvent k ty p i fp st = Inr (row, st') \<Longrightarrow> t_attempts st' = t_attempts st"
  by (erule appendE) simp_all

lemma transition_attempts: "transitionInTx d nxt i st = Inr (d', st') \<Longrightarrow> t_attempts st' = t_attempts st"
  by (auto simp: transitionInTx_def tx_simps Let_def set_delivery_row_def dest!: append_attempts)

lemma insertQueueRow_attempts: "insertQueueRow q st = Inr (u, st') \<Longrightarrow> t_attempts st' = t_attempts st"
  by (auto simp: insertQueueRow_def tx_simps split: if_splits)

lemma set_queue_attempts [simp]: "t_attempts (set_queue p f st) = t_attempts st"
  by (simp add: set_queue_def)

lemma set_delivery_row_attempts [simp]: "t_attempts (set_delivery_row k f st) = t_attempts st"
  by (simp add: set_delivery_row_def)


lemma update_queue_one_attempts: "update_queue_one p f st = Inr (u, st') \<Longrightarrow> t_attempts st' = t_attempts st"
  by (auto simp: update_queue_one_def requireChanged_def tx_simps)

lemma operation_event_attempts: "appendOperationEvent k o1 ty st = Inr (row, st') \<Longrightarrow> t_attempts st' = t_attempts st"
  by (simp add: appendOperationEvent_def Let_def append_attempts)

lemmas attempt_facts = append_attempts transition_attempts insertQueueRow_attempts update_queue_one_attempts
  operation_event_attempts







lemma append_tx_quiet: "quiet (append_tx k ty p i)"
  by (rule quietI) (auto simp: append_tx_def tx_simps dest!: attempt_facts)







lemma insertGoal_attempts: "insertGoal k g rs st = Inr (u, st') \<Longrightarrow> t_attempts st' = t_attempts st"
  by (auto dest: insertGoal_effect)






section \<open>The invariant\<close>






text \<open>The store after the two updates by which a claim fences the previous owner.\<close>

definition claimed_rows :: "string \<Rightarrow> time \<Rightarrow> time \<Rightarrow> queue_row \<Rightarrow> store \<Rightarrow> store" where
  "claimed_rows owner now expires q st = set_attempts (\<lambda>a. at_key a = q_key q \<and> at_finished a = None) (expire_attempt now)
     (set_queue (\<lambda>x. q_key x = q_key q \<and> claimable now x) (lease_row owner now expires) st)"






section \<open>Claiming a due delivery\<close>




definition runnable_state :: "delivery_state \<Rightarrow> bool" where
  "runnable_state s = (s \<in> {DeliveryQueued, DeliveryRunning, DeliveryWaitingRetry})"







lemma claimed_rows_view: "view k (claimed_rows owner now expires q st) = view k st"
  by (simp add: claimed_rows_def set_attempts_def set_queue_def store_simps)


lemma load_claimed: "loadDelivery k (claimed_rows owner now expires q st) = loadDelivery k st"
  by (simp add: loadDelivery_view claimed_rows_view cong: list.case_cong)
    (simp add: delivery_of_row_def loadGoals_def loadRequirements_def loadDecisions_def decision_of_row_def
      requirement_of_row_def loadAcceptanceChecks_def claimed_rows_def set_attempts_def set_queue_def split: list.split)


text \<open>
  C38. One stuck delivery blocks the queue: while the first due row belongs to a delivery in another
  state (one left checkpointing, reconciling or failed with its queue row still ready or its lease
  expired), every claim fails and changes nothing, whoever makes it, so nothing behind it is run.
\<close>

theorem claim_blocked:
  assumes "next_claim now st = Some q" and "store_Load (q_key q) st = Inr d" and "\<not> runnable_state (d_state d)"
  shows "(\<forall>owner duration. \<exists>e. run_tx (Claim now owner duration) st = (Inl e, st)) \<and>
    fold (store_step sh) (map (\<lambda>(owner, duration). DoClaim now owner duration) cs) st = st"
proof
  have load: "loadDelivery (q_key q) (claimed_rows owner now expires q st) = Inr d" for owner expires
    using assms(2) by (simp add: load_claimed store_Load_def split: if_splits)
  have "claim_row owner now expires q st = Inl ErrInvalidDeliveryTransition" for owner expires
    using load [of owner expires] assms(3)
    by (simp add: claim_row_def Let_def tx_bind_def tx_modify_def tx_read_def claim_transitions_def tx_return_def
        tx_fail_def runnable_state_def flip: claimed_rows_def)
  then have "\<exists>e. Claim now owner duration st = Inl e" for owner duration
    using assms(1) by (simp add: Claim_def tx_bind_def tx_require_def tx_read_def)
  then show all: "\<forall>owner duration. \<exists>e. run_tx (Claim now owner duration) st = (Inl e, st)"
    by (simp add: run_tx_Inl)
  then have "store_step sh (DoClaim now owner duration) st = st" for owner duration
    by (metis snd_conv store_step.simps(5))
  then show "fold (store_step sh) (map (\<lambda>(owner, duration). DoClaim now owner duration) cs) st = st"
    by (induction cs) auto
qed

section \<open>Instances\<close>


text \<open>A worker stops while its delivery is checkpointing; a second delivery waits behind it.\<close>

definition other_key :: dkey where
  "other_key = (''t'', ''r'', ''z'')"

definition blocked_ops :: "store_op list" where
  "blocked_ops = sample_claims @ [DoTransitionLease 3000000000 3000000000 sample_lease DeliveryCheckpointing,
     DoAdmit (sample_admission\<lparr>a_key := other_key, a_admission_key := ''b''\<rparr>) True 19000000000]"

theorem claim_blocked_witness:
  "\<exists>e. run_tx (Claim 20000000000 ''x'' 10000000000) (after sample_env blocked_ops) = (Inl e, after sample_env blocked_ops) \<and>
     (\<exists>q \<in> set (t_queue (after sample_env blocked_ops)). q_key q = other_key \<and> claimable 20000000000 q)"
proof -
  have q: "map_option q_key (next_claim 20000000000 (after sample_env blocked_ops)) = Some sample_key"
    and d: "map_sum (\<lambda>e. ()) d_state (store_Load sample_key (after sample_env blocked_ops)) = Inr DeliveryCheckpointing"
    and other: "list_ex (\<lambda>q. q_key q = other_key \<and> claimable 20000000000 q) (t_queue (after sample_env blocked_ops))"
    by code_simp+
  from q obtain q where q: "next_claim 20000000000 (after sample_env blocked_ops) = Some q" "q_key q = sample_key" by auto
  from d obtain d where d: "store_Load (q_key q) (after sample_env blocked_ops) = Inr d" "d_state d = DeliveryCheckpointing"
    unfolding q(2) by (cases "store_Load sample_key (after sample_env blocked_ops)") auto
  then have "\<not> runnable_state (d_state d)" by (simp add: runnable_state_def)
  from claim_blocked [OF q(1) d(1) this] other show ?thesis by (auto simp: list_ex_iff)
qed

end
