(* ===== verification/Delivery_Rounds.thy ===== *)
theory Delivery_Rounds
  imports Delivery_Operations Delivery_Usage
begin

text \<open>
  Receipts of model calls (\<^verbatim>\<open>internal/execution/delivery_tool_rounds.go\<close> and \<^verbatim>\<open>delivery_agent_replies.go\<close>):
  the complete exchanges of tool calls and results, and the final replies, from which a replacement
  worker continues. Messages and responses are the SDK's; the records hold the fields that the code
  reads, and \<open>cm_other\<close> and \<open>rs_other\<close> the rest of them. \<open>encode\<close> and \<open>decode\<close> are the SDK's (or
  \<^verbatim>\<open>encoding/json\<close>'s) conversions to the stored text and back, and \<open>sha_hex\<close> the hex SHA-256. Of rounds
  with the same attempt and number SQLite may return any; the model returns the first inserted.
  Identifiers are ASCII: SQLite's \<^verbatim>\<open>substr\<close> counts characters where the code passes a length in bytes.
\<close>

section \<open>Messages\<close>

datatype chat_role = RoleSystem | RoleUser | RoleAssistant | RoleTool | RoleOther string

record chat_call =
  cc_id :: string
  cc_name :: string

record chat_message =
  cm_role :: chat_role
  cm_content :: string
  cm_name :: string
  cm_call_id :: string
  cm_calls :: "chat_call list"
  cm_other :: string

record chat_response =
  rs_end :: bool
  rs_calls :: "chat_call list"
  rs_failed :: bool
  rs_usage_known :: bool
  rs_other :: string

text \<open>A tool message answers a call.\<close>

definition answers :: "chat_message \<Rightarrow> chat_call \<Rightarrow> bool" where
  "answers m c = (cm_role m = RoleTool \<and> cm_call_id m = cc_id c \<and> cm_name m = cc_name c)"

text \<open>The calls of one assistant message against the messages that follow it; \<open>seen\<close> are the earlier identifiers.\<close>

fun match_calls :: "string list \<Rightarrow> chat_call list \<Rightarrow> chat_message list \<Rightarrow> string list option" where
  "match_calls seen [] ms = Some seen"
| "match_calls seen (c # cs) [] = None"
| "match_calls seen (c # cs) (m # ms) =
     (if cc_id c = '''' \<or> List.member seen (cc_id c) \<or> \<not> answers m c then None
      else match_calls (cc_id c # seen) cs ms)"

function scan_round :: "string list \<Rightarrow> chat_message list \<Rightarrow> string list option" where
  "scan_round seen [] = Some seen"
| "scan_round seen (m # ms) =
     (if cm_role m = RoleTool then None
      else if cm_role m \<noteq> RoleAssistant \<or> cm_calls m = [] then scan_round seen ms
      else if length ms < length (cm_calls m) then None
      else (case match_calls seen (cm_calls m) ms of
              None \<Rightarrow> None
            | Some seen' \<Rightarrow> scan_round seen' (drop (length (cm_calls m)) ms)))"
  by pat_completeness auto
termination
  by (relation "measure (\<lambda>(seen, ms). length ms)") auto

definition completeToolRound :: "chat_message list \<Rightarrow> bool" where
  "completeToolRound ms =
     (if length ms < 3 \<or> cm_role (last ms) \<noteq> RoleTool then False
      else (case scan_round [] ms of None \<Rightarrow> False | Some seen \<Rightarrow> seen \<noteq> []))"

section \<open>Tables\<close>

record round_row =
  rd_key :: dkey
  rd_invocation :: string
  rd_number :: int
  rd_attempt :: int
  rd_role :: string
  rd_node :: string
  rd_revision :: int
  rd_fingerprint :: string
  rd_model :: string
  rd_messages :: string

record reply_row =
  rp_key :: dkey
  rp_invocation :: string
  rp_attempt :: int
  rp_role :: string
  rp_node :: string
  rp_revision :: int
  rp_fingerprint :: string
  rp_model :: string
  rp_response :: string

record receipts =
  rc_store :: store
  rc_rounds :: "round_row list"
  rc_replies :: "reply_row list"

record tool_round =
  tr_invocation :: string
  tr_role :: string
  tr_node :: string
  tr_input :: string
  tr_model :: string
  tr_number :: int
  tr_messages :: "chat_message list"
  tr_effectful :: "string list"

section \<open>Checkpointing a tool round\<close>

text \<open>The last assistant message with calls, and the messages after it.\<close>

fun last_calls :: "chat_message list \<Rightarrow> (chat_call list \<times> chat_message list) option" where
  "last_calls [] = None"
| "last_calls (m # ms) = (case last_calls ms of
       Some r \<Rightarrow> Some r
     | None \<Rightarrow> if cm_role m = RoleAssistant \<and> cm_calls m \<noteq> [] then Some (cm_calls m, ms) else None)"

definition operation_id :: "string \<Rightarrow> chat_call \<Rightarrow> string" where
  "operation_id invocation c = invocation @ '':'' @ cc_id c"

definition finished :: "operation_row \<Rightarrow> bool" where
  "finished o1 = (op_status o1 = OperationObserved \<or> op_status o1 = OperationReconciled)"

fun check_calls :: "dkey \<Rightarrow> string \<Rightarrow> string list \<Rightarrow> store \<Rightarrow> (chat_call \<times> chat_message) list \<Rightarrow> delivery_error + unit" where
  "check_calls k invocation effectful st [] = Inr ()"
| "check_calls k invocation effectful st ((c, m) # cs) = (case loadOperation k (operation_id invocation c) st of
       Inl e \<Rightarrow> if e = ErrOperationNotFound
         then (if List.member effectful (cc_id c) then Inl ErrEffectNeedsReconciliation
               else check_calls k invocation effectful st cs)
         else Inl e
     | Inr o1 \<Rightarrow> if \<not> finished o1 \<or> op_result o1 \<noteq> cm_content m then Inl ErrEffectNeedsReconciliation
                 else check_calls k invocation effectful st cs)"

definition new_round :: "(string \<Rightarrow> string) \<Rightarrow> lease \<Rightarrow> tool_round \<Rightarrow> string \<Rightarrow> round_row" where
  "new_round sha_hex l r data = \<lparr>rd_key = d_key (le_delivery l), rd_invocation = tr_invocation r, rd_number = tr_number r,
     rd_attempt = le_attempt l, rd_role = tr_role r, rd_node = tr_node r, rd_revision = d_goal_revision (le_delivery l),
     rd_fingerprint = sha_hex (tr_input r), rd_model = tr_model r, rd_messages = data\<rparr>"

text \<open>The primary key of the table refuses a second row for the round.\<close>

definition insert_round :: "round_row \<Rightarrow> receipts \<Rightarrow> delivery_error + receipts" where
  "insert_round row s =
     (if row_find (\<lambda>x. rd_key x = rd_key row \<and> rd_invocation x = rd_invocation row \<and> rd_number x = rd_number row) (rc_rounds s) \<noteq> None
      then Inl ErrConstraint else Inr (s\<lparr>rc_rounds := rc_rounds s @ [row]\<rparr>))"

definition CheckpointToolRound :: "(chat_message list \<Rightarrow> string option) \<Rightarrow> (string \<Rightarrow> string) \<Rightarrow> time \<Rightarrow> lease \<Rightarrow> tool_round \<Rightarrow>
    receipts \<Rightarrow> delivery_error + receipts" where
  "CheckpointToolRound encode sha_hex now l r s =
     (if tr_invocation r = '''' \<or> tr_role r = '''' \<or> tr_model r = '''' \<or> tr_number r < 1 \<or> \<not> completeToolRound (tr_messages r)
      then Inl ErrInvalidDelivery
      else (case encode (tr_messages r) of
              None \<Rightarrow> Inl ErrInvalidDelivery
            | Some data \<Rightarrow>
                if 4194304 < int (length data) then Inl ErrInvalidDelivery
                else (case verifyLease l now (rc_store s) of
                    Inl e \<Rightarrow> Inl e
                  | Inr _ \<Rightarrow> (case (case last_calls (tr_messages r) of
                        None \<Rightarrow> Inr ()
                      | Some (calls, after) \<Rightarrow> check_calls (d_key (le_delivery l)) (tr_invocation r) (tr_effectful r) (rc_store s)
                          (zip calls after)) of
                      Inl e \<Rightarrow> Inl e
                    | Inr _ \<Rightarrow> insert_round (new_round sha_hex l r data) s))))"

section \<open>Resuming\<close>

text \<open>The row of the latest attempt, and of its latest round.\<close>

definition latest_round :: "dkey \<Rightarrow> string \<Rightarrow> string \<Rightarrow> (int \<Rightarrow> bool) \<Rightarrow> receipts \<Rightarrow> round_row option" where
  "latest_round k role node wanted s =
     (case sort_key (\<lambda>x. (- rd_attempt x, - rd_number x))
        (filter (\<lambda>x. rd_key x = k \<and> rd_role x = role \<and> rd_node x = node \<and> wanted (rd_attempt x)) (rc_rounds s)) of
        [] \<Rightarrow> None | x # xs \<Rightarrow> Some x)"

definition ResumeToolRound :: "(string \<Rightarrow> chat_message list option) \<Rightarrow> (string \<Rightarrow> string) \<Rightarrow> time \<Rightarrow> lease \<Rightarrow> string \<Rightarrow> string \<Rightarrow>
    string \<Rightarrow> string \<Rightarrow> receipts \<Rightarrow> delivery_error + chat_message list option" where
  "ResumeToolRound decode sha_hex now l role node input model s =
     (if role = '''' \<or> model = '''' then Inl ErrInvalidDelivery
      else (case verifyLease l now (rc_store s) of
          Inl e \<Rightarrow> Inl e
        | Inr _ \<Rightarrow> (case latest_round (d_key (le_delivery l)) role node (\<lambda>a. a < le_attempt l) s of
            None \<Rightarrow> Inr None
          | Some x \<Rightarrow>
              if rd_fingerprint x \<noteq> sha_hex input \<or> rd_model x \<noteq> model \<or> rd_revision x \<noteq> d_goal_revision (le_delivery l)
              then Inl ErrEffectNeedsReconciliation
              else (case decode (rd_messages x) of
                  None \<Rightarrow> Inl ErrEffectNeedsReconciliation
                | Some ms \<Rightarrow> if completeToolRound ms then Inr (Some ms) else Inl ErrEffectNeedsReconciliation))))"

text \<open>Whether the latest round of the attempt that ran an operation holds its call and result.\<close>

fun covered_by :: "string \<Rightarrow> operation_row \<Rightarrow> chat_message list \<Rightarrow> bool" where
  "covered_by invocation o1 [] = False"
| "covered_by invocation o1 (m # ms) =
     (cm_role m = RoleAssistant \<and>
        list_ex (\<lambda>(c, a). op_id o1 = operation_id invocation c \<and> op_kind o1 = cc_name c \<and> op_result o1 = cm_content a) (zip (cm_calls m) ms)
      \<or> covered_by invocation o1 ms)"

definition CoversOperation :: "(string \<Rightarrow> chat_message list option) \<Rightarrow> lease \<Rightarrow> operation_row \<Rightarrow> receipts \<Rightarrow> delivery_error + bool" where
  "CoversOperation decode l o1 s =
     (if \<not> finished o1 then Inr False
      else (case latest_round (d_key (le_delivery l)) (op_role o1) (op_node o1) (\<lambda>a. a = op_attempt o1) s of
          None \<Rightarrow> Inr False
        | Some x \<Rightarrow> (case decode (rd_messages x) of
            None \<Rightarrow> Inl ErrEffectNeedsReconciliation
          | Some ms \<Rightarrow> if completeToolRound ms then Inr (covered_by (rd_invocation x) o1 ms) else Inl ErrEffectNeedsReconciliation)))"

section \<open>Final replies\<close>

definition insert_reply :: "reply_row \<Rightarrow> receipts \<Rightarrow> delivery_error + receipts" where
  "insert_reply row s =
     (if row_find (\<lambda>x. rp_key x = rp_key row \<and> rp_invocation x = rp_invocation row) (rc_replies s) \<noteq> None
      then Inl ErrConstraint else Inr (s\<lparr>rc_replies := rc_replies s @ [row]\<rparr>))"

definition billed_calls :: "dkey \<Rightarrow> string \<Rightarrow> string \<Rightarrow> store \<Rightarrow> usage_row list" where
  "billed_calls k node invocation st =
     filter (\<lambda>u. u_key u = k \<and> u_node u = node \<and> has_prefix (u_call u) (invocation @ '':'')) (t_usage st)"

definition CheckpointAgentReply :: "(chat_response \<times> bool \<Rightarrow> string option) \<Rightarrow> (string \<Rightarrow> string) \<Rightarrow> time \<Rightarrow> lease \<Rightarrow> string \<Rightarrow> string \<Rightarrow> string \<Rightarrow>
    string \<Rightarrow> string \<Rightarrow> chat_response option \<Rightarrow> receipts \<Rightarrow> delivery_error + receipts" where
  "CheckpointAgentReply encode sha_hex now l invocation role node input model response s =
     (case response of
        None \<Rightarrow> Inl ErrInvalidDelivery
      | Some rs \<Rightarrow>
          if invocation = '''' \<or> role = '''' \<or> model = '''' \<or> rs_failed rs \<or> \<not> rs_end rs \<or> rs_calls rs \<noteq> [] then Inl ErrInvalidDelivery
          else (case encode (rs, rs_usage_known rs) of
              None \<Rightarrow> Inl ErrInvalidDelivery
            | Some data \<Rightarrow>
                if 1048576 < int (length data) then Inl ErrInvalidDelivery
                else (case verifyLease l now (rc_store s) of
                    Inl e \<Rightarrow> Inl e
                  | Inr _ \<Rightarrow>
                      let k = d_key (le_delivery l); revision = d_goal_revision (le_delivery l);
                        rounds = row_count (\<lambda>x. rd_key x = k \<and> rd_invocation x = invocation \<and> rd_revision x = revision) (rc_rounds s);
                        billed = billed_calls k node invocation (rc_store s);
                        reconciled = filter (\<lambda>u. u_status u = UsageReconciled \<and> u_model u = model) billed
                      in if length billed \<noteq> rounds + 1 \<or> length reconciled \<noteq> length billed then Inl ErrUsageOutcomeUnknown
                         else insert_reply \<lparr>rp_key = k, rp_invocation = invocation, rp_attempt = le_attempt l, rp_role = role, rp_node = node,
                           rp_revision = revision, rp_fingerprint = sha_hex input, rp_model = model, rp_response = data\<rparr> s)))"

definition ResumeAgentReply :: "(string \<Rightarrow> (chat_response \<times> bool) option) \<Rightarrow> (string \<Rightarrow> string) \<Rightarrow> time \<Rightarrow> lease \<Rightarrow> string \<Rightarrow> string \<Rightarrow>
    string \<Rightarrow> string \<Rightarrow> receipts \<Rightarrow> delivery_error + chat_response option" where
  "ResumeAgentReply decode sha_hex now l role node input model s =
     (if role = '''' \<or> model = '''' then Inl ErrInvalidDelivery
      else (case verifyLease l now (rc_store s) of
          Inl e \<Rightarrow> Inl e
        | Inr _ \<Rightarrow> (case sort_key (\<lambda>x. - rp_attempt x)
              (filter (\<lambda>x. rp_key x = d_key (le_delivery l) \<and> rp_role x = role \<and> rp_node x = node \<and> rp_attempt x < le_attempt l) (rc_replies s)) of
            [] \<Rightarrow> Inr None
          | x # xs \<Rightarrow>
              if rp_fingerprint x \<noteq> sha_hex input \<or> rp_model x \<noteq> model \<or> rp_revision x \<noteq> d_goal_revision (le_delivery l)
              then Inl ErrEffectNeedsReconciliation
              else (case decode (rp_response x) of
                  None \<Rightarrow> Inl ErrEffectNeedsReconciliation
                | Some (rs, known) \<Rightarrow> if \<not> rs_end rs \<or> rs_calls rs \<noteq> [] \<or> rs_failed rs then Inl ErrEffectNeedsReconciliation
                    else Inr (Some (rs\<lparr>rs_usage_known := known\<rparr>))))))"

section \<open>Counting receipts\<close>

definition prior :: "lease \<Rightarrow> dkey \<Rightarrow> int \<Rightarrow> int \<Rightarrow> bool" where
  "prior l k attempt revision = (k = d_key (le_delivery l) \<and> attempt < le_attempt l \<and> revision = d_goal_revision (le_delivery l))"

definition CheckpointedCallCount :: "lease \<Rightarrow> receipts \<Rightarrow> nat" where
  "CheckpointedCallCount l s =
     row_count (\<lambda>x. prior l (rd_key x) (rd_attempt x) (rd_revision x)) (rc_rounds s) +
     row_count (\<lambda>x. prior l (rp_key x) (rp_attempt x) (rp_revision x)) (rc_replies s)"

definition CheckpointedCallsByNode :: "lease \<Rightarrow> receipts \<Rightarrow> string \<rightharpoonup> nat" where
  "CheckpointedCallsByNode l s node =
     (let n = row_count (\<lambda>x. prior l (rd_key x) (rd_attempt x) (rd_revision x) \<and> rd_node x = node) (rc_rounds s) +
         row_count (\<lambda>x. prior l (rp_key x) (rp_attempt x) (rp_revision x) \<and> rp_node x = node) (rc_replies s)
      in if n = 0 then None else Some n)"

end
