(* ===== verification/Delivery_Receipts.thy ===== *)
theory Delivery_Receipts
  imports Delivery_Effects Delivery_Rounds
begin

text \<open>
  What the receipts guarantee: which exchanges are complete, that a checkpoint blesses only effects
  that were observed, and that a replacement worker resumes from exactly what was checkpointed.
\<close>

declare split_paired_All [simp del] split_paired_Ex [simp del]

section \<open>Complete exchanges\<close>

text \<open>
  The specification: every assistant message with calls is followed by one answer to each of its calls,
  in order, and no other message is a tool's.
\<close>

inductive exchange :: "chat_message list \<Rightarrow> bool" where
  exchange_empty: "exchange []"
| exchange_plain: "cm_role m \<noteq> RoleTool \<Longrightarrow> cm_role m \<noteq> RoleAssistant \<or> cm_calls m = [] \<Longrightarrow> exchange ms \<Longrightarrow> exchange (m # ms)"
| exchange_calls: "cm_role m = RoleAssistant \<Longrightarrow> cm_calls m \<noteq> [] \<Longrightarrow> list_all2 answers as (cm_calls m) \<Longrightarrow> exchange ms \<Longrightarrow>
    exchange (m # as @ ms)"

inductive_cases exchange_ConsE: "exchange (m # ms)"

definition message_calls :: "chat_message \<Rightarrow> chat_call list" where
  "message_calls m = (if cm_role m = RoleAssistant then cm_calls m else [])"

definition calls_of :: "chat_message list \<Rightarrow> chat_call list" where
  "calls_of ms = concat (map message_calls ms)"

definition ids_ok :: "string list \<Rightarrow> chat_call list \<Rightarrow> bool" where
  "ids_ok seen cs = ((\<forall>c \<in> set cs. cc_id c \<noteq> '''') \<and> distinct (map cc_id cs) \<and> cc_id ` set cs \<inter> set seen = {})"

lemma ids_ok_Cons: "ids_ok seen (c # cs) \<longleftrightarrow> cc_id c \<noteq> '''' \<and> cc_id c \<notin> set seen \<and> ids_ok (cc_id c # seen) cs"
  by (auto simp: ids_ok_def)

lemma ids_ok_append: "ids_ok seen (cs @ ds) \<longleftrightarrow> ids_ok seen cs \<and> ids_ok (rev (map cc_id cs) @ seen) ds"
  by (auto simp: ids_ok_def)

lemma match_calls_iff:
  "match_calls seen cs ms = Some seen' \<longleftrightarrow>
     length cs \<le> length ms \<and> list_all2 answers (take (length cs) ms) cs \<and> ids_ok seen cs \<and> seen' = rev (map cc_id cs) @ seen"
  by (induction seen cs ms rule: match_calls.induct) (auto simp: ids_ok_Cons, auto simp: ids_ok_def)

lemma answered_calls: "list_all2 answers ms cs \<Longrightarrow> calls_of ms = []"
proof (induction ms cs rule: list_all2_induct)
  case (Cons m ms c cs)
  then show ?case by (simp add: calls_of_def message_calls_def answers_def)
qed (simp add: calls_of_def)

lemma exchange_Cons:
  "exchange (m # ms) \<longleftrightarrow>
     (if cm_role m = RoleTool then False
      else if cm_role m \<noteq> RoleAssistant \<or> cm_calls m = [] then exchange ms
      else length (cm_calls m) \<le> length ms \<and> list_all2 answers (take (length (cm_calls m)) ms) (cm_calls m) \<and>
        exchange (drop (length (cm_calls m)) ms))"
proof
  assume "exchange (m # ms)"
  then show "if cm_role m = RoleTool then False
      else if cm_role m \<noteq> RoleAssistant \<or> cm_calls m = [] then exchange ms
      else length (cm_calls m) \<le> length ms \<and> list_all2 answers (take (length (cm_calls m)) ms) (cm_calls m) \<and>
        exchange (drop (length (cm_calls m)) ms)"
  proof (elim exchange_ConsE)
    fix before later assume "ms = before @ later" "cm_role m = RoleAssistant" "cm_calls m \<noteq> []"
      and all: "list_all2 answers before (cm_calls m)" and "exchange later"
    moreover from all have "length before = length (cm_calls m)" by (rule list_all2_lengthD)
    ultimately show ?thesis by simp
  qed auto
next
  assume "if cm_role m = RoleTool then False
      else if cm_role m \<noteq> RoleAssistant \<or> cm_calls m = [] then exchange ms
      else length (cm_calls m) \<le> length ms \<and> list_all2 answers (take (length (cm_calls m)) ms) (cm_calls m) \<and>
        exchange (drop (length (cm_calls m)) ms)"
  then show "exchange (m # ms)"
    using exchange_plain [of m ms] exchange_calls [of m "take (length (cm_calls m)) ms" "drop (length (cm_calls m)) ms"]
    by (auto split: if_splits)
qed

lemma calls_of_Cons: "calls_of (m # ms) = message_calls m @ calls_of ms"
  by (simp add: calls_of_def)

lemma calls_of_split: "calls_of ms = calls_of (take n ms) @ calls_of (drop n ms)"
  by (metis append_take_drop_id calls_of_def concat_append map_append)

lemma scan_round_iff:
  "scan_round seen ms = Some seen' \<longleftrightarrow> exchange ms \<and> ids_ok seen (calls_of ms) \<and> seen' = rev (map cc_id (calls_of ms)) @ seen"
proof (induction seen ms rule: scan_round.induct)
  case (1 seen)
  then show ?case by (auto simp: calls_of_def ids_ok_def intro: exchange_empty)
next
  case (2 seen m ms)
  consider (tool) "cm_role m = RoleTool" | (plain) "cm_role m \<noteq> RoleTool" "cm_role m \<noteq> RoleAssistant \<or> cm_calls m = []"
    | (calls) "cm_role m = RoleAssistant" "cm_calls m \<noteq> []" by auto
  then show ?case
  proof cases
    case tool
    then show ?thesis by (simp add: exchange_Cons)
  next
    case plain
    then have "message_calls m = []" by (auto simp: message_calls_def)
    with plain 2(1) [OF plain] show ?thesis by (simp add: exchange_Cons calls_of_Cons)
  next
    case calls
    let ?n = "length (cm_calls m)"
    have not: "cm_role m \<noteq> RoleTool" "\<not> (cm_role m \<noteq> RoleAssistant \<or> cm_calls m = [])" using calls by auto
    show ?thesis
    proof (cases "length ms < ?n \<or> match_calls seen (cm_calls m) ms = None")
      case True
      then have "\<not> (?n \<le> length ms \<and> list_all2 answers (take ?n ms) (cm_calls m) \<and> ids_ok seen (cm_calls m))"
        using match_calls_iff [of seen "cm_calls m" ms "rev (map cc_id (cm_calls m)) @ seen"] by auto
      moreover have "scan_round seen (m # ms) = None" using True not by (auto split: option.split)
      moreover have "ids_ok seen (calls_of (m # ms)) \<Longrightarrow> ids_ok seen (cm_calls m)"
        using calls by (simp add: calls_of_Cons message_calls_def ids_ok_append)
      ultimately show ?thesis using not by (auto simp: exchange_Cons)
    next
      case False
      then obtain seen1 where seen1: "match_calls seen (cm_calls m) ms = Some seen1" by auto
      then have m: "?n \<le> length ms" "list_all2 answers (take ?n ms) (cm_calls m)" "ids_ok seen (cm_calls m)"
        "seen1 = rev (map cc_id (cm_calls m)) @ seen" by (simp_all add: match_calls_iff)
      have "calls_of (m # ms) = cm_calls m @ calls_of (drop ?n ms)"
        using answered_calls [OF m(2)] calls calls_of_split [of ms ?n] by (simp add: calls_of_Cons message_calls_def)
      moreover have "scan_round seen (m # ms) = scan_round seen1 (drop ?n ms)" using False not seen1 by simp
      moreover have "scan_round seen1 (drop ?n ms) = Some seen' \<longleftrightarrow> exchange (drop ?n ms) \<and>
          ids_ok seen1 (calls_of (drop ?n ms)) \<and> seen' = rev (map cc_id (calls_of (drop ?n ms))) @ seen1"
        using 2(2) [OF not _ seen1] False by simp
      ultimately show ?thesis using not m by (simp add: exchange_Cons ids_ok_append)
    qed
  qed
qed

text \<open>
  C23. A tool round is complete exactly when it is an exchange of at least three messages that ends with a
  tool's answer, has at least one call, and gives its calls distinct identifiers that are not empty.
\<close>

theorem complete_round_iff:
  "completeToolRound ms = (3 \<le> length ms \<and> cm_role (last ms) = RoleTool \<and> exchange ms \<and> calls_of ms \<noteq> [] \<and> ids_ok [] (calls_of ms))"
proof (cases "scan_round [] ms")
  case None
  then have "\<not> (exchange ms \<and> ids_ok [] (calls_of ms))" using scan_round_iff [of "[]" ms] by auto
  with None show ?thesis by (auto simp: completeToolRound_def)
next
  case (Some seen)
  with scan_round_iff [of "[]" ms seen] show ?thesis by (auto simp: completeToolRound_def)
qed

section \<open>The store with its receipts\<close>

datatype receipt_op =
  OnStore store_op
| DoRound time lease tool_round
| DoReply time lease string string string string string "chat_response option"

text \<open>The conversions of the SDK and of \<^verbatim>\<open>encoding/json\<close>.\<close>

record codec =
  enc_round :: "chat_message list \<Rightarrow> string option"
  enc_reply :: "chat_response \<times> bool \<Rightarrow> string option"

fun receipt_step :: "environment \<Rightarrow> codec \<Rightarrow> receipt_op \<Rightarrow> receipts \<Rightarrow> receipts" where
  "receipt_step sh cd (OnStore op1) s = s\<lparr>rc_store := store_step sh op1 (rc_store s)\<rparr>"
| "receipt_step sh cd (DoRound now l r) s =
     (case CheckpointToolRound (enc_round cd) (snd sh) now l r s of Inl e \<Rightarrow> s | Inr s' \<Rightarrow> s')"
| "receipt_step sh cd (DoReply now l invn role node input model response) s =
     (case CheckpointAgentReply (enc_reply cd) (snd sh) now l invn role node input model response s of Inl e \<Rightarrow> s | Inr s' \<Rightarrow> s')"

definition empty_receipts :: receipts where
  "empty_receipts = \<lparr>rc_store = empty_store, rc_rounds = [], rc_replies = []\<rparr>"

abbreviation receipts_after :: "environment \<Rightarrow> codec \<Rightarrow> receipt_op list \<Rightarrow> receipts" where
  "receipts_after sh cd ops \<equiv> fold (receipt_step sh cd) ops empty_receipts"

text \<open>The journal is keyed, and so are the rounds.\<close>

definition round_pk :: "round_row \<Rightarrow> dkey \<times> string \<times> int" where
  "round_pk x = (rd_key x, rd_invocation x, rd_number x)"

lemma checkpoint_round_effect:
  assumes "CheckpointToolRound encode sha_hex now l r s = Inr s'"
  obtains data where "encode (tr_messages r) = Some data" and "completeToolRound (tr_messages r)"
    and "verifyLease l now (rc_store s) = Inr ((), rc_store s)"
    and "\<And>calls after. last_calls (tr_messages r) = Some (calls, after) \<Longrightarrow>
      check_calls (d_key (le_delivery l)) (tr_invocation r) (tr_effectful r) (rc_store s) (zip calls after) = Inr ()"
    and "s' = s\<lparr>rc_rounds := rc_rounds s @ [new_round sha_hex l r data]\<rparr>" and "tr_role r \<noteq> ''''" and "tr_model r \<noteq> ''''"
    and "round_pk (new_round sha_hex l r data) \<notin> round_pk ` set (rc_rounds s)"
proof -
  from assms have valid: "tr_role r \<noteq> ''''" "tr_model r \<noteq> ''''" "completeToolRound (tr_messages r)"
    by (auto simp: CheckpointToolRound_def split: if_splits)
  from assms obtain data where data: "encode (tr_messages r) = Some data"
    by (auto simp: CheckpointToolRound_def split: if_splits option.splits)
  have lease: "verifyLease l now (rc_store s) = Inr ((), rc_store s)"
    using assms by (auto simp: CheckpointToolRound_def verifyLease_def tx_read_def data split: if_splits sum.splits)
  note run = assms [unfolded CheckpointToolRound_def data lease option.case sum.case]
  have calls: "check_calls (d_key (le_delivery l)) (tr_invocation r) (tr_effectful r) (rc_store s) (zip calls after) = Inr ()"
    if "last_calls (tr_messages r) = Some (calls, after)" for calls after
    using run by (auto simp: that split: if_splits sum.splits)
  have "insert_round (new_round sha_hex l r data) s = Inr s'" using run by (auto split: if_splits sum.splits option.splits)
  then have "s' = s\<lparr>rc_rounds := rc_rounds s @ [new_round sha_hex l r data]\<rparr>"
    and "round_pk (new_round sha_hex l r data) \<notin> round_pk ` set (rc_rounds s)"
    by (auto simp: insert_round_def row_find_None round_pk_def split: if_splits)
  with data valid lease calls show ?thesis by (intro that)
qed

lemma checkpoint_reply_frame:
  "CheckpointAgentReply encode sha_hex now l invn role node input model response s = Inr s' \<Longrightarrow>
    rc_store s' = rc_store s \<and> rc_rounds s' = rc_rounds s"
  by (auto simp: CheckpointAgentReply_def insert_reply_def Let_def split: if_splits option.splits sum.splits)

definition receipts_ok :: "receipts \<Rightarrow> bool" where
  "receipts_ok s = (ops_ok (rc_store s) \<and> distinct (map round_pk (rc_rounds s)))"

definition receipts_le :: "receipts \<Rightarrow> receipts \<Rightarrow> bool" where
  "receipts_le s s' = (ops_le (rc_store s) (rc_store s') \<and> (\<exists>new. rc_rounds s' = rc_rounds s @ new))"

lemma receipt_step_good:
  assumes "receipts_ok s"
  shows "receipts_ok (receipt_step sh cd op1 s) \<and> receipts_le s (receipt_step sh cd op1 s)"
proof (cases op1)
  case (OnStore x)
  with assms step_ops [of "rc_store s" sh x] show ?thesis by (simp add: receipts_ok_def receipts_le_def)
next
  case (DoRound now l r)
  show ?thesis
  proof (cases "CheckpointToolRound (enc_round cd) (snd sh) now l r s")
    case (Inl e)
    with DoRound assms show ?thesis by (simp add: receipts_le_def ops_le_same)
  next
    case (Inr s')
    obtain data where "s' = s\<lparr>rc_rounds := rc_rounds s @ [new_round (snd sh) l r data]\<rparr>"
      and "round_pk (new_round (snd sh) l r data) \<notin> round_pk ` set (rc_rounds s)"
      by (rule checkpoint_round_effect [OF Inr])
    with DoRound Inr assms show ?thesis by (simp add: receipts_ok_def receipts_le_def ops_le_same)
  qed
next
  case (DoReply now l invn role node input model response)
  show ?thesis
  proof (cases "CheckpointAgentReply (enc_reply cd) (snd sh) now l invn role node input model response s")
    case (Inl e)
    with DoReply assms show ?thesis by (simp add: receipts_le_def ops_le_same)
  next
    case (Inr s')
    with checkpoint_reply_frame [OF Inr] DoReply assms show ?thesis by (simp add: receipts_ok_def receipts_le_def ops_le_same)
  qed
qed

lemma receipts_le_trans: "receipts_le a b \<Longrightarrow> receipts_le b c \<Longrightarrow> receipts_le a c"
  unfolding receipts_le_def by (metis append_assoc ops_le_trans)

interpretation receipts: monotone_machine "receipt_step sh cd" receipts_ok receipts_le for sh :: environment and cd :: codec
proof
  show "receipts_le s s" for s by (simp add: receipts_le_def ops_le_same)
qed (use receipt_step_good receipts_le_trans in blast)+

lemma receipts_reach: "receipts_ok (receipts_after sh cd ops)"
  by (rule receipts.run_inv) (simp add: receipts_ok_def empty_receipts_def empty_ops_ok)

section \<open>Only observed effects are blessed\<close>

lemma check_calls_effect:
  "check_calls k invocation effectful st cs = Inr () \<Longrightarrow> (c, m) \<in> set cs \<Longrightarrow>
     (\<exists>o1. loadOperation k (operation_id invocation c) st = Inr o1 \<and> finished o1 \<and> op_result o1 = cm_content m) \<or>
     cc_id c \<notin> set effectful \<and> loadOperation k (operation_id invocation c) st = Inl ErrOperationNotFound"
proof (induction k invocation effectful st cs rule: check_calls.induct)
  case (2 k invocation effectful st c' m' cs)
  show ?case
  proof (cases "loadOperation k (operation_id invocation c') st")
    case (Inl e)
    with 2(3) have "e = ErrOperationNotFound" "\<not> List.member effectful (cc_id c')" "check_calls k invocation effectful st cs = Inr ()"
      by (simp_all split: if_splits)
    with 2(1) [OF Inl] 2(4) Inl show ?thesis by auto
  next
    case (Inr o1)
    with 2(3) have "finished o1" "op_result o1 = cm_content m'" "check_calls k invocation effectful st cs = Inr ()"
      by (simp_all split: if_splits)
    with 2(2) [OF Inr] 2(4) Inr show ?thesis by auto
  qed
qed simp

lemma rank_max: "status_rank x \<le> 2"
  by (cases x) (simp_all add: status_rank_def)

lemma finished_stays:
  assumes ok: "ops_ok st'" and le: "ops_le st st'" and load: "loadOperation k oid st = Inr o1" and "finished o1"
  shows "loadOperation k oid st' = Inr o1"
proof -
  note mem = loadOperation_mem [OF load]
  from ops_le_row [OF le conjunct1 [OF mem]] obtain o2 where o2: "o2 \<in> set (t_operations st')" "op_up o1 o2" .
  have "\<not> status_rank (op_status o1) < status_rank (op_status o2)"
    using assms(4) rank_max [of "op_status o2"] by (auto simp: finished_def status_rank_def)
  with o2(2) have "o2 = o1" by (simp add: op_up_def)
  with loadOperation_unique [OF ok o2(1)] mem show ?thesis by simp
qed

text \<open>
  C7. A tool round that was checkpointed blesses only effects that happened: for every call of its last
  exchange that has an effect, or a record of one, the journal holds the operation as observed or
  reconciled with exactly the result that the round shows, and it does so after any further calls.
\<close>

theorem round_blesses_observed:
  assumes "CheckpointToolRound encode sha_hex now l r (receipts_after sh cd ops) = Inr s'"
    and "last_calls (tr_messages r) = Some (calls, answers_of)" and "(c, m) \<in> set (zip calls answers_of)"
    and "cc_id c \<in> set (tr_effectful r) \<or>
      loadOperation (d_key (le_delivery l)) (operation_id (tr_invocation r) c) (rc_store (receipts_after sh cd ops)) \<noteq> Inl ErrOperationNotFound"
  shows "\<exists>o1. loadOperation (d_key (le_delivery l)) (operation_id (tr_invocation r) c) (rc_store (fold (receipt_step sh cd) ops' s')) = Inr o1 \<and>
    (op_status o1 = OperationObserved \<or> op_status o1 = OperationReconciled) \<and> op_result o1 = cm_content m"
proof -
  let ?s = "receipts_after sh cd ops"
  obtain data where checked: "check_calls (d_key (le_delivery l)) (tr_invocation r) (tr_effectful r) (rc_store ?s) (zip calls answers_of) = Inr ()"
    and s': "s' = ?s\<lparr>rc_rounds := rc_rounds ?s @ [new_round sha_hex l r data]\<rparr>"
    and pk: "round_pk (new_round sha_hex l r data) \<notin> round_pk ` set (rc_rounds ?s)"
    using checkpoint_round_effect [OF assms(1)] assms(2) by metis
  from check_calls_effect [OF checked assms(3)] assms(4) obtain o1 where
    o1: "loadOperation (d_key (le_delivery l)) (operation_id (tr_invocation r) c) (rc_store ?s) = Inr o1" "finished o1"
      "op_result o1 = cm_content m" by blast
  have ok': "receipts_ok s'" using receipts_reach [of sh cd ops] s' pk by (simp add: receipts_ok_def)
  have "ops_ok (rc_store (fold (receipt_step sh cd) ops' s'))" using receipts.run_inv [OF ok'] by (simp add: receipts_ok_def)
  moreover have "ops_le (rc_store ?s) (rc_store (fold (receipt_step sh cd) ops' s'))"
    using receipts.run_le [OF ok', of sh cd ops'] s' by (simp add: receipts_le_def)
  ultimately show ?thesis using finished_stays [OF _ _ o1(1,2)] o1(2,3) by (metis finished_def)
qed

section \<open>A replacement continues where the round ended\<close>

lemma sort_key_hd:
  assumes "x \<in> set xs" and "\<forall>y \<in> set xs. y \<noteq> x \<longrightarrow> f x < f y"
  shows "\<exists>ys. sort_key f xs = x # ys"
proof (cases "sort_key f xs")
  case Nil
  with assms(1) show ?thesis by (metis empty_iff empty_set set_sort)
next
  case (Cons y ys)
  have "x \<in> set (y # ys)" and y: "y \<in> set xs" using assms(1) Cons by (metis set_sort, metis list.set_intros(1) set_sort)
  moreover have "sorted (map f (y # ys))" by (metis Cons sorted_sort_key)
  ultimately have "f y \<le> f x" by auto
  with assms(2) y have "y = x" by force
  with Cons show ?thesis by simp
qed

text \<open>No other round of the role and node is as late as a given one, among the attempts before one.\<close>

definition latest_of :: "receipts \<Rightarrow> lease \<Rightarrow> tool_round \<Rightarrow> int \<Rightarrow> bool" where
  "latest_of s l r limit = (\<forall>y \<in> set (rc_rounds s). rd_key y = d_key (le_delivery l) \<longrightarrow> rd_role y = tr_role r \<longrightarrow>
     rd_node y = tr_node r \<longrightarrow> rd_attempt y < limit \<longrightarrow>
     rd_attempt y < le_attempt l \<or> rd_attempt y = le_attempt l \<and> rd_number y < tr_number r \<or>
     rd_attempt y = le_attempt l \<and> rd_number y = tr_number r \<and> rd_invocation y = tr_invocation r)"

lemma latest_round_is:
  assumes ok: "receipts_ok s" and row: "row = new_round sha_hex l r data" "row \<in> set (rc_rounds s)"
    and latest: "latest_of s l r limit" and wanted: "wanted (le_attempt l)" and below: "\<And>a. wanted a \<Longrightarrow> a < limit"
  shows "latest_round (d_key (le_delivery l)) (tr_role r) (tr_node r) wanted s = Some row"
proof -
  let ?xs = "filter (\<lambda>x. rd_key x = d_key (le_delivery l) \<and> rd_role x = tr_role r \<and> rd_node x = tr_node r \<and> wanted (rd_attempt x)) (rc_rounds s)"
  have fields: "rd_key row = d_key (le_delivery l)" "rd_role row = tr_role r" "rd_node row = tr_node r" "rd_attempt row = le_attempt l"
    "rd_number row = tr_number r" "rd_invocation row = tr_invocation r" by (simp_all add: row(1) new_round_def)
  have mem: "row \<in> set ?xs" using row(2) fields wanted by simp
  have least: "\<forall>y \<in> set ?xs. y \<noteq> row \<longrightarrow> (- rd_attempt row, - rd_number row) < (- rd_attempt y, - rd_number y)"
  proof (intro ballI impI)
    fix y assume y: "y \<in> set ?xs" and "y \<noteq> row"
    have "inj_on round_pk (set (rc_rounds s))" using ok by (simp add: receipts_ok_def distinct_map)
    moreover have "y \<in> set (rc_rounds s)" using y by simp
    ultimately have "round_pk y \<noteq> round_pk row" using row(2) \<open>y \<noteq> row\<close> by (metis inj_onD)
    then have "\<not> (rd_attempt y = le_attempt l \<and> rd_number y = tr_number r \<and> rd_invocation y = tr_invocation r)"
      using y fields by (auto simp: round_pk_def)
    moreover have "y \<in> set (rc_rounds s)" "rd_key y = d_key (le_delivery l)" "rd_role y = tr_role r" "rd_node y = tr_node r"
      "rd_attempt y < limit" using y below by simp_all
    ultimately have "rd_attempt y < le_attempt l \<or> rd_attempt y = le_attempt l \<and> rd_number y < tr_number r"
      using latest unfolding latest_of_def by blast
    then show "(- rd_attempt row, - rd_number row) < (- rd_attempt y, - rd_number y)"
      unfolding fields by auto
  qed
  from sort_key_hd [OF mem least] obtain ys where "sort_key (\<lambda>x. (- rd_attempt x, - rd_number x)) ?xs = row # ys" ..
  then show ?thesis by (simp add: latest_round_def)
qed

lemma round_stays:
  assumes "CheckpointToolRound encode sha_hex now l r (receipts_after sh cd ops) = Inr s1"
  obtains data where "encode (tr_messages r) = Some data" and "completeToolRound (tr_messages r)"
    and "new_round sha_hex l r data \<in> set (rc_rounds (fold (receipt_step sh cd) ops' s1))"
    and "receipts_ok (fold (receipt_step sh cd) ops' s1)" and "tr_role r \<noteq> ''''" and "tr_model r \<noteq> ''''"
proof -
  let ?s = "receipts_after sh cd ops"
  obtain data where data: "encode (tr_messages r) = Some data" and complete: "completeToolRound (tr_messages r)"
    and s1: "s1 = ?s\<lparr>rc_rounds := rc_rounds ?s @ [new_round sha_hex l r data]\<rparr>" and names: "tr_role r \<noteq> ''''" "tr_model r \<noteq> ''''"
    and pk: "round_pk (new_round sha_hex l r data) \<notin> round_pk ` set (rc_rounds ?s)"
    by (rule checkpoint_round_effect [OF assms])
  have ok: "receipts_ok s1" using receipts_reach [of sh cd ops] s1 pk by (simp add: receipts_ok_def)
  from receipts.run_le [OF ok, of sh cd ops'] obtain new where "rc_rounds (fold (receipt_step sh cd) ops' s1) = rc_rounds s1 @ new"
    by (auto simp: receipts_le_def)
  with s1 have "new_round sha_hex l r data \<in> set (rc_rounds (fold (receipt_step sh cd) ops' s1))" by simp
  with data complete names receipts.run_inv [OF ok] show ?thesis by (intro that)
qed

text \<open>
  C8. A replacement worker resumes from exactly the messages that were checkpointed: after any further
  calls, a valid lease of a later attempt at the same goal that asks for the role, node, input and model
  of the latest round gets that round's messages back. The SDK's decoding must undo its encoding.
\<close>

theorem round_resumed:
  assumes "CheckpointToolRound (enc_round cd) (snd sh) now l r (receipts_after sh cd ops) = Inr s1"
    and "\<forall>ms data. enc_round cd ms = Some data \<longrightarrow> decode data = Some ms"
    and "valid_lease l2 now2 (rc_store (fold (receipt_step sh cd) ops' s1))"
    and "d_key (le_delivery l2) = d_key (le_delivery l)" and "d_goal_revision (le_delivery l2) = d_goal_revision (le_delivery l)"
    and "le_attempt l < le_attempt l2" and "latest_of (fold (receipt_step sh cd) ops' s1) l r (le_attempt l2)"
  shows "ResumeToolRound decode (snd sh) now2 l2 (tr_role r) (tr_node r) (tr_input r) (tr_model r) (fold (receipt_step sh cd) ops' s1) =
    Inr (Some (tr_messages r))"
proof -
  let ?s = "fold (receipt_step sh cd) ops' s1"
  obtain data where data: "enc_round cd (tr_messages r) = Some data" and complete: "completeToolRound (tr_messages r)"
    and row: "new_round (snd sh) l r data \<in> set (rc_rounds ?s)" and ok: "receipts_ok ?s" and names: "tr_role r \<noteq> ''''" "tr_model r \<noteq> ''''"
    by (rule round_stays [OF assms(1)])
  have "latest_round (d_key (le_delivery l)) (tr_role r) (tr_node r) (\<lambda>a. a < le_attempt l2) ?s = Some (new_round (snd sh) l r data)"
    by (rule latest_round_is [OF ok refl row assms(7)]) (simp_all add: assms(6))
  moreover have "verifyLease l2 now2 (rc_store ?s) = Inr ((), rc_store ?s)"
    using assms(3) by (simp add: verifyLease_def tx_read_def valid_lease_def)
  moreover have "decode data = Some (tr_messages r)" using assms(2) data by blast
  ultimately show ?thesis
    using names complete assms(4,5) by (simp add: ResumeToolRound_def new_round_def)
qed

lemma covered_last:
  assumes "last_calls ms = Some (calls, later)" and "(c, m) \<in> set (zip calls later)"
    and "op_id o1 = operation_id invocation c" and "op_kind o1 = cc_name c" and "op_result o1 = cm_content m"
  shows "covered_by invocation o1 ms"
  using assms
proof (induction ms)
  case (Cons x ms)
  show ?case
  proof (cases "last_calls ms")
    case None
    with Cons.prems(1) have "cm_role x = RoleAssistant" "calls = cm_calls x" "later = ms" by (auto split: if_splits)
    with Cons.prems(2-5) show ?thesis by (auto simp: list_ex_iff intro!: bexI [of _ "(c, m)"])
  next
    case (Some y)
    with Cons show ?thesis by simp
  qed
qed simp

text \<open>
  C22. A checkpointed round covers its effects: after any further calls, an operation that was finished in
  the round's attempt, role and node, with the name and the result of one of the calls of its last
  exchange, is recognised as covered, so a replacement may continue after it.
\<close>

theorem round_covers:
  assumes "CheckpointToolRound (enc_round cd) (snd sh) now l r (receipts_after sh cd ops) = Inr s1"
    and "\<forall>ms data. enc_round cd ms = Some data \<longrightarrow> decode data = Some ms"
    and "d_key (le_delivery l2) = d_key (le_delivery l)" and "latest_of (fold (receipt_step sh cd) ops' s1) l r (le_attempt l + 1)"
    and "op_status o1 = OperationObserved \<or> op_status o1 = OperationReconciled"
    and "op_attempt o1 = le_attempt l" and "op_role o1 = tr_role r" and "op_node o1 = tr_node r"
    and "last_calls (tr_messages r) = Some (calls, answers_of)" and "(c, m) \<in> set (zip calls answers_of)"
    and "op_id o1 = operation_id (tr_invocation r) c" and "op_kind o1 = cc_name c" and "op_result o1 = cm_content m"
  shows "CoversOperation decode l2 o1 (fold (receipt_step sh cd) ops' s1) = Inr True"
proof -
  let ?s = "fold (receipt_step sh cd) ops' s1"
  obtain data where data: "enc_round cd (tr_messages r) = Some data" and complete: "completeToolRound (tr_messages r)"
    and row: "new_round (snd sh) l r data \<in> set (rc_rounds ?s)" and ok: "receipts_ok ?s"
    by (rule round_stays [OF assms(1)])
  have "latest_round (d_key (le_delivery l)) (tr_role r) (tr_node r) (\<lambda>a. a = le_attempt l) ?s = Some (new_round (snd sh) l r data)"
    by (rule latest_round_is [OF ok refl row assms(4)]) simp_all
  moreover have "decode data = Some (tr_messages r)" using assms(2) data by blast
  moreover have "covered_by (tr_invocation r) o1 (tr_messages r)" by (rule covered_last [OF assms(9-13)])
  ultimately show ?thesis
    using complete assms(3,5-8) by (auto simp: CoversOperation_def finished_def new_round_def)
qed

section \<open>Instances\<close>

definition sample_messages :: "chat_message list" where
  "sample_messages = [
     \<lparr>cm_role = RoleUser, cm_content = ''do it'', cm_name = '''', cm_call_id = '''', cm_calls = [], cm_other = ''''\<rparr>,
     \<lparr>cm_role = RoleAssistant, cm_content = '''', cm_name = '''', cm_call_id = '''', cm_calls = [\<lparr>cc_id = ''c1'', cc_name = ''write''\<rparr>], cm_other = ''''\<rparr>,
     \<lparr>cm_role = RoleTool, cm_content = ''done'', cm_name = ''write'', cm_call_id = ''c1'', cm_calls = [], cm_other = ''''\<rparr>]"

text \<open>A conversion that stores this conversation only.\<close>

definition sample_codec :: codec where
  "sample_codec = \<lparr>enc_round = (\<lambda>ms. if ms = sample_messages then Some ''saved'' else None), enc_reply = (\<lambda>_. None)\<rparr>"

definition sample_decode :: "string \<Rightarrow> chat_message list option" where
  "sample_decode data = (if data = ''saved'' then Some sample_messages else None)"

definition sample_round :: tool_round where
  "sample_round = \<lparr>tr_invocation = ''i'', tr_role = ''coder'', tr_node = ''n'', tr_input = ''in'', tr_model = ''m'', tr_number = 1,
     tr_messages = sample_messages, tr_effectful = [''c1'']\<rparr>"

definition sample_call :: operation_row where
  "sample_call = sample_operation\<lparr>op_id := ''i:c1'', op_role := ''coder'', op_node := ''n''\<rparr>"

definition sample_history :: "receipt_op list" where
  "sample_history = map OnStore (sample_claims @ [DoPrepare 3000000000 3000000000 sample_lease sample_call,
     DoBegin 4000000000 sample_lease ''i:c1'', DoObserve 5000000000 sample_lease ''i:c1'' ''done'' ''h'' ''''])"

definition sample_saved :: receipts where
  "sample_saved = projr (CheckpointToolRound (enc_round sample_codec) (snd sample_env) 6000000000 sample_lease sample_round
     (receipts_after sample_env sample_codec sample_history))"

definition sample_after :: "receipt_op list" where
  "sample_after = [OnStore (DoClaim 20000000000 ''x'' 10000000000)]"

definition sample_successor :: lease where
  "sample_successor = projr (fst (run_tx (Claim 20000000000 ''x'' 10000000000) (rc_store sample_saved)))"

lemma sample_checkpointed:
  "CheckpointToolRound (enc_round sample_codec) (snd sample_env) 6000000000 sample_lease sample_round
     (receipts_after sample_env sample_codec sample_history) = Inr sample_saved"
proof -
  have "\<not> isl (CheckpointToolRound (enc_round sample_codec) (snd sample_env) 6000000000 sample_lease sample_round
     (receipts_after sample_env sample_codec sample_history))" by code_simp
  then show ?thesis unfolding sample_saved_def by (metis sum.collapse(2))
qed

lemma sample_codec_ok: "\<forall>ms data. enc_round sample_codec ms = Some data \<longrightarrow> sample_decode data = Some ms"
  by (simp add: sample_codec_def sample_decode_def)

lemma sample_successor_valid:
  "valid_lease sample_successor 21000000000 (rc_store (fold (receipt_step sample_env sample_codec) sample_after sample_saved))"
  by code_simp

lemma sample_successor_same:
  "(d_key (le_delivery sample_successor), d_goal_revision (le_delivery sample_successor), le_attempt sample_successor) =
   (d_key (le_delivery sample_lease), d_goal_revision (le_delivery sample_lease), le_attempt sample_lease + 1)"
  by code_simp

lemma sample_latest:
  "latest_of (fold (receipt_step sample_env sample_codec) sample_after sample_saved) sample_lease sample_round (le_attempt sample_lease + 1)"
  by code_simp

lemma sample_resume:
  "d_key (le_delivery sample_successor) = d_key (le_delivery sample_lease)"
  "d_goal_revision (le_delivery sample_successor) = d_goal_revision (le_delivery sample_lease)"
  "le_attempt sample_lease < le_attempt sample_successor"
  "latest_of (fold (receipt_step sample_env sample_codec) sample_after sample_saved) sample_lease sample_round (le_attempt sample_successor)"
  using sample_successor_same sample_latest by simp_all

lemma sample_last: "last_calls (tr_messages sample_round) = Some ([\<lparr>cc_id = ''c1'', cc_name = ''write''\<rparr>], [sample_messages ! 2])"
  by code_simp

theorem round_blesses_observed_witness:
  "\<exists>o1. loadOperation (d_key (le_delivery sample_lease)) ''i:c1'' (rc_store (fold (receipt_step sample_env sample_codec) sample_after sample_saved)) = Inr o1 \<and>
     op_result o1 = ''done''"
proof -
  have effect: "cc_id \<lparr>cc_id = ''c1'', cc_name = ''write''\<rparr> \<in> set (tr_effectful sample_round)" by (simp add: sample_round_def)
  have "(\<lparr>cc_id = ''c1'', cc_name = ''write''\<rparr>, sample_messages ! 2) \<in> set (zip [\<lparr>cc_id = ''c1'', cc_name = ''write''\<rparr>] [sample_messages ! 2])" by simp
  from round_blesses_observed [OF sample_checkpointed sample_last this disjI1 [OF effect], of sample_after]
  show ?thesis by (auto simp: operation_id_def sample_round_def sample_messages_def)
qed

theorem round_resumed_witness:
  "ResumeToolRound sample_decode (snd sample_env) 21000000000 sample_successor ''coder'' ''n'' ''in'' ''m''
     (fold (receipt_step sample_env sample_codec) sample_after sample_saved) = Inr (Some sample_messages)"
  using round_resumed [OF sample_checkpointed sample_codec_ok sample_successor_valid sample_resume] by (simp add: sample_round_def)

theorem round_covers_witness:
  "CoversOperation sample_decode sample_successor (sample_call\<lparr>op_status := OperationObserved, op_attempt := le_attempt sample_lease, op_result := ''done''\<rparr>)
     (fold (receipt_step sample_env sample_codec) sample_after sample_saved) = Inr True"
  by (rule round_covers [OF sample_checkpointed sample_codec_ok sample_resume(1) sample_latest _ _ _ _ sample_last,
        of _ "\<lparr>cc_id = ''c1'', cc_name = ''write''\<rparr>" "sample_messages ! 2"])
    (simp_all add: sample_call_def sample_round_def sample_operation_def operation_id_def sample_messages_def)

end
