(* ===== verification/Task_Budget.thy ===== *)
theory Task_Budget
  imports Chronos_Prelude
begin

text \<open>
  The limits of one task and the order of its event stream (\<^verbatim>\<open>internal/execution/task_budget.go\<close> and the
  end of \<^verbatim>\<open>envelope.go\<close>). Counters are 64-bit integers; the instants the clock returns are arguments. The
  lock makes each method one step.
\<close>

section \<open>Data\<close>

datatype budget_dimension =
  BudgetRepairAttempts | BudgetModelCalls | BudgetToolCalls | BudgetWallTime | BudgetTokens | BudgetCost | BudgetOther string

record task_limits =
  tl_repairs :: int
  tl_model_calls :: int
  tl_tool_calls :: int
  tl_wall :: int
  tl_tokens :: int
  tl_cost :: int

text \<open>\<open>bu_exhausted\<close> is \<^verbatim>\<open>ExhaustedDimension\<close>, the empty other when none is.\<close>

record task_budget =
  bu_limits :: task_limits
  bu_started :: time
  bu_repairs :: int
  bu_model_calls :: int
  bu_tool_calls :: int
  bu_tokens :: int
  bu_cost :: int
  bu_exhausted :: budget_dimension

datatype budget_error = BudgetExceeded budget_dimension int int | BudgetNegative | BudgetOverflow budget_dimension | BudgetUnknown budget_dimension

section \<open>Operations\<close>

abbreviation most_int :: int where
  "most_int \<equiv> 9223372036854775807"

abbreviation least_int :: int where
  "least_int \<equiv> - 9223372036854775808"

text \<open>Addition of machine integers.\<close>

definition add_int :: "int \<Rightarrow> int \<Rightarrow> int" where
  "add_int a b = (a + b + 9223372036854775808) mod 18446744073709551616 - 9223372036854775808"

text \<open>\<^verbatim>\<open>time.Time.Sub\<close> saturates.\<close>

definition time_sub :: "time \<Rightarrow> time \<Rightarrow> int" where
  "time_sub a b = max least_int (min most_int (a - b))"

definition NewTaskBudget :: "time \<Rightarrow> task_limits \<Rightarrow> time \<Rightarrow> task_budget" where
  "NewTaskBudget now limits started = \<lparr>bu_limits = limits, bu_started = (if started = 0 then now else started), bu_repairs = 0,
     bu_model_calls = 0, bu_tool_calls = 0, bu_tokens = 0, bu_cost = 0, bu_exhausted = BudgetOther ''''\<rparr>"

definition checkLimit :: "budget_dimension \<Rightarrow> int \<Rightarrow> int \<Rightarrow> int \<Rightarrow> budget_error option" where
  "checkLimit dim used requested limit =
     (if 0 < limit \<and> (limit \<le> used \<or> limit - used < requested) then Some (BudgetExceeded dim used limit) else None)"

definition checkWallTimeLocked :: "time \<Rightarrow> task_budget \<Rightarrow> budget_error option \<times> task_budget" where
  "checkWallTimeLocked now b =
     (let elapsed = time_sub now (bu_started b); limit = tl_wall (bu_limits b)
      in if limit \<le> 0 \<or> elapsed < limit then (None, b)
         else (Some (BudgetExceeded BudgetWallTime elapsed limit), b\<lparr>bu_exhausted := BudgetWallTime\<rparr>))"

fun used_of :: "budget_dimension \<Rightarrow> task_budget \<Rightarrow> int" where
  "used_of BudgetRepairAttempts b = bu_repairs b"
| "used_of BudgetModelCalls b = bu_model_calls b"
| "used_of BudgetToolCalls b = bu_tool_calls b"
| "used_of dim b = 0"

fun limit_of :: "budget_dimension \<Rightarrow> task_budget \<Rightarrow> int" where
  "limit_of BudgetRepairAttempts b = tl_repairs (bu_limits b)"
| "limit_of BudgetModelCalls b = tl_model_calls (bu_limits b)"
| "limit_of BudgetToolCalls b = tl_tool_calls (bu_limits b)"
| "limit_of dim b = 0"

fun set_used :: "budget_dimension \<Rightarrow> int \<Rightarrow> task_budget \<Rightarrow> task_budget" where
  "set_used BudgetRepairAttempts n b = b\<lparr>bu_repairs := n\<rparr>"
| "set_used BudgetModelCalls n b = b\<lparr>bu_model_calls := n\<rparr>"
| "set_used BudgetToolCalls n b = b\<lparr>bu_tool_calls := n\<rparr>"
| "set_used dim n b = b"

definition countable :: "budget_dimension \<Rightarrow> bool" where
  "countable dim = (dim \<in> {BudgetRepairAttempts, BudgetModelCalls, BudgetToolCalls})"

definition consume :: "time \<Rightarrow> budget_dimension \<Rightarrow> int \<Rightarrow> task_budget \<Rightarrow> budget_error option \<times> task_budget" where
  "consume now dim amount b = (case checkWallTimeLocked now b of
       (Some e, b1) \<Rightarrow> (Some e, b1)
     | (None, b1) \<Rightarrow>
         if \<not> countable dim then (Some (BudgetUnknown dim), b1)
         else (case checkLimit dim (used_of dim b1) amount (limit_of dim b1) of
             Some e \<Rightarrow> (Some e, b1\<lparr>bu_exhausted := dim\<rparr>)
           | None \<Rightarrow> (None, set_used dim (add_int (used_of dim b1) amount) b1)))"

definition ConsumeRepairAttempt :: "time \<Rightarrow> task_budget \<Rightarrow> budget_error option \<times> task_budget" where
  "ConsumeRepairAttempt now b = consume now BudgetRepairAttempts 1 b"

definition ConsumeModelCall :: "time \<Rightarrow> task_budget \<Rightarrow> budget_error option \<times> task_budget" where
  "ConsumeModelCall now b = consume now BudgetModelCalls 1 b"

definition ConsumeToolCall :: "time \<Rightarrow> task_budget \<Rightarrow> budget_error option \<times> task_budget" where
  "ConsumeToolCall now b = consume now BudgetToolCalls 1 b"

definition AddUsage :: "time \<Rightarrow> int \<Rightarrow> int \<Rightarrow> task_budget \<Rightarrow> budget_error option \<times> task_budget" where
  "AddUsage now tokens cost b =
     (if tokens < 0 \<or> cost < 0 then (Some BudgetNegative, b)
      else if most_int - bu_tokens b < tokens then (Some (BudgetOverflow BudgetTokens), b)
      else if most_int - bu_cost b < cost then (Some (BudgetOverflow BudgetCost), b)
      else (case checkWallTimeLocked now (b\<lparr>bu_tokens := bu_tokens b + tokens, bu_cost := bu_cost b + cost\<rparr>) of
          (Some e, b1) \<Rightarrow> (Some e, b1)
        | (None, b1) \<Rightarrow>
            if 0 < tl_tokens (bu_limits b1) \<and> tl_tokens (bu_limits b1) < bu_tokens b1
            then (Some (BudgetExceeded BudgetTokens (bu_tokens b1) (tl_tokens (bu_limits b1))), b1\<lparr>bu_exhausted := BudgetTokens\<rparr>)
            else if 0 < tl_cost (bu_limits b1) \<and> tl_cost (bu_limits b1) < bu_cost b1
            then (Some (BudgetExceeded BudgetCost (bu_cost b1) (tl_cost (bu_limits b1))), b1\<lparr>bu_exhausted := BudgetCost\<rparr>)
            else (None, b1)))"

section \<open>Runs of a task\<close>

datatype budget_call = CallRepair time | CallModel time | CallTool time | CallUsage time int int | CallCheck time

fun budget_step :: "budget_call \<Rightarrow> task_budget \<Rightarrow> budget_error option \<times> task_budget" where
  "budget_step (CallRepair now) b = ConsumeRepairAttempt now b"
| "budget_step (CallModel now) b = ConsumeModelCall now b"
| "budget_step (CallTool now) b = ConsumeToolCall now b"
| "budget_step (CallUsage now tokens cost) b = AddUsage now tokens cost b"
| "budget_step (CallCheck now) b = checkWallTimeLocked now b"

text \<open>The calls of a run with their results, and the budget after them.\<close>

primrec budget_run :: "budget_call list \<Rightarrow> task_budget \<Rightarrow> (budget_call \<times> budget_error option) list \<times> task_budget" where
  "budget_run [] b = ([], b)"
| "budget_run (c # cs) b = (let (r, b1) = budget_step c b; (rs, b2) = budget_run cs b1 in ((c, r) # rs, b2))"

definition granted :: "budget_dimension \<Rightarrow> (budget_call \<times> budget_error option) list \<Rightarrow> int" where
  "granted dim rs = int (length (filter (\<lambda>(c, r). r = None \<and> (case c of
     CallRepair now \<Rightarrow> dim = BudgetRepairAttempts | CallModel now \<Rightarrow> dim = BudgetModelCalls | CallTool now \<Rightarrow> dim = BudgetToolCalls
   | _ \<Rightarrow> False)) rs))"

text \<open>What a call adds to the tokens that are counted: everything that was not refused as negative or too large.\<close>

fun counted_usage :: "budget_call \<times> budget_error option \<Rightarrow> int \<times> int" where
  "counted_usage (CallUsage now tokens cost, r) =
     (case r of Some BudgetNegative \<Rightarrow> (0, 0) | Some (BudgetOverflow dim) \<Rightarrow> (0, 0) | _ \<Rightarrow> (tokens, cost))"
| "counted_usage cr = (0, 0)"

lemma wall_time_frame:
  assumes "checkWallTimeLocked now b = (r, b1)"
  shows "used_of dim b1 = used_of dim b" and "limit_of dim b1 = limit_of dim b" and "bu_tokens b1 = bu_tokens b"
    and "bu_cost b1 = bu_cost b" and "bu_limits b1 = bu_limits b" and "r \<noteq> Some BudgetNegative \<and> r \<noteq> Some (BudgetOverflow dim)"
  using assms by (cases dim; auto simp: checkWallTimeLocked_def Let_def split: if_splits)+

lemma used_simps:
  "used_of dim (b\<lparr>bu_exhausted := x\<rparr>) = used_of dim b" "limit_of dim (b\<lparr>bu_exhausted := x\<rparr>) = limit_of dim b"
  "used_of dim (b\<lparr>bu_tokens := t, bu_cost := c\<rparr>) = used_of dim b" "limit_of dim (b\<lparr>bu_tokens := t, bu_cost := c\<rparr>) = limit_of dim b"
  "limit_of dim (set_used dim' n b) = limit_of dim b"
  "countable dim' \<Longrightarrow> used_of dim (set_used dim' n b) = (if dim = dim' then n else used_of dim b)"
  "bu_tokens (set_used dim' n b) = bu_tokens b" "bu_cost (set_used dim' n b) = bu_cost b" "bu_limits (set_used dim' n b) = bu_limits b"
  by (cases dim; cases dim'; simp add: countable_def)+

text \<open>A counted call is granted exactly when the counter goes up by one, and then it is within its limit.\<close>

lemma consume_step:
  assumes "consume now dim 1 b = (r, b1)" and "countable dim" and "limit_of dim b \<le> most_int" and "0 \<le> used_of dim b"
    and "0 < limit_of dim b"
  shows "used_of dim b1 = used_of dim b + (if r = None then 1 else 0)" and "r = None \<Longrightarrow> used_of dim b < limit_of dim b"
proof -
  obtain e b2 where wall: "checkWallTimeLocked now b = (e, b2)" by (cases "checkWallTimeLocked now b")
  note frame = wall_time_frame [OF wall]
  have add: "used_of dim b < limit_of dim b \<Longrightarrow> add_int (used_of dim b) 1 = used_of dim b + 1"
    using assms(3,4) by (simp add: add_int_def)
  show "used_of dim b1 = used_of dim b + (if r = None then 1 else 0)" and "r = None \<Longrightarrow> used_of dim b < limit_of dim b"
    using assms(1,2,5) add frame(1,2) [of dim]
    by (auto simp: consume_def wall checkLimit_def used_simps split: option.splits if_splits)
qed

lemma consume_frame:
  assumes "consume now dim' 1 b = (r, b1)"
  shows "limit_of dim b1 = limit_of dim b" and "dim \<noteq> dim' \<Longrightarrow> used_of dim b1 = used_of dim b"
    and "bu_tokens b1 = bu_tokens b" and "bu_cost b1 = bu_cost b"
proof -
  obtain e b2 where wall: "checkWallTimeLocked now b = (e, b2)" by (cases "checkWallTimeLocked now b")
  note frame = wall_time_frame [OF wall]
  show "limit_of dim b1 = limit_of dim b" and "dim \<noteq> dim' \<Longrightarrow> used_of dim b1 = used_of dim b"
    and "bu_tokens b1 = bu_tokens b" and "bu_cost b1 = bu_cost b"
    using assms frame(1,2) [of dim] frame(3,4) by (auto simp: consume_def wall used_simps split: option.splits if_splits)
qed

lemma AddUsage_step:
  assumes "AddUsage now tokens cost b = (r, b1)"
  shows "used_of dim b1 = used_of dim b" and "limit_of dim b1 = limit_of dim b"
    and "(bu_tokens b1, bu_cost b1) = (bu_tokens b + fst (counted_usage (CallUsage now tokens cost, r)),
        bu_cost b + snd (counted_usage (CallUsage now tokens cost, r)))"
    and "0 \<le> bu_tokens b \<and> bu_tokens b \<le> most_int \<and> 0 \<le> bu_cost b \<and> bu_cost b \<le> most_int \<Longrightarrow>
      0 \<le> bu_tokens b1 \<and> bu_tokens b1 \<le> most_int \<and> 0 \<le> bu_cost b1 \<and> bu_cost b1 \<le> most_int"
proof -
  let ?b = "b\<lparr>bu_tokens := bu_tokens b + tokens, bu_cost := bu_cost b + cost\<rparr>"
  obtain e b2 where wall: "checkWallTimeLocked now ?b = (e, b2)" by (cases "checkWallTimeLocked now ?b")
  note frame = wall_time_frame [OF wall]
  have shape: "b1 = b \<and> (r = Some BudgetNegative \<or> (\<exists>d. r = Some (BudgetOverflow d))) \<or>
      tokens \<ge> 0 \<and> cost \<ge> 0 \<and> bu_tokens b + tokens \<le> most_int \<and> bu_cost b + cost \<le> most_int \<and>
      (b1 = b2 \<or> (\<exists>x. b1 = b2\<lparr>bu_exhausted := x\<rparr>)) \<and> r \<noteq> Some BudgetNegative \<and> (\<forall>d. r \<noteq> Some (BudgetOverflow d))"
    using assms frame(6) by (auto simp: AddUsage_def wall split: option.splits if_splits)
  then show "used_of dim b1 = used_of dim b" and "limit_of dim b1 = limit_of dim b"
    using frame(1,2) [of dim] by (auto simp: used_simps)
  from shape show "(bu_tokens b1, bu_cost b1) = (bu_tokens b + fst (counted_usage (CallUsage now tokens cost, r)),
        bu_cost b + snd (counted_usage (CallUsage now tokens cost, r)))"
    using frame(3,4) by (auto split: option.splits budget_error.splits)
  from shape show "0 \<le> bu_tokens b \<and> bu_tokens b \<le> most_int \<and> 0 \<le> bu_cost b \<and> bu_cost b \<le> most_int \<Longrightarrow>
      0 \<le> bu_tokens b1 \<and> bu_tokens b1 \<le> most_int \<and> 0 \<le> bu_cost b1 \<and> bu_cost b1 \<le> most_int"
    using frame(3,4) by auto
qed

lemma granted_Cons: "granted dim (x # rs) = granted dim [x] + granted dim rs"
  by (simp add: granted_def)

lemma budget_step_counts:
  assumes "budget_step c b = (r, b1)" and "countable dim" and "0 < limit_of dim b" and "limit_of dim b \<le> most_int"
    and "0 \<le> used_of dim b" and "used_of dim b \<le> limit_of dim b"
  shows "used_of dim b1 = used_of dim b + granted dim [(c, r)] \<and> used_of dim b1 \<le> limit_of dim b \<and> limit_of dim b1 = limit_of dim b"
proof -
  have consumed: "used_of dim b1 = used_of dim b + (if dim = dim' \<and> r = None then 1 else 0) \<and> used_of dim b1 \<le> limit_of dim b \<and>
      limit_of dim b1 = limit_of dim b" if "consume now dim' 1 b = (r, b1)" "countable dim'" for now dim'
  proof (cases "dim = dim'")
    case True
    with consume_step [of now dim b r b1] consume_frame(1) [OF that(1), of dim] that assms show ?thesis by auto
  next
    case False
    with consume_frame(1,2) [OF that(1), of dim] assms(6) show ?thesis by simp
  qed
  show ?thesis
  proof (cases c)
    case (CallRepair now)
    with assms(1) consumed [of now BudgetRepairAttempts] show ?thesis by (auto simp: ConsumeRepairAttempt_def countable_def granted_def)
  next
    case (CallModel now)
    with assms(1) consumed [of now BudgetModelCalls] show ?thesis by (auto simp: ConsumeModelCall_def countable_def granted_def)
  next
    case (CallTool now)
    with assms(1) consumed [of now BudgetToolCalls] show ?thesis by (auto simp: ConsumeToolCall_def countable_def granted_def)
  next
    case (CallUsage now tokens cost)
    with assms(1,6) AddUsage_step(1,2) [of now tokens cost b r b1 dim] show ?thesis by (simp add: granted_def)
  next
    case (CallCheck now)
    with assms(1,6) wall_time_frame(1,2) [of now b r b1 dim] show ?thesis by (simp add: granted_def)
  qed
qed

lemma budget_step_usage:
  assumes "budget_step c b = (r, b1)" and "0 \<le> bu_tokens b \<and> bu_tokens b \<le> most_int \<and> 0 \<le> bu_cost b \<and> bu_cost b \<le> most_int"
  shows "bu_tokens b1 = bu_tokens b + fst (counted_usage (c, r)) \<and> bu_cost b1 = bu_cost b + snd (counted_usage (c, r)) \<and>
    0 \<le> bu_tokens b1 \<and> bu_tokens b1 \<le> most_int \<and> 0 \<le> bu_cost b1 \<and> bu_cost b1 \<le> most_int"
proof -
  have same: "bu_tokens b1 = bu_tokens b \<and> bu_cost b1 = bu_cost b" if "consume now dim 1 b = (r, b1)" for now dim
    using consume_frame(3,4) [OF that] by simp
  show ?thesis
  proof (cases c)
    case (CallUsage now tokens cost)
    with assms AddUsage_step(3,4) [of now tokens cost b r b1] show ?thesis by simp
  next
    case (CallCheck now)
    with assms wall_time_frame(3,4) [of now b r b1] show ?thesis by simp
  qed (use assms same in \<open>auto simp: ConsumeRepairAttempt_def ConsumeModelCall_def ConsumeToolCall_def\<close>)
qed

lemma budget_run_counts:
  "budget_run cs b = (rs, b2) \<Longrightarrow> countable dim \<Longrightarrow> 0 < limit_of dim b \<Longrightarrow> limit_of dim b \<le> most_int \<Longrightarrow> 0 \<le> used_of dim b \<Longrightarrow>
   used_of dim b \<le> limit_of dim b \<Longrightarrow> used_of dim b2 = used_of dim b + granted dim rs \<and> used_of dim b2 \<le> limit_of dim b"
proof (induction cs arbitrary: b rs)
  case Nil
  then show ?case by (simp add: granted_def)
next
  case (Cons c cs)
  from Cons.prems(1) obtain r b1 rs' where step: "budget_step c b = (r, b1)" and run: "budget_run cs b1 = (rs', b2)" and rs: "rs = (c, r) # rs'"
    by (auto simp: Let_def split: prod.splits)
  from budget_step_counts [OF step Cons.prems(2-6)] have one: "used_of dim b1 = used_of dim b + granted dim [(c, r)]"
    "used_of dim b1 \<le> limit_of dim b" "limit_of dim b1 = limit_of dim b" by blast+
  have "0 \<le> granted dim [(c, r)]" by (simp add: granted_def)
  with one Cons.prems have "used_of dim b2 = used_of dim b1 + granted dim rs' \<and> used_of dim b2 \<le> limit_of dim b1"
    by (intro Cons.IH [OF run]) auto
  with one rs granted_Cons [of dim "(c, r)" rs'] show ?case by simp
qed

lemma budget_run_usage:
  "budget_run cs b = (rs, b2) \<Longrightarrow> 0 \<le> bu_tokens b \<and> bu_tokens b \<le> most_int \<and> 0 \<le> bu_cost b \<and> bu_cost b \<le> most_int \<Longrightarrow>
   bu_tokens b2 = bu_tokens b + (\<Sum>x \<leftarrow> rs. fst (counted_usage x)) \<and> bu_cost b2 = bu_cost b + (\<Sum>x \<leftarrow> rs. snd (counted_usage x)) \<and>
   bu_tokens b2 \<le> most_int \<and> bu_cost b2 \<le> most_int"
proof (induction cs arbitrary: b rs)
  case (Cons c cs)
  from Cons.prems(1) obtain r b1 rs' where step: "budget_step c b = (r, b1)" and run: "budget_run cs b1 = (rs', b2)" and rs: "rs = (c, r) # rs'"
    by (auto simp: Let_def split: prod.splits)
  from budget_step_usage [OF step Cons.prems(2)] Cons.IH [OF run] rs show ?case by simp
qed simp

text \<open>
  C18. A task stays within its limits: in any run of calls, at any times, the repair attempts, model calls
  and tool calls that are granted are counted exactly and never more than their limit, and the tokens and
  the cost are the exact sums of what was reported, without overflow.
\<close>

theorem budget_respected:
  assumes "budget_run cs (NewTaskBudget now limits started) = (rs, b)"
    and "tl_repairs limits \<le> most_int" and "tl_model_calls limits \<le> most_int" and "tl_tool_calls limits \<le> most_int"
  shows "(0 < tl_repairs limits \<longrightarrow> granted BudgetRepairAttempts rs = bu_repairs b \<and> bu_repairs b \<le> tl_repairs limits) \<and>
    (0 < tl_model_calls limits \<longrightarrow> granted BudgetModelCalls rs = bu_model_calls b \<and> bu_model_calls b \<le> tl_model_calls limits) \<and>
    (0 < tl_tool_calls limits \<longrightarrow> granted BudgetToolCalls rs = bu_tool_calls b \<and> bu_tool_calls b \<le> tl_tool_calls limits) \<and>
    bu_tokens b = (\<Sum>x \<leftarrow> rs. fst (counted_usage x)) \<and> bu_cost b = (\<Sum>x \<leftarrow> rs. snd (counted_usage x)) \<and>
    bu_tokens b \<le> most_int \<and> bu_cost b \<le> most_int"
  using budget_run_counts [OF assms(1), of BudgetRepairAttempts] budget_run_counts [OF assms(1), of BudgetModelCalls]
    budget_run_counts [OF assms(1), of BudgetToolCalls] budget_run_usage [OF assms(1)] assms(2-4)
  by (auto simp: NewTaskBudget_def countable_def)

definition sample_limits :: task_limits where
  "sample_limits = \<lparr>tl_repairs = 1, tl_model_calls = 2, tl_tool_calls = 0, tl_wall = 0, tl_tokens = 10, tl_cost = 0\<rparr>"

theorem budget_respected_witness:
  "\<exists>rs b. budget_run [CallModel 1, CallUsage 2 7 1, CallModel 3, CallUsage 4 7 1, CallModel 5] (NewTaskBudget 0 sample_limits 1) = (rs, b) \<and>
     map snd rs = [None, None, None, Some (BudgetExceeded BudgetTokens 14 10), Some (BudgetExceeded BudgetModelCalls 2 2)] \<and>
     granted BudgetModelCalls rs = 2 \<and> bu_tokens b = (\<Sum>x \<leftarrow> rs. fst (counted_usage x))"
proof -
  let ?run = "budget_run [CallModel 1, CallUsage 2 7 1, CallModel 3, CallUsage 4 7 1, CallModel 5] (NewTaskBudget 0 sample_limits 1)"
  obtain rs b where run: "?run = (rs, b)" by (cases ?run) auto
  have "map snd (fst ?run) = [None, None, None, Some (BudgetExceeded BudgetTokens 14 10), Some (BudgetExceeded BudgetModelCalls 2 2)]"
    and "bu_model_calls (snd ?run) = 2" by code_simp+
  with run budget_respected [OF run] show ?thesis by (auto simp: sample_limits_def)
qed

section \<open>The order of an event stream\<close>

datatype envelope_type = EventSession | EventMCPStatus | EventWarning | EventContent | EventThinking | EventToolResult | EventTool
| EventSubagent | EventRetry | EventUsage | EventVerificationResult | EventError | EventCompletion | EventOther string

text \<open>The fields that the order depends on.\<close>

record event_envelope =
  ee_schema :: string
  ee_sequence :: "64 word"
  ee_time :: time
  ee_type :: envelope_type

definition SchemaVersionV1 :: string where
  "SchemaVersionV1 = ''chronos.execution.v1''"

definition Terminal :: "event_envelope \<Rightarrow> bool" where
  "Terminal e = (ee_type e = EventError \<or> ee_type e = EventCompletion)"

text \<open>The events from index \<open>i\<close> on, of a stream of \<open>n\<close>; the result counts the terminal ones.\<close>

fun validate_from :: "nat \<Rightarrow> nat \<Rightarrow> nat \<Rightarrow> event_envelope list \<Rightarrow> nat option" where
  "validate_from n i terminal [] = Some terminal"
| "validate_from n i terminal (e # es) =
     (if ee_schema e \<noteq> SchemaVersionV1 then None
      else if ee_sequence e \<noteq> of_nat (i + 1) then None
      else if ee_time e = 0 then None
      else if Terminal e then (if i \<noteq> n - 1 then None else validate_from n (i + 1) (terminal + 1) es)
      else validate_from n (i + 1) terminal es)"

definition ValidateEventOrder :: "event_envelope list \<Rightarrow> bool" where
  "ValidateEventOrder events = (validate_from (length events) 0 0 events = Some 1)"

definition event_at :: "nat \<Rightarrow> event_envelope \<Rightarrow> bool" where
  "event_at i e = (ee_schema e = SchemaVersionV1 \<and> ee_sequence e = of_nat (i + 1) \<and> ee_time e \<noteq> 0)"

lemma validate_from_iff:
  "n = i + length es \<Longrightarrow> validate_from n i t es = Some m \<longleftrightarrow>
     (\<forall>j < length es. event_at (i + j) (es ! j) \<and> (Terminal (es ! j) \<longrightarrow> j = length es - 1)) \<and>
     m = t + (if es \<noteq> [] \<and> Terminal (last es) then 1 else 0)"
proof (induction es arbitrary: i t)
  case (Cons e es)
  have IH: "validate_from n (i + 1) t' es = Some m \<longleftrightarrow>
     (\<forall>j < length es. event_at (i + 1 + j) (es ! j) \<and> (Terminal (es ! j) \<longrightarrow> j = length es - 1)) \<and>
     m = t' + (if es \<noteq> [] \<and> Terminal (last es) then 1 else 0)" for t'
    using Cons.prems by (intro Cons.IH) simp
  have all: "(\<forall>j < length (e # es). event_at (i + j) ((e # es) ! j) \<and> (Terminal ((e # es) ! j) \<longrightarrow> j = length (e # es) - 1)) \<longleftrightarrow>
      event_at i e \<and> (Terminal e \<longrightarrow> es = []) \<and>
      (\<forall>j < length es. event_at (i + 1 + j) (es ! j) \<and> (Terminal (es ! j) \<longrightarrow> j = length es - 1))"
    by (auto simp: all_conj_distrib less_Suc_eq_0_disj nth_Cons split: nat.splits)
  have last: "Terminal e \<Longrightarrow> i \<noteq> n - 1 \<longleftrightarrow> es \<noteq> []" using Cons.prems by (cases es) auto
  show ?case
    unfolding all using IH last by (auto simp: event_at_def)
qed auto

text \<open>
  C24. A stream of events is accepted exactly when it is not empty, every event has the schema version and a
  time and is numbered by its place from one, and the last event, and no other, is terminal.
\<close>

theorem event_order_iff:
  "ValidateEventOrder es \<longleftrightarrow> es \<noteq> [] \<and> (\<forall>j < length es. event_at j (es ! j) \<and> (Terminal (es ! j) \<longleftrightarrow> j = length es - 1))"
proof (cases "es = []")
  case True
  then show ?thesis by (simp add: ValidateEventOrder_def)
next
  case False
  then have "last es = es ! (length es - 1)" "length es - 1 < length es" by (simp_all add: last_conv_nth)
  moreover from this have "(\<forall>j < length es. event_at j (es ! j) \<and> (Terminal (es ! j) \<longleftrightarrow> j = length es - 1)) \<longleftrightarrow>
      (\<forall>j < length es. event_at j (es ! j) \<and> (Terminal (es ! j) \<longrightarrow> j = length es - 1)) \<and> Terminal (last es)"
    by metis
  ultimately show ?thesis
    using False validate_from_iff [of "length es" 0 es 0 1] by (simp add: ValidateEventOrder_def)
qed

theorem event_order_iff_witness:
  "\<not> ValidateEventOrder [\<lparr>ee_schema = SchemaVersionV1, ee_sequence = 1, ee_time = 5, ee_type = EventError\<rparr>,
     \<lparr>ee_schema = SchemaVersionV1, ee_sequence = 2, ee_time = 6, ee_type = EventCompletion\<rparr>]"
  unfolding event_order_iff by (auto simp: Terminal_def intro!: exI [of _ 0])

end
