(* ===== verification/Spec2Isabelle.thy ===== *)
theory Spec2Isabelle
  imports Completion_Policy Claim_Runs Token_Cache Scip_Symbols Delivery_Effects Delivery_Spending Delivery_Progress
    Delivery_Receipts Task_Budget
begin

text \<open>
  Chronos Code is an agent harness: a model is given tools, and a delivery (a goal admitted through the
  HTTP server) is carried out by workers that may crash, be replaced or be cancelled at any moment. This
  development models the parts of the program that such a delivery relies on to be done once, within
  its budget and with evidence, and two smaller components with a contract of their own.

  \<^bold>\<open>Durable deliveries\<close> (\<^verbatim>\<open>src/internal/execution/delivery_*.go\<close>). The SQLite store is a record of tables,
  a table is the list of its rows, and a method is a transaction: a function that fails or returns the
  new store. A failure rolls back. A method that takes the time or the identity of an event takes it as
  an argument here, once for each time the code reads its clock.

    \<^item> \<^verbatim>\<open>Delivery_Domain\<close>: \<^verbatim>\<open>delivery_domain.go\<close>, the aggregate, its states and the transition table.
    \<^item> \<^verbatim>\<open>Timestamps\<close>, \<^verbatim>\<open>Delivery_Tables\<close>, \<^verbatim>\<open>Delivery_Store\<close>: \<^verbatim>\<open>delivery_store.go\<close>, the schema, admission,
      the numbered event log, \<^verbatim>\<open>ReplayDelivery\<close>, the compare-and-swap mutations with their
      idempotency keys, queries and the migration ledger. A retried mutation reads the store in up to
      100 rounds while another writer may commit; what each round sees is the list \<open>observations\<close>.
    \<^item> \<^verbatim>\<open>Delivery_Queue\<close>: \<^verbatim>\<open>delivery_queue.go\<close>, claims, leases with fencing epochs, heartbeats, release,
      finalisation, signals and cancellation.
    \<^item> \<^verbatim>\<open>Delivery_Operations\<close>: \<^verbatim>\<open>delivery_operations.go\<close>, the journal of effects (prepared, running,
      observed, reconciled).
    \<^item> \<^verbatim>\<open>Delivery_Usage\<close>: \<^verbatim>\<open>delivery_usage.go\<close>, reservations of money for provider calls and what they cost.
    \<^item> \<^verbatim>\<open>Delivery_View\<close>, \<^verbatim>\<open>Delivery_Replay\<close>, \<^verbatim>\<open>Delivery_Laws\<close>, \<^verbatim>\<open>Delivery_Mutations\<close>, \<^verbatim>\<open>Delivery_Queue_Laws\<close>: the
      rows of one delivery, what it means for them to agree with its log, and that every
      transaction keeps the agreement. \<^verbatim>\<open>Delivery_Machine\<close> has one step for each call
      (\<open>store_step\<close>) and runs them in any order.
    \<^item> \<^verbatim>\<open>Delivery_Properties\<close>: replay gives what the tables hold, logs only grow, retries return what
      the first attempt returned, one change per version, terminal states are final.
    \<^item> \<^verbatim>\<open>Delivery_Leases\<close>: fencing by epochs, what a claim gives, exclusiveness, cancellation.
      \<^verbatim>\<open>Delivery_Effects\<close>: an effect begins once. \<^verbatim>\<open>Delivery_Spending\<close>: spending stays within the
      cap. \<^verbatim>\<open>Delivery_Progress\<close>: due work can be claimed, and what blocks it.
    \<^item> \<^verbatim>\<open>Delivery_Rounds\<close>: \<^verbatim>\<open>delivery_tool_rounds.go\<close> and \<^verbatim>\<open>delivery_agent_replies.go\<close>, the receipts of
      model calls from which a replacement worker continues. \<^verbatim>\<open>Delivery_Receipts\<close>: what a complete round
      is, that it shows only effects the journal holds, and that it is resumed as it was saved.
    \<^item> \<^verbatim>\<open>Task_Budget\<close>: \<^verbatim>\<open>task_budget.go\<close>, the limits of one task, and the order of the events of
      \<^verbatim>\<open>envelope.go\<close>.

  \<^bold>\<open>Evidence\<close>. \<^verbatim>\<open>Ledger\<close> models the ledger of one run (\<^verbatim>\<open>ledger.go\<close>, \<^verbatim>\<open>ledger_store.go\<close>,
  \<^verbatim>\<open>verification_inputs.go\<close>): the sequence of its events, their reduction to the current state and the
  durable sink. \<^verbatim>\<open>Completion_Policy\<close> models \<^verbatim>\<open>src/internal/verification/policy.go\<close>, which reads those
  events: the checks that a change requires and whether a success may be claimed.

  \<^bold>\<open>Anchored claims\<close> (\<^verbatim>\<open>src/internal/claims\<close>). \<^verbatim>\<open>Go_Paths\<close> has the functions of \<^verbatim>\<open>path/filepath\<close> that are used,
  \<^verbatim>\<open>Anchored_Claims\<close> the store of claims and its operations, \<^verbatim>\<open>Claim_Truth\<close> the search for a moved span and the
  meaning of the statuses, \<^verbatim>\<open>Claim_Paths\<close> the normal form of anchored paths, \<^verbatim>\<open>Claim_Runs\<close> the sessions:
  reachable stores, refreshing and restoring.

  \<^bold>\<open>Components of their own\<close>. \<^verbatim>\<open>Token_Cache\<close> models \<^verbatim>\<open>src/internal/tokencache/cache.go\<close>, and \<^verbatim>\<open>Scip_Symbols\<close>
  models \<^verbatim>\<open>src/indexer/scip/symbol.go\<close>.

  \<^bold>\<open>Abstractions\<close>. Text is a list of bytes. JSON columns hold the values they encode, and a fingerprint
  (the SHA-256 of a canonical JSON) is the request it is computed from. A stored timestamp is the
  pair of its second and the text of its fraction, with the order the text has. \<^verbatim>\<open>json.Valid\<close>,
  the hex SHA-256, the content of files and the SDK's tokenizers are parameters; the claims
  theorems assume only that a hash is not the empty text. Integers are \<^verbatim>\<open>int\<close> with the checks the code
  makes, and wrap where it does not check. Mutexes make a method one step; contexts and
  cancellation of a call in flight are not modelled.

  \<^bold>\<open>Loops\<close>. Loops over rows and events are folds or structural recursion. The loops that search (an anchor's
  window, eviction, descriptors) have a termination proof; the only bound is the one of the code, 100
  rounds of a retried mutation.

  \<^bold>\<open>Not modelled\<close>. The SQL of each migration and the one-time upgrade of old rows, decoding of malformed
  rows, \<^verbatim>\<open>NormalizeScope\<close> (it resolves symbolic links on disk), backups. The worker loop is planned next. The
  orchestrator, the interfaces, configuration, the index and the remaining packages are outside:
  they are input and output, calls into libraries and the SDK, or heuristics without a contract.
\<close>

end
